(* ===== verification/Prelude.thy ===== *)
theory Prelude
  imports Main "HOL-Library.Word"
begin

unbundle bit_operations_syntax

text \<open>
  Shared vocabulary of the development: the machine words and pointers of the
  driver, the ways a C statement of the driver can go wrong, a result type that
  carries them, checked array accesses, spin locks, and the generic facts about
  lists, results and words on which the component theories rest.

  Pointers are 64-bit words with \<open>0\<close> for \<open>NULL\<close>, since the driver stores a
  pointer in the \<open>u64\<close> field \<open>wr_id\<close> and casts it back.
\<close>

section \<open>Words and pointers\<close>

type_synonym u8 = "8 word"
type_synonym u32 = "32 word"
type_synonym u64 = "64 word"
type_synonym ptr = "64 word"

abbreviation (input) NULL :: ptr where
  "NULL \<equiv> 0"

section \<open>Faults and results\<close>

text \<open>
  What stops a kernel thread or the server process: \<open>BUG()\<close> and \<open>BUG_ON\<close>, a
  dereference of \<open>NULL\<close>, an array index outside its array, a division by zero,
  the acquisition of a spin lock that nobody will release, a loop that still
  spins when every recorded answer of the hardware has been consumed, and the
  server's \<open>exit(code)\<close>.
\<close>

datatype fault =
    Bug
  | Null_Deref
  | Use_After_Free
  | Wild_Write
  | Out_Of_Bounds
  | Div_By_Zero
  | Deadlock
  | Spinning
  | Exit int

type_synonym 'a result = "fault + 'a"

fun bindR :: "'a result \<Rightarrow> ('a \<Rightarrow> 'b result) \<Rightarrow> 'b result" where
  "bindR (Inl e) f = Inl e"
| "bindR (Inr x) f = f x"

fun assertR :: "bool \<Rightarrow> fault \<Rightarrow> unit result" where
  "assertR True e = Inr ()"
| "assertR False e = Inl e"

text \<open>\<open>xs[i]\<close> and \<open>xs[i] = v\<close> with the index check that C leaves out.\<close>

definition arr_get :: "'a list \<Rightarrow> int \<Rightarrow> 'a result" where
  "arr_get xs i =
     (if 0 \<le> i \<and> i < int (length xs) then Inr (xs ! nat i) else Inl Out_Of_Bounds)"

definition arr_set :: "'a list \<Rightarrow> int \<Rightarrow> 'a \<Rightarrow> 'a list result" where
  "arr_set xs i v =
     (if 0 \<le> i \<and> i < int (length xs) then Inr (xs[nat i := v]) else Inl Out_Of_Bounds)"

text \<open>\<open>*p\<close> in a store of objects: a pointer with no object behind it faults.\<close>

definition deref :: "(ptr \<rightharpoonup> 'a) \<Rightarrow> ptr \<Rightarrow> 'a result" where
  "deref m p = (case m p of None \<Rightarrow> Inl Null_Deref | Some x \<Rightarrow> Inr x)"

text \<open>\<open>a % b\<close> on a non-negative \<open>a\<close>: C truncates, which agrees with \<open>mod\<close> there.\<close>

definition c_mod :: "int \<Rightarrow> int \<Rightarrow> int result" where
  "c_mod a b = (if b = 0 then Inl Div_By_Zero else Inr (a mod b))"

text \<open>
  A critical section runs as one step of the model, so a lock found taken at
  its start was left behind by an earlier section and is never released.
\<close>

definition spin_lock :: "bool \<Rightarrow> bool result" where
  "spin_lock l = (if l then Inl Deadlock else Inr True)"

definition spin_unlock :: "bool \<Rightarrow> bool" where
  "spin_unlock l = False"

section \<open>Facts about results\<close>

named_theorems result_simps \<open>unfolding of results, arrays and locks\<close>

lemma bindR_eq_Inr [result_simps]:
  "bindR m f = Inr y \<longleftrightarrow> (\<exists>x. m = Inr x \<and> f x = Inr y)"
  by (cases m) auto

lemma bindR_eq_Inl [result_simps]:
  "bindR m f = Inl e \<longleftrightarrow> m = Inl e \<or> (\<exists>x. m = Inr x \<and> f x = Inl e)"
  by (cases m) auto

lemma assertR_eq_Inr [simp]: "assertR b e = Inr u \<longleftrightarrow> b"
  by (cases b) auto

lemma assertR_eq_Inl [simp]: "assertR b e = Inl e' \<longleftrightarrow> \<not> b \<and> e' = e"
  by (cases b) auto

lemma bindR_assertR [simp]: "bindR (assertR b e) f = (if b then f () else Inl e)"
  by (cases b) auto

lemma bindR_assoc: "bindR (bindR m f) g = bindR m (\<lambda>x. bindR (f x) g)"
  by (cases m) auto

lemma bindR_if: "bindR (if b then x else y) f = (if b then bindR x f else bindR y f)"
  by simp

lemma arr_get_nat [simp]:
  "i < length xs \<Longrightarrow> arr_get xs (int i) = Inr (xs ! i)"
  by (simp add: arr_get_def)

lemma arr_set_nat [simp]:
  "i < length xs \<Longrightarrow> arr_set xs (int i) v = Inr (xs[i := v])"
  by (simp add: arr_set_def)

lemma arr_get_out [simp]: "length xs \<le> i \<Longrightarrow> arr_get xs (int i) = Inl Out_Of_Bounds"
  by (simp add: arr_get_def)

lemma arr_set_out [simp]: "length xs \<le> i \<Longrightarrow> arr_set xs (int i) v = Inl Out_Of_Bounds"
  by (simp add: arr_set_def)

lemma arr_get_eq_Inr: "arr_get xs i = Inr x \<longleftrightarrow> 0 \<le> i \<and> i < int (length xs) \<and> x = xs ! nat i"
  by (auto simp: arr_get_def)

lemma arr_set_eq_Inr:
  "arr_set xs i v = Inr ys \<longleftrightarrow> 0 \<le> i \<and> i < int (length xs) \<and> ys = xs[nat i := v]"
  by (auto simp: arr_set_def)

lemma deref_Some [simp]: "m p = Some x \<Longrightarrow> deref m p = Inr x"
  by (simp add: deref_def)

lemma deref_None [simp]: "m p = None \<Longrightarrow> deref m p = Inl Null_Deref"
  by (simp add: deref_def)

lemma deref_eq_Inr [result_simps]: "deref m p = Inr x \<longleftrightarrow> m p = Some x"
  by (simp add: deref_def split: option.split)

lemma c_mod_nat [simp]: "0 < n \<Longrightarrow> c_mod (int a) (int n) = Inr (int (a mod n))"
  by (simp add: c_mod_def of_nat_mod)

lemma c_mod_Suc [simp]: "0 < n \<Longrightarrow> c_mod (int a + 1) (int n) = Inr (int (Suc a mod n))"
  using c_mod_nat [of n "Suc a"] by (simp add: add.commute)

lemma spin_lock_free [simp]: "spin_lock False = Inr True"
  by (simp add: spin_lock_def)

lemma spin_lock_taken [simp]: "spin_lock True = Inl Deadlock"
  by (simp add: spin_lock_def)

lemma spin_unlock_False [simp]: "spin_unlock l = False"
  by (simp add: spin_unlock_def)

lemmas checked_simps = arr_get_eq_Inr arr_set_eq_Inr c_mod_def spin_lock_def

section \<open>Facts about lists\<close>

lemma map_nth_upt_eq: "map (\<lambda>k. xs ! k) [0..<length xs] = xs"
  by (rule map_nth)

lemma concat_map_append: "concat (map f (xs @ ys)) = concat (map f xs) @ concat (map f ys)"
  by simp

lemma length_concat_le:
  "(\<forall>x \<in> set xs. length x \<le> m) \<Longrightarrow> length (concat xs) \<le> m * length xs"
  by (induction xs) auto

section \<open>Facts about words\<close>

lemma unat_plus_no_wrap:
  fixes a b :: "'a::len word"
  assumes "unat a + unat b < 2 ^ LENGTH('a)"
  shows "unat (a + b) = unat a + unat b"
  using assms by (simp add: unat_word_ariths)

lemma unat_u32_bound: "unat (x :: u32) < 2 ^ 32"
  using unsigned_less [of x] by simp

lemma unat_u64_bound: "unat (x :: u64) < 2 ^ 64"
  using unsigned_less [of x] by simp

lemma unat_and_24: "unat ((x :: u32) AND 0xffffff) < 2 ^ 24"
proof -
  have "x AND 0xffffff = take_bit 24 x"
    by (simp add: take_bit_eq_mask mask_eq_exp_minus_1)
  then have "unat (x AND 0xffffff) = take_bit 24 (unat x)"
    by (simp add: unsigned_take_bit_eq)
  then show ?thesis
    using take_bit_nat_less_exp [of 24 "unat x"] by simp
qed

lemma unat_ucast_32_64 [simp]: "unat (ucast (x :: u32) :: u64) = unat x"
  by (simp add: unsigned_ucast_eq take_bit_nat_eq_self_iff
      order_less_trans [OF unat_u32_bound])

end
