(* ===== verification/Conf.thy ===== *)
theory Conf
  imports Prelude
begin

text \<open>
  The compile-time configuration of the driver, \<open>src/conf.h\<close>. Every macro that
  a modelled function reads is a field, so that the functions are translated
  once with all their \<open>#if\<close> branches and the theorems hold for each
  configuration; \<open>conf_h\<close> is the configuration the repository ships.
\<close>

datatype mode = MODE_SYNC | MODE_ASYNC | MODE_ONE

record conf =
  MODE :: mode
  COPY_LESS :: bool
  SIMPLE_POLL :: bool
  SIMPLE_MAKE_WR :: bool
  CUSTOM_MAKE_REQ_FN :: bool
  DEVICE_BOUND :: nat
  REQ_ARR_SIZE :: nat
  MAX_REQ :: nat
  MERGE_REQ :: bool
  REQ_POOL_SIZE :: nat
  CQE_SIZE :: nat
  DEBUG_OUT_REQ :: bool
  MEASURE_LATENCY :: bool
  LATENCY_BUCKET :: nat

text \<open>\<open>PAGE_SIZE\<close> is the kernel's page size on x86-64.\<close>

abbreviation (input) PAGE_SIZE :: nat where
  "PAGE_SIZE \<equiv> 4096"

abbreviation (input) KERNEL_SECTOR_SIZE :: nat where
  "KERNEL_SECTOR_SIZE \<equiv> 512"

definition SECTORS_PER_PAGE :: nat where
  "SECTORS_PER_PAGE = PAGE_SIZE div KERNEL_SECTOR_SIZE"

definition conf_h :: conf where
  "conf_h = \<lparr> MODE = MODE_SYNC, COPY_LESS = True, SIMPLE_POLL = True,
     SIMPLE_MAKE_WR = True, CUSTOM_MAKE_REQ_FN = False, DEVICE_BOUND = 100,
     REQ_ARR_SIZE = 10, MAX_REQ = 1024, MERGE_REQ = False, REQ_POOL_SIZE = 1024,
     CQE_SIZE = 4096, DEBUG_OUT_REQ = False, MEASURE_LATENCY = False,
     LATENCY_BUCKET = 100 \<rparr>"

text \<open>
  \<open>conf.h\<close> redefines \<open>MAX_REQ\<close> to 1 when latencies are measured, and refuses to
  compile when the two disagree.
\<close>

definition conf_redefine :: "conf \<Rightarrow> conf" where
  "conf_redefine C = (if MEASURE_LATENCY C then C\<lparr>MAX_REQ := 1\<rparr> else C)"

definition conf_check :: "conf \<Rightarrow> bool" where
  "conf_check C \<longleftrightarrow> \<not> (MEASURE_LATENCY C \<and> MAX_REQ C \<noteq> 1)"

lemma conf_check_redefine [simp]: "conf_check (conf_redefine C)"
  by (simp add: conf_check_def conf_redefine_def)

lemma conf_h_sel [simp]:
  "MODE conf_h = MODE_SYNC" "COPY_LESS conf_h" "SIMPLE_POLL conf_h" "SIMPLE_MAKE_WR conf_h"
  "\<not> CUSTOM_MAKE_REQ_FN conf_h" "DEVICE_BOUND conf_h = 100" "REQ_ARR_SIZE conf_h = 10"
  "MAX_REQ conf_h = 1024" "\<not> MERGE_REQ conf_h" "REQ_POOL_SIZE conf_h = 1024"
  "CQE_SIZE conf_h = 4096" "\<not> DEBUG_OUT_REQ conf_h" "\<not> MEASURE_LATENCY conf_h"
  "LATENCY_BUCKET conf_h = 100"
  by (simp_all add: conf_h_def)

end
