(* ===== verification/Ring.thy ===== *)
theory Ring
  imports Prelude "HOL-Library.Multiset"
begin

text \<open>
  The driver keeps its free objects in two circular arrays of pointers that
  follow the same discipline: \<open>head\<close> is the slot of the next object to hand out,
  \<open>tail\<close> the slot of the last free object, both inclusive, a handed-out slot is
  \<open>NULL\<close>, and the last free object is never handed out. This theory holds the
  arithmetic of that discipline, the contract it implements (a bounded queue, as
  the locale \<open>slot_ring\<close>), and what any client of the contract can rely on.
\<close>

section \<open>The circular array\<close>

definition ring_count :: "nat \<Rightarrow> nat \<Rightarrow> nat \<Rightarrow> nat" where
  "ring_count n h t = Suc (if h \<le> t then t - h else t + n - h)"

definition ring_items :: "ptr list \<Rightarrow> nat \<Rightarrow> nat \<Rightarrow> ptr list" where
  "ring_items d h t = map (\<lambda>k. d ! ((h + k) mod length d)) [0..<ring_count (length d) h t]"

definition ring_ok :: "ptr list \<Rightarrow> nat \<Rightarrow> nat \<Rightarrow> bool" where
  "ring_ok d h t \<longleftrightarrow> h < length d \<and> t < length d \<and>
     (\<forall>k < length d. d ! ((h + k) mod length d) = NULL \<longleftrightarrow> ring_count (length d) h t \<le> k)"

lemma ring_ok_bounds:
  assumes "ring_ok d h t"
  shows "h < length d" "t < length d" "0 < length d"
  using assms by (auto simp: ring_ok_def)

lemma ring_count_bounds:
  "h < n \<Longrightarrow> t < n \<Longrightarrow> 1 \<le> ring_count n h t \<and> ring_count n h t \<le> n"
  by (auto simp: ring_count_def)

lemma length_ring_items [simp]: "length (ring_items d h t) = ring_count (length d) h t"
  by (simp add: ring_items_def)

lemma ring_count_one_iff: "h < n \<Longrightarrow> t < n \<Longrightarrow> ring_count n h t = Suc 0 \<longleftrightarrow> h = t"
  by (auto simp: ring_count_def)

lemma ring_count_full_iff:
  "h < n \<Longrightarrow> t < n \<Longrightarrow> ring_count n h t = n \<longleftrightarrow> Suc t mod n = h"
  by (cases "Suc t = n") (auto simp: ring_count_def)

lemma ring_count_advance_head:
  "h < n \<Longrightarrow> t < n \<Longrightarrow> h \<noteq> t \<Longrightarrow> Suc (ring_count n (Suc h mod n) t) = ring_count n h t"
  by (cases "Suc h = n") (auto simp: ring_count_def)

lemma ring_count_advance_tail:
  "h < n \<Longrightarrow> t < n \<Longrightarrow> Suc t mod n \<noteq> h \<Longrightarrow> ring_count n h (Suc t mod n) = Suc (ring_count n h t)"
  by (cases "Suc t = n") (auto simp: ring_count_def)

lemma ring_slot_after_tail:
  "h < n \<Longrightarrow> t < n \<Longrightarrow> (h + ring_count n h t) mod n = Suc t mod n"
  by (auto simp: ring_count_def mod_if)

lemma ring_slot_eq:
  "h < (n::nat) \<Longrightarrow> k < n \<Longrightarrow> (h + k) mod n = (if h + k < n then h + k else h + k - n)"
  by (auto simp: mod_if)

lemma ring_slot_inj:
  assumes "h < (n::nat)" "i < n" "j < n" "(h + i) mod n = (h + j) mod n"
  shows "i = j"
  using assms by (auto simp: ring_slot_eq split: if_splits)

lemma ring_slot_lt: "0 < n \<Longrightarrow> (h + k) mod n < (n::nat)"
  by simp

lemma ring_slot_shift: "(Suc h mod n + k) mod n = (h + Suc k) mod (n::nat)"
  by (simp add: mod_simps)

lemma ring_items_nth:
  "k < ring_count (length d) h t \<Longrightarrow> ring_items d h t ! k = d ! ((h + k) mod length d)"
  by (simp add: ring_items_def)

lemma ring_items_nonnull:
  assumes "ring_ok d h t" and "r \<in> set (ring_items d h t)"
  shows "r \<noteq> NULL"
proof -
  have "ring_count (length d) h t \<le> length d"
    using assms(1) by (simp add: ring_ok_def ring_count_bounds)
  then show ?thesis
    using assms by (auto simp: ring_items_def ring_ok_def)
qed

lemma ring_items_Cons:
  assumes "ring_ok d h t"
  shows "ring_items d h t = d ! h # tl (ring_items d h t)"
  using assms
  by (auto simp: ring_items_def ring_ok_def ring_count_def upt_rec simp del: upt_Suc)

lemma ring_head_nonnull: "ring_ok d h t \<Longrightarrow> d ! h \<noteq> NULL"
  using ring_items_Cons ring_items_nonnull by (metis list.set_intros(1))

text \<open>Taking the object at the head: the first item leaves the queue.\<close>

lemma ring_slot_not_head:
  assumes "h < (n::nat)" "Suc k < n"
  shows "(h + Suc k) mod n \<noteq> h"
  using ring_slot_inj [of h n "Suc k" 0] assms by auto

lemma ring_ok_take:
  assumes ok: "ring_ok d h t" and ne: "h \<noteq> t"
  shows "ring_ok (d[h := NULL]) (Suc h mod length d) t"
proof -
  let ?n = "length d"
  note bd = ring_ok_bounds [OF ok]
  have cnt: "Suc (ring_count ?n (Suc h mod ?n) t) = ring_count ?n h t"
    using bd ne by (simp add: ring_count_advance_head)
  have "d[h := NULL] ! ((Suc h mod ?n + k) mod ?n) = NULL \<longleftrightarrow>
      ring_count ?n (Suc h mod ?n) t \<le> k" if k: "k < ?n" for k
  proof (cases "Suc k < ?n")
    case True
    then have "(h + Suc k) mod ?n \<noteq> h"
      by (rule ring_slot_not_head [OF bd(1)])
    then show ?thesis
      using ok True cnt by (auto simp: ring_ok_def ring_slot_shift simp del: add_Suc_right)
  next
    case False
    with k have "Suc k = ?n" by simp
    then have "(h + Suc k) mod ?n = h"
      using bd by simp
    moreover have "ring_count ?n (Suc h mod ?n) t \<le> k"
      using cnt \<open>Suc k = ?n\<close> ring_count_bounds [of h ?n t] bd by simp
    ultimately show ?thesis
      using bd by (simp add: ring_slot_shift del: add_Suc_right)
  qed
  then show ?thesis
    using bd by (simp add: ring_ok_def)
qed

lemma ring_items_take:
  assumes ok: "ring_ok d h t" and ne: "h \<noteq> t"
  shows "ring_items (d[h := NULL]) (Suc h mod length d) t = tl (ring_items d h t)"
proof (rule nth_equalityI)
  let ?n = "length d"
  note bd = ring_ok_bounds [OF ok]
  have cnt: "Suc (ring_count ?n (Suc h mod ?n) t) = ring_count ?n h t"
    using bd ne by (simp add: ring_count_advance_head)
  show "length (ring_items (d[h := NULL]) (Suc h mod ?n) t) = length (tl (ring_items d h t))"
    using cnt by simp
  fix k
  assume "k < length (ring_items (d[h := NULL]) (Suc h mod ?n) t)"
  then have k: "Suc k < ring_count ?n h t"
    using cnt by simp
  then have "Suc k < ?n"
    using ring_count_bounds [of h ?n t] bd by simp
  then have "(h + Suc k) mod ?n \<noteq> h"
    by (rule ring_slot_not_head [OF bd(1)])
  then show "ring_items (d[h := NULL]) (Suc h mod ?n) t ! k = tl (ring_items d h t) ! k"
    using k cnt by (simp add: ring_items_nth nth_tl ring_slot_shift del: add_Suc_right)
qed

text \<open>Putting an object behind the tail: it becomes the last item.\<close>

lemma ring_give_slot_free:
  assumes ok: "ring_ok d h t" and ne: "Suc t mod length d \<noteq> h"
  shows "d ! (Suc t mod length d) = NULL"
proof -
  let ?n = "length d"
  note bd = ring_ok_bounds [OF ok]
  have "ring_count ?n h t < ?n"
    using ring_count_full_iff [of h ?n t] ring_count_bounds [of h ?n t] bd ne by linarith
  then have "d ! ((h + ring_count ?n h t) mod ?n) = NULL"
    using ok by (simp add: ring_ok_def)
  then show ?thesis
    using bd by (simp add: ring_slot_after_tail)
qed

lemma ring_slot_not_after_tail:
  assumes "h < n" "t < n" "k < n" "k \<noteq> ring_count n h t" "Suc t mod n \<noteq> h"
  shows "(h + k) mod n \<noteq> Suc t mod n"
proof -
  have "ring_count n h t < n"
    using ring_count_full_iff [of h n t] ring_count_bounds [of h n t] assms by linarith
  then show ?thesis
    using ring_slot_inj [of h n k "ring_count n h t"] ring_slot_after_tail [of h n t] assms
    by metis
qed

lemma ring_ok_give:
  assumes ok: "ring_ok d h t" and ne: "Suc t mod length d \<noteq> h" and r: "r \<noteq> NULL"
  shows "ring_ok (d[Suc t mod length d := r]) h (Suc t mod length d)"
proof -
  let ?n = "length d"
  note bd = ring_ok_bounds [OF ok]
  have "d[Suc t mod ?n := r] ! ((h + k) mod ?n) = NULL \<longleftrightarrow> ring_count ?n h (Suc t mod ?n) \<le> k"
    if k: "k < ?n" for k
  proof (cases "k = ring_count ?n h t")
    case True
    then show ?thesis
      using bd ne r by (simp add: ring_slot_after_tail ring_count_advance_tail)
  next
    case False
    then have "(h + k) mod ?n \<noteq> Suc t mod ?n"
      using bd k ne by (simp add: ring_slot_not_after_tail)
    then show ?thesis
      using ok bd k ne False by (auto simp: ring_ok_def ring_count_advance_tail)
  qed
  then show ?thesis
    using bd by (simp add: ring_ok_def)
qed

lemma ring_items_give:
  assumes ok: "ring_ok d h t" and ne: "Suc t mod length d \<noteq> h"
  shows "ring_items (d[Suc t mod length d := r]) h (Suc t mod length d) = ring_items d h t @ [r]"
proof (rule nth_equalityI)
  let ?n = "length d"
  note bd = ring_ok_bounds [OF ok]
  have cnt: "ring_count ?n h (Suc t mod ?n) = Suc (ring_count ?n h t)"
    using bd ne by (simp add: ring_count_advance_tail)
  show "length (ring_items (d[Suc t mod ?n := r]) h (Suc t mod ?n)) =
      length (ring_items d h t @ [r])"
    using cnt by simp
  fix k
  assume "k < length (ring_items (d[Suc t mod ?n := r]) h (Suc t mod ?n))"
  then have k: "k \<le> ring_count ?n h t"
    using cnt by simp
  show "ring_items (d[Suc t mod ?n := r]) h (Suc t mod ?n) ! k = (ring_items d h t @ [r]) ! k"
  proof (cases "k = ring_count ?n h t")
    case True
    then show ?thesis
      using bd cnt by (simp add: ring_items_nth ring_slot_after_tail nth_append)
  next
    case False
    then have "k < ring_count ?n h t" "k < ?n"
      using k ring_count_bounds [of h ?n t] bd by linarith+
    moreover have "(h + k) mod ?n \<noteq> Suc t mod ?n"
      using bd ne False \<open>k < ?n\<close> by (simp add: ring_slot_not_after_tail)
    ultimately show ?thesis
      using cnt by (simp add: ring_items_nth nth_append)
  qed
qed

text \<open>A full array as both allocators set it up: head 0, tail in the last slot.\<close>

lemma ring_items_full: "d \<noteq> [] \<Longrightarrow> ring_items d 0 (length d - 1) = d"
  by (rule nth_equalityI) (auto simp: ring_items_nth ring_count_def)

lemma ring_ok_full: "d \<noteq> [] \<Longrightarrow> NULL \<notin> set d \<Longrightarrow> ring_ok d 0 (length d - 1)"
  by (auto simp: ring_ok_def ring_count_def in_set_conv_nth)

text \<open>The objects in the array are the items and nothing else.\<close>

lemma ring_items_rotate:
  assumes "ring_ok d h t"
  shows "ring_items d h t = take (ring_count (length d) h t) (rotate h d)"
  using ring_ok_bounds [OF assms] ring_count_bounds [of h "length d" t]
  by (intro nth_equalityI) (auto simp: ring_items_nth nth_rotate)

lemma ring_items_filter:
  assumes ok: "ring_ok d h t"
  shows "mset (filter (\<lambda>r. r \<noteq> NULL) d) = mset (ring_items d h t)"
proof -
  let ?c = "ring_count (length d) h t" and ?P = "\<lambda>r::ptr. r \<noteq> NULL"
  have rest: "drop ?c (rotate h d) ! k = NULL" if "k < length d - ?c" for k
    using ok that by (auto simp: ring_ok_def nth_rotate)
  have "filter ?P (drop ?c (rotate h d)) = []"
    using rest by (auto simp: filter_empty_conv in_set_conv_nth)
  moreover have "filter ?P (take ?c (rotate h d)) = take ?c (rotate h d)"
    using ring_items_nonnull [OF ok] by (simp add: ring_items_rotate [OF ok] filter_id_conv)
  moreover have "filter ?P (rotate h d) =
      filter ?P (take ?c (rotate h d)) @ filter ?P (drop ?c (rotate h d))"
    by (metis append_take_drop_id filter_append)
  moreover have "mset (rotate h d) = mset d"
    unfolding rotate_drop_take
    by (metis append_take_drop_id mset_append union_commute)
  ultimately show ?thesis
    by (metis append.right_neutral mset_filter ring_items_rotate [OF ok])
qed

section \<open>The contract: a bounded queue of free objects\<close>

text \<open>
  What a client does with the objects: it acquires one, or it releases one that
  it holds. \<open>ring_run\<close> runs a schedule of such steps on an implementation and
  tracks what the client holds; \<open>queue_run\<close> is the same schedule on the abstract
  queue, where a step that the contract does not cover gives \<open>None\<close>.
\<close>

datatype ring_step = Acquire | Release ptr

fun ring_run :: "('p \<Rightarrow> (ptr \<times> 'p) result) \<Rightarrow> ('p \<Rightarrow> ptr \<Rightarrow> 'p result) \<Rightarrow>
    ring_step list \<Rightarrow> 'p \<times> ptr list \<Rightarrow> ('p \<times> ptr list) result" where
  "ring_run acq rel [] s = Inr s"
| "ring_run acq rel (Acquire # ss) (p, held) =
     bindR (acq p) (\<lambda>(r, p'). ring_run acq rel ss (p', r # held))"
| "ring_run acq rel (Release r # ss) (p, held) =
     bindR (rel p r) (\<lambda>p'. ring_run acq rel ss (p', remove1 r held))"

fun queue_run :: "nat \<Rightarrow> ring_step list \<Rightarrow> ptr list \<times> ptr list \<Rightarrow> (ptr list \<times> ptr list) option" where
  "queue_run c [] s = Some s"
| "queue_run c (Acquire # ss) (q, held) =
     (if 1 < length q then queue_run c ss (tl q, hd q # held) else None)"
| "queue_run c (Release r # ss) (q, held) =
     (if r \<in> set held \<and> length q < c then queue_run c ss (q @ [r], remove1 r held) else None)"

text \<open>No object is lost and none is duplicated, whatever the schedule.\<close>

lemma queue_run_conserves:
  "queue_run c ss (q, held) = Some (q', held') \<Longrightarrow> mset q' + mset held' = mset q + mset held"
proof (induction c ss "(q, held)" arbitrary: q held rule: queue_run.induct)
  case (2 c ss q held)
  then show ?case
    by (cases q) (auto split: if_splits)
next
  case (3 c r ss q held)
  then show ?case
    by (auto split: if_splits simp: insert_DiffM)
qed simp

lemma queue_run_distinct:
  assumes "queue_run c ss (q, held) = Some (q', held')" and "distinct (q @ held)"
  shows "distinct (q' @ held')"
proof -
  have "mset (q' @ held') = mset (q @ held)"
    using queue_run_conserves [OF assms(1)] by simp
  then show ?thesis
    using assms(2) by (metis mset_eq_imp_distinct_iff)
qed

locale slot_ring =
  fixes inv :: "'p \<Rightarrow> bool"
    and items :: "'p \<Rightarrow> ptr list"
    and cap :: "'p \<Rightarrow> nat"
    and acq :: "'p \<Rightarrow> (ptr \<times> 'p) result"
    and rel :: "'p \<Rightarrow> ptr \<Rightarrow> 'p result"
  assumes items_bounds: "inv p \<Longrightarrow> 1 \<le> length (items p) \<and> length (items p) \<le> cap p"
    and items_nonnull: "inv p \<Longrightarrow> NULL \<notin> set (items p)"
    and acq_ok: "inv p \<Longrightarrow> 1 < length (items p) \<Longrightarrow>
      \<exists>p'. acq p = Inr (hd (items p), p') \<and> inv p' \<and> items p' = tl (items p) \<and> cap p' = cap p"
    and rel_ok: "inv p \<Longrightarrow> length (items p) < cap p \<Longrightarrow> r \<noteq> NULL \<Longrightarrow>
      \<exists>p'. rel p r = Inr p' \<and> inv p' \<and> items p' = items p @ [r] \<and> cap p' = cap p"
begin

text \<open>Every schedule of the abstract queue is one of the implementation.\<close>

lemma ring_run_refines:
  assumes "queue_run (cap p) ss (items p, held) = Some (q', held')"
    and "inv p" and "NULL \<notin> set held"
  shows "\<exists>p'. ring_run acq rel ss (p, held) = Inr (p', held') \<and> inv p' \<and>
    items p' = q' \<and> cap p' = cap p"
  using assms
proof (induction ss arbitrary: p held)
  case Nil
  then show ?case by auto
next
  case (Cons s ss)
  show ?case
  proof (cases s)
    case Acquire
    with Cons.prems have len: "1 < length (items p)"
      and run: "queue_run (cap p) ss (tl (items p), hd (items p) # held) = Some (q', held')"
      by (auto split: if_splits)
    obtain p' where p': "acq p = Inr (hd (items p), p')" "inv p'" "items p' = tl (items p)"
      "cap p' = cap p"
      using acq_ok [OF Cons.prems(2) len] by blast
    have "hd (items p) \<noteq> NULL"
      using items_nonnull [OF Cons.prems(2)] len by (cases "items p") auto
    then show ?thesis
      using Cons.IH [of p' "hd (items p) # held"] run p' Cons.prems(3) Acquire by auto
  next
    case (Release r)
    with Cons.prems have len: "length (items p) < cap p" and held: "r \<in> set held"
      and run: "queue_run (cap p) ss (items p @ [r], remove1 r held) = Some (q', held')"
      by (auto split: if_splits)
    then have "r \<noteq> NULL"
      using Cons.prems(3) by auto
    then obtain p' where p': "rel p r = Inr p'" "inv p'" "items p' = items p @ [r]"
      "cap p' = cap p"
      using rel_ok [OF Cons.prems(2) len] by blast
    moreover have "NULL \<notin> set (remove1 r held)"
      using Cons.prems(3) set_remove1_subset [of r held] by blast
    ultimately show ?thesis
      using Cons.IH [of p' "remove1 r held"] run Release by auto
  qed
qed

text \<open>
  No object is lost, and none is handed to two holders, along any such schedule.
\<close>

lemma ring_run_exclusive:
  assumes "queue_run (cap p) ss (items p, []) = Some (q', held')"
    and "inv p" and "distinct (items p)"
  shows "\<exists>p'. ring_run acq rel ss (p, []) = Inr (p', held') \<and>
    distinct (items p' @ held') \<and> mset (items p' @ held') = mset (items p)"
  using ring_run_refines [of p ss "[]"] queue_run_distinct [OF assms(1)]
    queue_run_conserves [OF assms(1)] assms by auto

end

end
