(* ===== verification/Batch_Pool.thy ===== *)
theory Batch_Pool
  imports Conf Ring
begin

text \<open>
  The pool of batch requests of \<open>src/rdma_library.c\<close> (lines 41 to 170) and the
  two structures of \<open>src/rdma_library.h\<close> it works on. A batch request follows one
  block request through the asynchronous modes; the pool hands them out and
  takes them back through a circular array under a spin lock, and a debug table
  records the block requests in flight.

  The lemmas show that a fresh pool is well formed, that every operation keeps it
  so, that the two ring operations implement the bounded queue of \<open>slot_ring\<close>,
  what each error path leaves behind, and that the debug table is a set.
\<close>

section \<open>Data\<close>

record batch_request =
  br_id :: int
  br_req :: ptr
  br_nsec :: int
  br_outstanding_reqs :: int
  br_next :: ptr
  br_all_request_sent :: bool
  br_comp_reqs :: int
  br_start_time :: u64
  br_first :: bool

text \<open>
  The pool's own arrays are lists; \<open>pool_at\<close>, \<open>io_req_at\<close>, \<open>all_at\<close> and \<open>data_at\<close>
  are the addresses the allocator gave for the pool and its arrays, and
  \<open>pool_heap\<close> is the storage behind the batch request pointers.
\<close>

record batch_request_pool =
  io_req :: "ptr list"
  all_reqs :: "ptr list"
  pool_data :: "ptr list"
  pool_size :: int
  pool_head :: int
  pool_tail :: int
  pool_lock :: bool
  latency_dist :: "int list"
  pool_at :: ptr
  io_req_at :: ptr
  all_at :: ptr
  data_at :: ptr
  pool_heap :: "ptr \<rightharpoonup> batch_request"

abbreviation IO_REQ_SIZE :: nat where
  "IO_REQ_SIZE \<equiv> 1024"

section \<open>Creation and destruction\<close>

text \<open>
  The allocator \<open>vmalloc\<close> is a parameter: \<open>vm k\<close> is the address its \<open>k\<close>-th call of
  this function returns, \<open>NULL\<close> when it fails, and \<open>junk\<close> what fresh memory
  holds. The code checks none of these addresses; using \<open>NULL\<close> faults.
\<close>

fun alloc_batch_requests :: "(nat \<Rightarrow> ptr) \<Rightarrow> batch_request \<Rightarrow> nat \<Rightarrow> nat \<Rightarrow>
    ptr list \<Rightarrow> (ptr \<rightharpoonup> batch_request) \<Rightarrow> (ptr list \<times> (ptr \<rightharpoonup> batch_request)) result" where
  "alloc_batch_requests vm junk i 0 d hp = Inr (d, hp)"
| "alloc_batch_requests vm junk i (Suc k) d hp =
     (let p = vm (4 + i) in
      bindR (assertR (p \<noteq> NULL) Null_Deref) (\<lambda>_.
      alloc_batch_requests vm junk (Suc i) k (d @ [p]) (hp(p \<mapsto> junk\<lparr>br_id := int i\<rparr>))))"

definition get_batch_request_pool ::
    "conf \<Rightarrow> (nat \<Rightarrow> ptr) \<Rightarrow> batch_request \<Rightarrow> int \<Rightarrow> batch_request_pool result" where
  "get_batch_request_pool C vm junk sz =
     bindR (assertR (vm 0 \<noteq> NULL \<and> vm 3 \<noteq> NULL) Null_Deref) (\<lambda>_.
     bindR (assertR (0 < sz \<longrightarrow> vm 1 \<noteq> NULL \<and> vm 2 \<noteq> NULL) Null_Deref) (\<lambda>_.
     bindR (alloc_batch_requests vm junk 0 (nat sz) [] Map.empty) (\<lambda>(d, hp).
     Inr \<lparr> io_req = replicate IO_REQ_SIZE NULL, all_reqs = d, pool_data = d,
           pool_size = sz, pool_head = 0, pool_tail = sz - 1, pool_lock = False,
           latency_dist = replicate (LATENCY_BUCKET C) 0,
           pool_at = vm 0, io_req_at = vm 3, all_at = vm 2, data_at = vm 1,
           pool_heap = hp \<rparr>)))"

text \<open>
  Destruction frees the requests that are in the pool, the two arrays and the
  pool itself: the list of addresses given to \<open>vfree\<close>, in order.
\<close>

definition destroy_batch_request_pool :: "batch_request_pool \<Rightarrow> ptr list" where
  "destroy_batch_request_pool p =
     filter (\<lambda>r. r \<noteq> NULL) (take (nat (pool_size p)) (pool_data p)) @
     [data_at p, io_req_at p, pool_at p]"

section \<open>Handing out and taking back\<close>

text \<open>\<open>now\<close> is what \<open>get_cycle()\<close> reads.\<close>

definition get_batch_request ::
    "conf \<Rightarrow> u64 \<Rightarrow> batch_request_pool \<Rightarrow> (ptr \<times> batch_request_pool) result" where
  "get_batch_request C now p =
     bindR (spin_lock (pool_lock p)) (\<lambda>l.
     if pool_head p = pool_tail p
     then Inr (NULL, p\<lparr>pool_lock := spin_unlock l\<rparr>)
     else
       bindR (arr_get (pool_data p) (pool_head p)) (\<lambda>ret.
       bindR (assertR (ret \<noteq> NULL) Bug) (\<lambda>_.
       bindR (arr_set (pool_data p) (pool_head p) NULL) (\<lambda>d.
       bindR (c_mod (pool_head p + 1) (pool_size p)) (\<lambda>h.
       bindR (if MEASURE_LATENCY C
              then bindR (deref (pool_heap p) ret)
                     (\<lambda>b. Inr ((pool_heap p)(ret \<mapsto> b\<lparr>br_start_time := now\<rparr>)))
              else Inr (pool_heap p)) (\<lambda>hp.
       Inr (ret, p\<lparr>pool_data := d, pool_head := h, pool_heap := hp,
                   pool_lock := spin_unlock l\<rparr>)))))))"

text \<open>
  The latency histogram: cycles times 1000 over \<open>cpu_khz\<close> in 64 bits, cut down
  to an \<open>int\<close> (the low 32 bits, signed), the last bucket for anything above.
\<close>

definition latency_bucket :: "u64 \<Rightarrow> u64 \<Rightarrow> u32 \<Rightarrow> int result" where
  "latency_bucket now start khz =
     (if khz = 0 then Inl Div_By_Zero
      else Inr (sint (ucast (((now - start) * 1000) div ucast khz) :: u32)))"

definition count_latency :: "conf \<Rightarrow> int \<Rightarrow> int list \<Rightarrow> int list result" where
  "count_latency C bucket dist =
     (let i = (if bucket \<ge> int (LATENCY_BUCKET C) then int (LATENCY_BUCKET C) - 1 else bucket) in
      bindR (arr_get dist i) (\<lambda>n. arr_set dist i (n + 1)))"

definition return_batch_request ::
    "conf \<Rightarrow> u64 \<Rightarrow> u32 \<Rightarrow> batch_request_pool \<Rightarrow> ptr \<Rightarrow> batch_request_pool result" where
  "return_batch_request C now khz p req =
     bindR (assertR (req \<noteq> NULL) Bug) (\<lambda>_.
     bindR (spin_lock (pool_lock p)) (\<lambda>l.
     bindR (if MEASURE_LATENCY C
            then bindR (deref (pool_heap p) req) (\<lambda>b.
                 if br_first b
                 then bindR (latency_bucket now (br_start_time b) khz)
                        (\<lambda>bucket. count_latency C bucket (latency_dist p))
                 else Inr (latency_dist p))
            else Inr (latency_dist p)) (\<lambda>dist.
     bindR (c_mod (pool_tail p + 1) (pool_size p)) (\<lambda>new_tail.
     let p = p\<lparr>pool_lock := l, latency_dist := dist\<rparr> in
     if new_tail = pool_head p then Inr p
     else bindR (arr_get (pool_data p) new_tail) (\<lambda>x.
       if x \<noteq> NULL then Inr p
       else bindR (arr_set (pool_data p) new_tail req) (\<lambda>d.
         Inr (p\<lparr>pool_data := d, pool_tail := new_tail, pool_lock := spin_unlock l\<rparr>)))))))"

section \<open>The debug table of block requests\<close>

fun debug_scan :: "ptr \<Rightarrow> ptr list \<Rightarrow> nat \<Rightarrow> nat option result" where
  "debug_scan req [] i = Inr None"
| "debug_scan req (x # xs) i =
     (if x = req then Inl Bug else if x = NULL then Inr (Some i) else debug_scan req xs (Suc i))"

definition debug_pool_insert :: "batch_request_pool \<Rightarrow> ptr \<Rightarrow> batch_request_pool result" where
  "debug_pool_insert p req =
     bindR (spin_lock (pool_lock p)) (\<lambda>l.
     bindR (debug_scan req (take 1024 (io_req p)) 0) (\<lambda>free.
     case free of None \<Rightarrow> Inl Bug
     | Some i \<Rightarrow>
       bindR (arr_set (io_req p) (int i) req) (\<lambda>io.
       Inr (p\<lparr>io_req := io, pool_lock := spin_unlock l\<rparr>))))"

fun find_slot :: "ptr \<Rightarrow> ptr list \<Rightarrow> nat \<Rightarrow> nat option" where
  "find_slot req [] i = None"
| "find_slot req (x # xs) i = (if x = req then Some i else find_slot req xs (Suc i))"

definition debug_pool_remove :: "batch_request_pool \<Rightarrow> ptr \<Rightarrow> batch_request_pool result" where
  "debug_pool_remove p req =
     bindR (spin_lock (pool_lock p)) (\<lambda>l.
     case find_slot req (take 1024 (io_req p)) 0 of None \<Rightarrow> Inl Bug
     | Some i \<Rightarrow>
       bindR (arr_set (io_req p) (int i) NULL) (\<lambda>io.
       Inr (p\<lparr>io_req := io, pool_lock := spin_unlock l\<rparr>)))"

section \<open>Well-formedness and abstraction\<close>

definition pool_items :: "batch_request_pool \<Rightarrow> ptr list" where
  "pool_items p = ring_items (pool_data p) (nat (pool_head p)) (nat (pool_tail p))"

definition pool_cap :: "batch_request_pool \<Rightarrow> nat" where
  "pool_cap p = length (pool_data p)"

definition pool_inv :: "batch_request_pool \<Rightarrow> bool" where
  "pool_inv p \<longleftrightarrow> \<not> pool_lock p \<and> pool_size p = int (length (pool_data p)) \<and>
     0 \<le> pool_head p \<and> 0 \<le> pool_tail p \<and>
     ring_ok (pool_data p) (nat (pool_head p)) (nat (pool_tail p))"

section \<open>Creation\<close>

lemma alloc_batch_requests_ok:
  assumes "\<And>j. j < k \<Longrightarrow> vm (4 + (i + j)) \<noteq> NULL"
  shows "\<exists>hp'. alloc_batch_requests vm junk i k d hp =
      Inr (d @ map (\<lambda>j. vm (4 + (i + j))) [0..<k], hp') \<and>
    dom hp' = dom hp \<union> (\<lambda>j. vm (4 + (i + j))) ` {0..<k}"
  using assms
proof (induction k arbitrary: i d hp)
  case 0
  then show ?case by simp
next
  case (Suc k)
  have "vm (4 + i) \<noteq> NULL"
    using Suc.prems [of 0] by simp
  moreover have "vm (4 + (Suc i + j)) \<noteq> NULL" if "j < k" for j
    using Suc.prems [of "Suc j"] that by simp
  note Suc.IH [of "Suc i" "d @ [vm (4 + i)]" "hp(vm (4 + i) \<mapsto> junk\<lparr>br_id := int i\<rparr>)", OF this]
  moreover have "map (\<lambda>j. vm (4 + (i + j))) [0..<Suc k] =
      vm (4 + i) # map (\<lambda>j. vm (4 + (Suc i + j))) [0..<k]"
    by (simp add: map_upt_Suc del: upt_Suc)
  moreover have "(\<lambda>j. vm (4 + (i + j))) ` {0..<Suc k} =
      insert (vm (4 + i)) ((\<lambda>j. vm (4 + (Suc i + j))) ` {0..<k})"
    unfolding atLeast0_lessThan_Suc_eq_insert_0 image_insert image_image by simp
  ultimately show ?case
    by (auto simp: Let_def simp del: fun_upd_apply)
qed

lemma get_batch_request_pool_ok:
  assumes n: "0 < n" and vm: "\<And>k. k < 4 + n \<Longrightarrow> vm k \<noteq> NULL"
  shows "\<exists>p. get_batch_request_pool C vm junk (int n) = Inr p \<and> pool_inv p \<and>
    pool_items p = map (\<lambda>i. vm (4 + i)) [0..<n] \<and> pool_cap p = n \<and>
    dom (pool_heap p) = (\<lambda>i. vm (4 + i)) ` {0..<n} \<and> io_req p = replicate IO_REQ_SIZE NULL"
proof -
  let ?d = "map (\<lambda>i. vm (4 + i)) [0..<n]"
  obtain hp where "alloc_batch_requests vm junk 0 n [] Map.empty = Inr (?d, hp)"
    and "dom hp = (\<lambda>i. vm (4 + i)) ` {0..<n}"
    using alloc_batch_requests_ok [of n vm 0 junk "[]" Map.empty] vm by auto
  moreover have "?d \<noteq> []" "NULL \<notin> set ?d" "nat (int n - 1) = length ?d - 1"
    using n vm by auto
  ultimately show ?thesis
    using n vm ring_ok_full [of ?d] ring_items_full [of ?d]
    by (auto simp: get_batch_request_pool_def pool_inv_def pool_items_def pool_cap_def)
qed

section \<open>The ring operations\<close>

lemma pool_invE:
  assumes "pool_inv p"
  obtains h t where "pool_head p = int h" "pool_tail p = int t" "ring_ok (pool_data p) h t"
    "pool_size p = int (length (pool_data p))" "\<not> pool_lock p"
  using assms that [of "nat (pool_head p)" "nat (pool_tail p)"] by (simp add: pool_inv_def)

lemma pool_invI:
  assumes "pool_head p = int h" "pool_tail p = int t" "ring_ok (pool_data p) h t"
    "pool_size p = int (length (pool_data p))" "\<not> pool_lock p"
  shows "pool_inv p"
  using assms by (simp add: pool_inv_def)

lemma pool_items_nat:
  "pool_head p = int h \<Longrightarrow> pool_tail p = int t \<Longrightarrow> pool_items p = ring_items (pool_data p) h t"
  by (simp add: pool_items_def)

text \<open>
  A successful \<open>get_batch_request\<close>. With latencies on, it stamps the start time,
  so the request's storage must be there.
\<close>

lemma get_batch_request_some:
  assumes inv: "pool_inv p" and ne: "pool_head p \<noteq> pool_tail p"
    and lat: "MEASURE_LATENCY C \<longrightarrow> pool_heap p (hd (pool_items p)) \<noteq> None"
  shows "\<exists>p'. get_batch_request C now p = Inr (hd (pool_items p), p') \<and> pool_inv p' \<and>
    pool_items p' = tl (pool_items p) \<and> pool_cap p' = pool_cap p \<and>
    all_reqs p' = all_reqs p \<and> io_req p' = io_req p \<and> dom (pool_heap p') = dom (pool_heap p)"
proof -
  from inv obtain h t where ht: "pool_head p = int h" "pool_tail p = int t"
      and ok: "ring_ok (pool_data p) h t" and sz: "pool_size p = int (length (pool_data p))"
      and lk: "\<not> pool_lock p"
    by (rule pool_invE)
  have hd: "hd (pool_items p) = pool_data p ! h"
    using ring_items_Cons [OF ok] ht by (metis list.sel(1) pool_items_nat)
  note facts = ring_ok_bounds [OF ok] ring_head_nonnull [OF ok] ht sz lk hd ne
    ring_ok_take [OF ok] ring_items_take [OF ok]
  show ?thesis
  proof (cases "MEASURE_LATENCY C")
    case True
    with lat hd obtain b where "pool_heap p (pool_data p ! h) = Some b" by auto
    then show ?thesis
      using facts True
      by (auto simp: get_batch_request_def pool_inv_def pool_items_def pool_cap_def)
  next
    case False
    then show ?thesis
      using facts by (auto simp: get_batch_request_def pool_inv_def pool_items_def pool_cap_def)
  qed
qed

text \<open>With one request left the pool hands out \<open>NULL\<close> and stays as it is.\<close>

lemma get_batch_request_none:
  assumes "pool_inv p" and "pool_head p = pool_tail p"
  shows "get_batch_request C now p = Inr (NULL, p)"
  using assms by (simp add: get_batch_request_def pool_inv_def)

lemma pool_head_tail_iff:
  assumes "pool_inv p"
  shows "pool_head p = pool_tail p \<longleftrightarrow> length (pool_items p) = 1"
proof -
  from assms obtain h t where ht: "pool_head p = int h" "pool_tail p = int t"
      and ok: "ring_ok (pool_data p) h t"
    by (rule pool_invE)
  then show ?thesis
    using ring_ok_bounds [OF ok] by (simp add: pool_items_nat ring_count_one_iff)
qed

lemma pool_items_bounds:
  "pool_inv p \<Longrightarrow> 1 \<le> length (pool_items p) \<and> length (pool_items p) \<le> pool_cap p"
  by (auto simp: pool_inv_def pool_items_def pool_cap_def ring_ok_def
      dest: ring_count_bounds [of _ "length (pool_data p)"])

lemma pool_items_nonnull: "pool_inv p \<Longrightarrow> NULL \<notin> set (pool_items p)"
  by (auto simp: pool_inv_def pool_items_def dest: ring_items_nonnull)

lemma return_batch_request_ok:
  assumes inv: "pool_inv p" and len: "length (pool_items p) < pool_cap p" and r: "r \<noteq> NULL"
    and lat: "\<not> MEASURE_LATENCY C"
  shows "\<exists>p'. return_batch_request C now khz p r = Inr p' \<and> pool_inv p' \<and>
    pool_items p' = pool_items p @ [r] \<and> pool_cap p' = pool_cap p \<and>
    pool_heap p' = pool_heap p \<and> all_reqs p' = all_reqs p \<and> io_req p' = io_req p"
proof -
  from inv obtain h t where ht: "pool_head p = int h" "pool_tail p = int t"
      and ok: "ring_ok (pool_data p) h t" and sz: "pool_size p = int (length (pool_data p))"
      and lk: "\<not> pool_lock p"
    by (rule pool_invE)
  note bd = ring_ok_bounds [OF ok]
  have ne: "Suc t mod length (pool_data p) \<noteq> h"
    using ring_count_full_iff [OF bd(1,2)] len ht by (simp add: pool_items_nat pool_cap_def)
  show ?thesis
    using bd ht sz lk r lat ring_give_slot_free [OF ok ne] ring_ok_give [OF ok ne r]
      ring_items_give [OF ok ne] ne
    by (auto simp: return_batch_request_def pool_inv_def pool_items_def pool_cap_def Let_def)
qed

lemma return_batch_request_full:
  assumes inv: "pool_inv p" and len: "length (pool_items p) = pool_cap p" and r: "r \<noteq> NULL"
    and lat: "\<not> MEASURE_LATENCY C"
  shows "return_batch_request C now khz p r = Inr (p\<lparr>pool_lock := True\<rparr>)"
proof -
  from inv obtain h t where ht: "pool_head p = int h" "pool_tail p = int t"
      and ok: "ring_ok (pool_data p) h t" and sz: "pool_size p = int (length (pool_data p))"
      and lk: "\<not> pool_lock p"
    by (rule pool_invE)
  then show ?thesis
    using ring_ok_bounds [OF ok] ring_count_full_iff len r lat
    by (simp add: pool_items_nat pool_cap_def return_batch_request_def Let_def)
qed

interpretation bp: slot_ring pool_inv pool_items pool_cap
  "get_batch_request (C\<lparr>MEASURE_LATENCY := False\<rparr>) now"
  "return_batch_request (C\<lparr>MEASURE_LATENCY := False\<rparr>) now khz"
  for C now khz
proof (unfold_locales, goal_cases)
  case (1 p)
  then show ?case by (rule pool_items_bounds)
next
  case (2 p)
  then show ?case by (rule pool_items_nonnull)
next
  case (3 p)
  then show ?case
    using get_batch_request_some [of p "C\<lparr>MEASURE_LATENCY := False\<rparr>" now] pool_head_tail_iff [of p]
    by auto
next
  case (4 p r)
  then show ?case
    using return_batch_request_ok [of p r "C\<lparr>MEASURE_LATENCY := False\<rparr>" now khz] by auto
qed

lemma conf_no_latency: "\<not> MEASURE_LATENCY C \<Longrightarrow> C\<lparr>MEASURE_LATENCY := False\<rparr> = C"
  by simp

section \<open>The debug table\<close>

lemma debug_scan_free:
  assumes "req \<noteq> NULL" and "req \<notin> set xs" and "NULL \<in> set xs"
  shows "\<exists>j. debug_scan req xs i = Inr (Some (i + j)) \<and> j < length xs \<and> xs ! j = NULL"
  using assms
proof (induction xs arbitrary: i)
  case (Cons x xs)
  show ?case
  proof (cases "x = NULL")
    case True
    with Cons.prems show ?thesis by (intro exI [of _ 0]) simp
  next
    case False
    with Cons obtain j where "debug_scan req xs (Suc i) = Inr (Some (Suc i + j))"
        "j < length xs" "xs ! j = NULL"
      by fastforce
    with False Cons.prems show ?thesis by (intro exI [of _ "Suc j"]) auto
  qed
qed simp

lemma find_slot_update:
  assumes "j < length xs" and "req \<notin> set xs"
  shows "find_slot req (xs[j := req]) i = Some (i + j)"
  using assms
proof (induction xs arbitrary: i j)
  case (Cons x xs)
  then show ?case by (cases j) auto
qed simp

section \<open>Properties\<close>

text \<open>
  C10. A pool made for \<open>n\<close> batch requests implements a bounded queue: along every
  schedule of gets and returns that the queue allows (one request always stays,
  only held requests come back) each call succeeds, the pool's contents and the
  held requests are those of the queue, no request is lost, and no request is
  handed to two holders.
\<close>
theorem batch_pool_exclusive:
  assumes n: "0 < n" and vm: "\<And>k. k < 4 + n \<Longrightarrow> vm k \<noteq> NULL" and inj: "inj_on vm {4..<4 + n}"
    and C: "\<not> MEASURE_LATENCY C"
    and sched: "queue_run n ss (map (\<lambda>i. vm (4 + i)) [0..<n], []) = Some (q, held)"
  shows "\<exists>p p'. get_batch_request_pool C vm junk (int n) = Inr p \<and>
    ring_run (get_batch_request C now) (return_batch_request C now khz) ss (p, []) = Inr (p', held) \<and>
    pool_items p' = q \<and> distinct (q @ held) \<and>
    mset (q @ held) = mset (map (\<lambda>i. vm (4 + i)) [0..<n])"
proof -
  obtain p where p: "get_batch_request_pool C vm junk (int n) = Inr p" "pool_inv p"
      "pool_items p = map (\<lambda>i. vm (4 + i)) [0..<n]" "pool_cap p = n"
    using get_batch_request_pool_ok [of n vm C junk, OF n vm] by blast
  have d: "distinct (pool_items p)"
    using inj_onD [OF inj, of "4 + _" "4 + _"] p(3) by (auto simp: distinct_map intro!: inj_onI)
  have run: "queue_run (pool_cap p) ss (pool_items p, []) = Some (q, held)"
    using sched p by simp
  have "\<exists>p'. ring_run (get_batch_request C now) (return_batch_request C now khz) ss (p, []) =
      Inr (p', held) \<and> pool_items p' = q"
    using bp.ring_run_refines [OF run p(2), of C now khz] conf_no_latency [OF C] by auto
  then show ?thesis
    using p d queue_run_distinct [OF run] queue_run_conserves [OF run] by auto
qed

theorem batch_pool_exclusive_witness:
  "\<forall>junk. \<exists>p p'. get_batch_request_pool conf_h (\<lambda>k. word_of_nat (Suc k)) junk (int 3) = Inr p \<and>
    ring_run (get_batch_request conf_h 0) (return_batch_request conf_h 0 1)
      [Acquire, Acquire, Release 5, Acquire] (p, []) = Inr (p', [7, 6]) \<and>
    pool_items p' = [5] \<and> distinct ([5] @ [7, 6 :: ptr])"
proof
  fix junk
  have nz: "(word_of_nat (Suc k) :: ptr) \<noteq> NULL" if "k < 4 + 3" for k
    using that by (auto simp: word_of_nat_eq_0_iff simp del: of_nat_Suc dest: dvd_imp_le)
  have inj: "inj_on (\<lambda>k. word_of_nat (Suc k) :: ptr) {4..<4 + 3}"
  proof -
    have "{4..<4 + 3} = {4, 5, 6 :: nat}" by auto
    then show ?thesis by simp
  qed
  show "\<exists>p p'. get_batch_request_pool conf_h (\<lambda>k. word_of_nat (Suc k)) junk (int 3) = Inr p \<and>
    ring_run (get_batch_request conf_h 0) (return_batch_request conf_h 0 1)
      [Acquire, Acquire, Release 5, Acquire] (p, []) = Inr (p', [7, 6]) \<and>
    pool_items p' = [5] \<and> distinct ([5] @ [7, 6 :: ptr])"
    using batch_pool_exclusive [of 3 "\<lambda>k. word_of_nat (Suc k)" conf_h
        "[Acquire, Acquire, Release 5, Acquire]" "[5]" "[7, 6]" junk 0 1] nz inj
    by (simp add: upt_rec)
qed

text \<open>
  C34. Both error paths of \<open>return_batch_request\<close> return from inside its critical section:
  when the next slot is the head, as in a full pool, and when it is occupied. The pool is
  unchanged but for the lock, which stays taken, so the next \<open>get_batch_request\<close> or
  \<open>return_batch_request\<close> never gets it. Otherwise the request is stored and the lock
  released. Nothing is assumed of the pool but the sizes of its array and indices.
\<close>
theorem return_batch_request_leaks_lock:
  assumes "pool_size p = int (length (pool_data p))" and "pool_data p \<noteq> []" and "0 \<le> pool_tail p" and "\<not> pool_lock p"
    and "r \<noteq> NULL" and "\<not> MEASURE_LATENCY C" and "nt = (pool_tail p + 1) mod pool_size p"
  shows "if nt = pool_head p \<or> pool_data p ! nat nt \<noteq> NULL
    then \<exists>p'. return_batch_request C now khz p r = Inr p' \<and> p' = p\<lparr>pool_lock := True\<rparr> \<and>
      get_batch_request C now' p' = Inl Deadlock \<and>
      (\<forall>r'. r' \<noteq> NULL \<longrightarrow> return_batch_request C now' khz p' r' = Inl Deadlock)
    else return_batch_request C now khz p r = Inr (p\<lparr>pool_data := (pool_data p)[nat nt := r], pool_tail := nt\<rparr>)"
proof -
  have nt: "0 \<le> nt" "nt < int (length (pool_data p))" "c_mod (pool_tail p + 1) (pool_size p) = Inr nt"
    using assms(1-3,7) by (simp_all add: c_mod_def)
  show ?thesis
    using assms(4-6) nt
    by (auto simp: return_batch_request_def get_batch_request_def arr_get_def arr_set_def Let_def)
qed

theorem return_batch_request_leaks_lock_witness:
  "\<forall>junk. \<exists>p p' p''. get_batch_request_pool conf_h (\<lambda>k. 9) junk 2 = Inr p \<and>
     return_batch_request conf_h 0 1 p 9 = Inr p' \<and> get_batch_request conf_h 0 p' = Inl Deadlock \<and>
     return_batch_request conf_h 0 1 (p\<lparr>pool_head := 1\<rparr>) 9 = Inr p'' \<and> get_batch_request conf_h 0 p'' = Inl Deadlock"
proof
  fix junk
  obtain hp where hp: "alloc_batch_requests (\<lambda>k. 9) junk 0 2 [] Map.empty = Inr ([9, 9], hp)"
    using alloc_batch_requests_ok [of 2 "\<lambda>k. 9" 0 junk "[]" Map.empty] by (auto simp: upt_rec)
  then obtain p where p: "get_batch_request_pool conf_h (\<lambda>k. 9) junk 2 = Inr p"
    by (simp add: get_batch_request_pool_def)
  with hp have f: "pool_size p = 2" "pool_head p = 0" "pool_tail p = 1" "pool_data p = [9, 9]" "\<not> pool_lock p"
    by (auto simp: get_batch_request_pool_def)
  from f have "\<exists>p'. return_batch_request conf_h 0 1 p 9 = Inr p' \<and> get_batch_request conf_h 0 p' = Inl Deadlock"
    using return_batch_request_leaks_lock [of p 9 conf_h 0 0 1 0] by auto
  moreover from f have "\<exists>p'. return_batch_request conf_h 0 1 (p\<lparr>pool_head := 1\<rparr>) 9 = Inr p' \<and> get_batch_request conf_h 0 p' = Inl Deadlock"
    using return_batch_request_leaks_lock [of "p\<lparr>pool_head := 1\<rparr>" 9 conf_h 0 0 1 0] by auto
  ultimately show "\<exists>p p' p''. get_batch_request_pool conf_h (\<lambda>k. 9) junk 2 = Inr p \<and>
     return_batch_request conf_h 0 1 p 9 = Inr p' \<and> get_batch_request conf_h 0 p' = Inl Deadlock \<and>
     return_batch_request conf_h 0 1 (p\<lparr>pool_head := 1\<rparr>) 9 = Inr p'' \<and> get_batch_request conf_h 0 p'' = Inl Deadlock"
    using p by blast
qed

text \<open>
  C29. With more than one free request \<open>get_batch_request\<close> hands out the oldest one
  and keeps the pool well formed, in every configuration; with one left it hands
  out \<open>NULL\<close> and changes nothing. It never hits its \<open>BUG_ON\<close> and always releases
  the lock.
\<close>
theorem get_batch_request_total:
  assumes "pool_inv p" and "set (pool_items p) \<subseteq> dom (pool_heap p)"
  shows "(length (pool_items p) = 1 \<and> get_batch_request C now p = Inr (NULL, p)) \<or>
    (\<exists>r p'. get_batch_request C now p = Inr (r, p') \<and> pool_inv p' \<and> r \<noteq> NULL \<and>
       pool_items p = r # pool_items p' \<and> dom (pool_heap p') = dom (pool_heap p))"
proof (cases "pool_head p = pool_tail p")
  case True
  then show ?thesis
    using get_batch_request_none assms(1) pool_head_tail_iff by blast
next
  case False
  have ne: "pool_items p \<noteq> []"
    using pool_items_bounds [OF assms(1)] by auto
  then have "hd (pool_items p) \<in> set (pool_items p)"
    by simp
  then have "pool_heap p (hd (pool_items p)) \<noteq> None" "hd (pool_items p) \<noteq> NULL"
    using assms(2) pool_items_nonnull [OF assms(1)] by auto
  then show ?thesis
    using get_batch_request_some [OF assms(1) False] ne by (metis list.collapse)
qed

theorem get_batch_request_total_witness:
  "\<forall>junk. \<exists>p. get_batch_request_pool conf_h (\<lambda>k. 9) junk 2 = Inr p \<and>
     ((length (pool_items p) = 1 \<and> get_batch_request conf_h 0 p = Inr (NULL, p)) \<or>
      (\<exists>r p'. get_batch_request conf_h 0 p = Inr (r, p') \<and> pool_inv p' \<and> r \<noteq> NULL \<and>
         pool_items p = r # pool_items p' \<and> dom (pool_heap p') = dom (pool_heap p)))"
proof
  fix junk
  obtain p where p: "get_batch_request_pool conf_h (\<lambda>k. 9) junk (int 2) = Inr p" "pool_inv p"
      "pool_items p = map (\<lambda>i. 9) [0..<2]" "dom (pool_heap p) = (\<lambda>i. 9) ` {0..<2::nat}"
    using get_batch_request_pool_ok [of 2 "\<lambda>k. 9" conf_h junk] by auto
  then show "\<exists>p. get_batch_request_pool conf_h (\<lambda>k. 9) junk 2 = Inr p \<and>
     ((length (pool_items p) = 1 \<and> get_batch_request conf_h 0 p = Inr (NULL, p)) \<or>
      (\<exists>r p'. get_batch_request conf_h 0 p = Inr (r, p') \<and> pool_inv p' \<and> r \<noteq> NULL \<and>
         pool_items p = r # pool_items p' \<and> dom (pool_heap p') = dom (pool_heap p)))"
    using get_batch_request_total [of p conf_h 0] by auto
qed

text \<open>
  C28. Removing a block request from the debug table undoes its insertion: for a
  request that the table does not hold, with a slot free, the insertion puts it
  into a free slot, keeps every other entry, and the removal gives back the pool
  as it was.
\<close>
theorem debug_table_roundtrip:
  assumes "\<not> pool_lock p" and "length (io_req p) = 1024" and "req \<noteq> NULL"
    and "req \<notin> set (io_req p)" and "NULL \<in> set (io_req p)"
  shows "\<exists>p' i. debug_pool_insert p req = Inr p' \<and> i < 1024 \<and> io_req p ! i = NULL \<and>
    io_req p' = (io_req p)[i := req] \<and> debug_pool_remove p' req = Inr p"
proof -
  obtain i where i: "debug_scan req (io_req p) 0 = Inr (Some i)" "i < 1024" "io_req p ! i = NULL"
    using debug_scan_free [OF assms(3-5), of 0] assms(2) by auto
  have ins: "debug_pool_insert p req = Inr (p\<lparr>io_req := (io_req p)[i := req], pool_lock := False\<rparr>)"
    using i assms by (simp add: debug_pool_insert_def)
  have "find_slot req ((io_req p)[i := req]) 0 = Some i"
    using find_slot_update [of i "io_req p" req 0] i(2) assms(2,4) by simp
  then have "debug_pool_remove (p\<lparr>io_req := (io_req p)[i := req], pool_lock := False\<rparr>) req =
      Inr (p\<lparr>io_req := (io_req p)[i := NULL], pool_lock := False\<rparr>)"
    using assms(2) i(2) by (simp add: debug_pool_remove_def)
  also have "(io_req p)[i := NULL] = io_req p"
    using i(3) by (metis list_update_id)
  also have "p\<lparr>io_req := io_req p, pool_lock := False\<rparr> = p"
    using assms(1) by simp
  finally show ?thesis
    using ins i by auto
qed

theorem debug_table_roundtrip_witness:
  "\<forall>junk. \<exists>p. get_batch_request_pool conf_h (\<lambda>k. 9) junk 2 = Inr p \<and>
     (\<exists>p' i. debug_pool_insert p 77 = Inr p' \<and> i < 1024 \<and> io_req p ! i = NULL \<and>
       io_req p' = (io_req p)[i := 77] \<and> debug_pool_remove p' 77 = Inr p)"
proof
  fix junk
  obtain p where p: "get_batch_request_pool conf_h (\<lambda>k. 9) junk (int 2) = Inr p" "pool_inv p"
      "io_req p = replicate 1024 NULL"
    using get_batch_request_pool_ok [of 2 "\<lambda>k. 9" conf_h junk] by auto
  then show "\<exists>p. get_batch_request_pool conf_h (\<lambda>k. 9) junk 2 = Inr p \<and>
     (\<exists>p' i. debug_pool_insert p 77 = Inr p' \<and> i < 1024 \<and> io_req p ! i = NULL \<and>
       io_req p' = (io_req p)[i := 77] \<and> debug_pool_remove p' 77 = Inr p)"
    using debug_table_roundtrip [of p 77] by (auto simp: pool_inv_def)
qed

lemma destroy_mset:
  assumes "pool_inv p"
  shows "mset (destroy_batch_request_pool p) =
    mset (pool_items p) + {#data_at p, io_req_at p, pool_at p#}"
proof -
  from assms obtain h t where ht: "pool_head p = int h" "pool_tail p = int t"
      and ok: "ring_ok (pool_data p) h t" and sz: "pool_size p = int (length (pool_data p))"
    by (rule pool_invE)
  then show ?thesis
    using ring_items_filter [OF ok] by (simp add: destroy_batch_request_pool_def pool_items_nat)
qed

text \<open>
  C30. Destroying a well-formed pool frees each request that is in it exactly once,
  then the \<open>data\<close> and \<open>io_req\<close> arrays and the pool, and nothing else: a request
  that is still held is not freed under its holder, and the \<open>all\<close> array is never
  freed.
\<close>
theorem destroy_frees_items:
  assumes "pool_inv p"
  shows "mset (destroy_batch_request_pool p) =
    mset (pool_items p) + {#data_at p, io_req_at p, pool_at p#}"
  using assms by (rule destroy_mset)

theorem destroy_frees_items_witness:
  "\<forall>junk. \<exists>p. get_batch_request_pool conf_h (\<lambda>k. 9) junk 2 = Inr p \<and>
     mset (destroy_batch_request_pool p) =
       mset (pool_items p) + {#data_at p, io_req_at p, pool_at p#}"
proof
  fix junk
  obtain p where "get_batch_request_pool conf_h (\<lambda>k. 9) junk (int 2) = Inr p" "pool_inv p"
    using get_batch_request_pool_ok [of 2 "\<lambda>k. 9" conf_h junk] by auto
  then show "\<exists>p. get_batch_request_pool conf_h (\<lambda>k. 9) junk 2 = Inr p \<and>
     mset (destroy_batch_request_pool p) =
       mset (pool_items p) + {#data_at p, io_req_at p, pool_at p#}"
    using destroy_frees_items by auto
qed

end
