(* ===== verification/Rdma_Types.thy ===== *)
theory Rdma_Types
  imports Batch_Pool
begin

text \<open>
  The structures of the RDMA layer: those of \<open>src/rdma_library.h\<close> (lines 14 to
  26 and 70 to 107), the fields of the InfiniBand verbs' structures that the
  code reads and writes, and the outside world as the code sees it.

  The verbs library, the network card and the block layer are not part of the
  repository. They enter as parameters: \<open>verbs\<close> bundles the functions the code
  calls, each free to depend on everything that happened before (the trace of
  events), and the answers of \<open>ib_poll_cq\<close> are a list that the polling loop
  consumes.
\<close>

section \<open>Requests\<close>

text \<open>
  \<open>RDMA_OP\<close> is an enumeration of two values stored in a word; \<open>RDMA_BAD\<close> is any
  other content of that word, which \<open>rdma_op\<close> checks for.
\<close>

datatype RDMA_OP = RDMA_READ | RDMA_WRITE | RDMA_BAD u32

record rdma_request =
  rr_rw :: RDMA_OP
  rr_dma_addr :: u64
  rr_remote_offset :: u64
  rr_length :: u32
  rr_batch_req :: ptr

section \<open>Work requests\<close>

datatype wr_opcode = IB_WR_RDMA_READ | IB_WR_RDMA_WRITE

record ib_sge =
  sge_addr :: u64
  sge_length :: u32
  sge_lkey :: u32

text \<open>
  \<open>next\<close> and \<open>sg_list\<close> point into the arrays \<open>wrs\<close> and \<open>sges\<close> that hold the
  requests; the model keeps the index, \<open>None\<close> for \<open>NULL\<close>.
\<close>

record ib_send_wr =
  wr_next :: "nat option"
  wr_id :: u64
  wr_sg_list :: "nat option"
  wr_num_sge :: int
  wr_op :: wr_opcode
  wr_signaled :: bool
  wr_remote_addr :: u64
  wr_rkey :: u32

definition zero_wr :: ib_send_wr where
  "zero_wr = \<lparr> wr_next = None, wr_id = 0, wr_sg_list = None, wr_num_sge = 0,
     wr_op = IB_WR_RDMA_WRITE, wr_signaled = False, wr_remote_addr = 0, wr_rkey = 0 \<rparr>"

definition zero_sge :: ib_sge where
  "zero_sge = \<lparr> sge_addr = 0, sge_length = 0, sge_lkey = 0 \<rparr>"

record ib_mr =
  mr_lkey :: u32
  mr_rkey :: u32

section \<open>The connection context\<close>

text \<open>
  The \<open>int\<close> fields of the handshake are kept as their 32-bit patterns. \<open>sock_live\<close> is not a
  field of the structure: it says whether the socket that \<open>ctx_sock\<close> points to exists.
\<close>

record rdma_ctx =
  ctx_sock :: ptr
  sock_live :: bool
  server_addr :: string
  server_port :: int
  send_cq :: ptr
  recv_cq :: ptr
  ctx_pd :: ptr
  ctx_qp :: ptr
  ctx_mr :: "ib_mr option"
  ctx_rkey :: u32
  ctx_lid :: u32
  ctx_qpn :: u32
  ctx_psn :: u32
  rdma_recv_buffer :: ptr
  ctx_dma_addr :: u64
  rem_mem_size :: u64
  rem_qpn :: u32
  rem_psn :: u32
  rem_lid :: u32
  rem_vaddr :: u64
  rem_rkey :: u32
  outstanding_requests :: u64
  ctx_pool :: "batch_request_pool option"

text \<open>\<open>memset(ctx, 0, sizeof(struct rdma_ctx))\<close>\<close>

definition zero_ctx :: rdma_ctx where
  "zero_ctx = \<lparr>ctx_sock = 0, sock_live = False, server_addr = [], server_port = 0, send_cq = 0, recv_cq = 0, ctx_pd = 0, ctx_qp = 0,
     ctx_mr = None, ctx_rkey = 0, ctx_lid = 0, ctx_qpn = 0, ctx_psn = 0, rdma_recv_buffer = 0, ctx_dma_addr = 0,
     rem_mem_size = 0, rem_qpn = 0, rem_psn = 0, rem_lid = 0, rem_vaddr = 0, rem_rkey = 0,
     outstanding_requests = 0, ctx_pool = None\<rparr>"

section \<open>Events and the outside world\<close>

text \<open>A work request as the network card reads it when it is posted.\<close>

record posted =
  p_op :: wr_opcode
  p_wr_id :: u64
  p_num_sge :: int
  p_addr :: u64
  p_length :: u32
  p_lkey :: u32
  p_signaled :: bool
  p_remote_addr :: u64
  p_rkey :: u32

datatype wc_status = IB_WC_SUCCESS | IB_WC_FAILURE int

record ib_wc =
  wc_wr_id :: u64
  wc_status :: wc_status

text \<open>What one call of \<open>ib_poll_cq\<close> gives: some completions, or an error code.\<close>

datatype poll = Completions "ib_wc list" | Poll_Error

text \<open>
  The calls by which the driver affects the world, in the order they happen:
  posting a chain of work requests with the verb's return code, a successful
  poll, the two ways of ending a block request, and the start of a new poll
  loop's answer.
\<close>

datatype io_event =
    Post "posted list" int
  | Polled "ib_wc list"
  | End_Request ptr int u32
  | End_Request_All ptr int

text \<open>
  The functions of the outside world. \<open>dma_map\<close> is \<open>ib_dma_map_single\<close> with its
  error check (\<open>None\<close> when \<open>ib_dma_mapping_error\<close> reports one), \<open>post_send\<close> the
  return code of \<open>ib_post_send\<close>, \<open>rdtsc\<close> the cycle counter, \<open>cpu_khz\<close> the kernel's
  clock rate; \<open>poll_wc\<close> and \<open>poll_i\<close> are what the uninitialised locals \<open>wc\<close> and
  \<open>i\<close> of \<open>poll_cq\<close> happen to hold.
\<close>

record verbs =
  dma_map :: "ptr \<Rightarrow> int \<Rightarrow> u64 option"
  post_send :: "io_event list \<Rightarrow> posted list \<Rightarrow> int"
  rdtsc :: "io_event list \<Rightarrow> u64"
  cpu_khz :: u32
  poll_wc :: "ib_wc list"
  poll_i :: int

end
