(* ===== verification/Work_Request.thy ===== *)
theory Work_Request
  imports Rdma_Types
begin

text \<open>
  Building, merging, posting and waiting for work requests: \<open>src/rdma_library.c\<close>,
  lines 514 to 531 (address mapping), 632 to 682 (\<open>poll_cq\<close>) and 806 to 908.
\<close>

section \<open>Mapping a buffer\<close>

definition rdma_map_address :: "verbs \<Rightarrow> ptr \<Rightarrow> u32 \<Rightarrow> u64" where
  "rdma_map_address V addr len =
     (case dma_map V addr (sint len) of None \<Rightarrow> 0 | Some dma_addr \<Rightarrow> dma_addr)"

section \<open>Building a work request\<close>

text \<open>
  The address of the \<open>ib_sge\<close> is the index \<open>k\<close>. \<open>wr_id\<close> carries the batch request
  in the asynchronous modes and 0 in the synchronous one.
\<close>

definition wr_id_of :: "conf \<Rightarrow> ptr \<Rightarrow> u64" where
  "wr_id_of C batch_req = (if MODE C = MODE_SYNC then 0 else batch_req)"

definition opcode_of :: "RDMA_OP \<Rightarrow> wr_opcode" where
  "opcode_of rw = (if rw = RDMA_READ then IB_WR_RDMA_READ else IB_WR_RDMA_WRITE)"

definition make_wr :: "conf \<Rightarrow> rdma_ctx \<Rightarrow> nat \<Rightarrow> RDMA_OP \<Rightarrow> u64 \<Rightarrow> u64 \<Rightarrow> u32 \<Rightarrow> ptr \<Rightarrow>
    (ib_send_wr \<times> ib_sge) result" where
  "make_wr C ctx k rw dma_addr remote_offset len batch_req =
     (case ctx_mr ctx of None \<Rightarrow> Inl Null_Deref
      | Some mr \<Rightarrow> Inr
          (zero_wr\<lparr> wr_id := wr_id_of C batch_req, wr_sg_list := Some k, wr_num_sge := 1,
             wr_op := opcode_of rw, wr_signaled := True,
             wr_remote_addr := rem_vaddr ctx + remote_offset, wr_rkey := rem_rkey ctx \<rparr>,
           zero_sge\<lparr> sge_addr := dma_addr, sge_length := len, sge_lkey := mr_lkey mr \<rparr>))"

definition simple_make_wr :: "conf \<Rightarrow> rdma_ctx \<Rightarrow> ib_send_wr \<Rightarrow> ib_sge \<Rightarrow> RDMA_OP \<Rightarrow>
    u64 \<Rightarrow> u64 \<Rightarrow> u32 \<Rightarrow> ptr \<Rightarrow> ib_send_wr \<times> ib_sge" where
  "simple_make_wr C ctx wr sg rw dma_addr remote_offset len batch_req =
     (wr\<lparr> wr_id := wr_id_of C batch_req, wr_op := opcode_of rw,
          wr_remote_addr := rem_vaddr ctx + remote_offset \<rparr>,
      sg\<lparr> sge_addr := dma_addr, sge_length := len \<rparr>)"

text \<open>\<open>merge_wr\<close> returns whether it merged and the scatter entry of the old request.\<close>

definition merge_wr :: "ib_send_wr \<Rightarrow> ib_sge \<Rightarrow> ib_send_wr \<Rightarrow> ib_sge \<Rightarrow> bool \<times> ib_sge" where
  "merge_wr old_wr old_sg new_wr new_sg =
     (if wr_op old_wr = wr_op new_wr \<and>
         sge_addr old_sg + ucast (sge_length old_sg) = sge_addr new_sg \<and>
         wr_remote_addr old_wr + ucast (sge_length old_sg) = wr_remote_addr new_wr
      then (True, old_sg\<lparr>sge_length := sge_length old_sg + sge_length new_sg\<rparr>)
      else (False, old_sg))"

section \<open>Posting\<close>

text \<open>
  The card follows \<open>next\<close> from the first request. A chain longer than the array
  has run into a cycle.
\<close>

definition post_view :: "ib_send_wr \<Rightarrow> ib_sge \<Rightarrow> posted" where
  "post_view wr sg = \<lparr> p_op = wr_op wr, p_wr_id = wr_id wr, p_num_sge = wr_num_sge wr,
     p_addr = sge_addr sg, p_length = sge_length sg, p_lkey = sge_lkey sg,
     p_signaled = wr_signaled wr, p_remote_addr = wr_remote_addr wr, p_rkey = wr_rkey wr \<rparr>"

fun wr_chain :: "nat \<Rightarrow> ib_send_wr list \<Rightarrow> ib_sge list \<Rightarrow> nat option \<Rightarrow> posted list result" where
  "wr_chain fuel wrs sges None = Inr []"
| "wr_chain 0 wrs sges (Some i) = Inl Spinning"
| "wr_chain (Suc fuel) wrs sges (Some i) =
     bindR (arr_get wrs (int i)) (\<lambda>wr.
     bindR (case wr_sg_list wr of None \<Rightarrow> Inl Null_Deref | Some j \<Rightarrow> arr_get sges (int j)) (\<lambda>sg.
     bindR (wr_chain fuel wrs sges (wr_next wr)) (\<lambda>ps.
     Inr (post_view wr sg # ps))))"

definition ib_post_send :: "verbs \<Rightarrow> io_event list \<Rightarrow> ib_send_wr list \<Rightarrow> ib_sge list \<Rightarrow>
    (int \<times> io_event list) result" where
  "ib_post_send V tr wrs sges =
     bindR (wr_chain (length wrs) wrs sges (Some 0)) (\<lambda>ps.
     let rc = post_send V tr ps in Inr (rc, tr @ [Post ps rc]))"

definition send_wr :: "conf \<Rightarrow> verbs \<Rightarrow> rdma_ctx \<Rightarrow> io_event list \<Rightarrow> RDMA_OP \<Rightarrow> u64 \<Rightarrow> u64 \<Rightarrow>
    u32 \<Rightarrow> ptr \<Rightarrow> io_event list result" where
  "send_wr C V ctx tr rw dma_addr remote_offset len batch_req =
     bindR (make_wr C ctx 0 rw dma_addr remote_offset len batch_req) (\<lambda>(wr, sg).
     bindR (ib_post_send V tr [wr] [sg]) (\<lambda>(rc, tr').
     bindR (assertR (rc = 0) Bug) (\<lambda>_. Inr tr')))"

section \<open>Waiting for completions\<close>

text \<open>
  The body of the polling loop for one non-empty answer. \<open>arr\<close> is the local
  array \<open>wc\<close> after the call, of which the answer filled the front.
\<close>

definition wc_latency :: "conf \<Rightarrow> verbs \<Rightarrow> io_event list \<Rightarrow> u64 \<Rightarrow> rdma_ctx \<Rightarrow> rdma_ctx result" where
  "wc_latency C V tr start ctx =
     (case ctx_pool ctx of None \<Rightarrow> Inl Null_Deref
      | Some pool \<Rightarrow>
          bindR (count_latency C (sint (ucast ((rdtsc V tr - start) div 3000) :: u32))
                   (latency_dist pool)) (\<lambda>dist.
          Inr (ctx\<lparr>ctx_pool := Some (pool\<lparr>latency_dist := dist\<rparr>)\<rparr>)))"

fun poll_each :: "conf \<Rightarrow> verbs \<Rightarrow> io_event list \<Rightarrow> ib_wc list \<Rightarrow> rdma_ctx \<Rightarrow> rdma_ctx result" where
  "poll_each C V tr [] ctx = Inr ctx"
| "poll_each C V tr (w # ws) ctx =
     bindR (if wc_status w = IB_WC_SUCCESS \<and> MEASURE_LATENCY C \<and> wc_wr_id w \<noteq> 0
            then wc_latency C V tr (wc_wr_id w) ctx else Inr ctx) (\<lambda>ctx'.
     poll_each C V tr ws (ctx'\<lparr>outstanding_requests := outstanding_requests ctx' - 1\<rparr>))"

definition poll_body :: "conf \<Rightarrow> verbs \<Rightarrow> io_event list \<Rightarrow> ib_wc list \<Rightarrow> ib_wc list \<Rightarrow> rdma_ctx \<Rightarrow>
    rdma_ctx result" where
  "poll_body C V tr arr wcs ctx =
     (if SIMPLE_POLL C
      then bindR (if MEASURE_LATENCY C
                  then bindR (arr_get arr 0) (\<lambda>w0.
                       if wc_wr_id w0 \<noteq> 0
                       then bindR (arr_get arr (poll_i V)) (\<lambda>wi. wc_latency C V tr (wc_wr_id wi) ctx)
                       else Inr ctx)
                  else Inr ctx) (\<lambda>ctx'.
           Inr (ctx'\<lparr>outstanding_requests := outstanding_requests ctx' - of_nat (length wcs)\<rparr>))
      else poll_each C V tr wcs ctx)"

fun poll_loop :: "conf \<Rightarrow> verbs \<Rightarrow> ib_wc list \<Rightarrow> poll list \<Rightarrow> rdma_ctx \<Rightarrow> io_event list \<Rightarrow>
    (rdma_ctx \<times> io_event list \<times> poll list) result" where
  "poll_loop C V arr [] ctx tr = Inl Spinning"
| "poll_loop C V arr (Completions (w # ws) # rs) ctx tr =
     (let wcs = w # ws; arr' = wcs @ drop (length wcs) arr; tr' = tr @ [Polled wcs] in
      bindR (poll_body C V tr' arr' wcs ctx) (\<lambda>ctx'. poll_loop C V arr' rs ctx' tr'))"
| "poll_loop C V arr (Completions [] # rs) ctx tr =
     (if outstanding_requests ctx > 0 then poll_loop C V arr rs ctx tr else Inr (ctx, tr, rs))"
| "poll_loop C V arr (Poll_Error # rs) ctx tr =
     (if outstanding_requests ctx > 0 then poll_loop C V arr rs ctx tr else Inr (ctx, tr, rs))"

definition poll_cq :: "conf \<Rightarrow> verbs \<Rightarrow> poll list \<Rightarrow> rdma_ctx \<Rightarrow> io_event list \<Rightarrow>
    (rdma_ctx \<times> io_event list \<times> poll list) result" where
  "poll_cq C V rs ctx tr = poll_loop C V (poll_wc V) rs ctx tr"

section \<open>A batch of requests\<close>

fun send_each :: "conf \<Rightarrow> verbs \<Rightarrow> rdma_ctx \<Rightarrow> rdma_request list \<Rightarrow> nat \<Rightarrow> nat \<Rightarrow> io_event list \<Rightarrow>
    (bool \<times> io_event list) result" where
  "send_each C V ctx req i 0 tr = Inr (True, tr)"
| "send_each C V ctx req i (Suc k) tr =
     bindR (arr_get req (int i)) (\<lambda>r.
     if rr_rw r = RDMA_READ \<or> rr_rw r = RDMA_WRITE
     then bindR (send_wr C V ctx tr (rr_rw r) (rr_dma_addr r) (rr_remote_offset r) (rr_length r)
                  (rr_batch_req r)) (\<lambda>tr'. send_each C V ctx req (Suc i) k tr')
     else Inr (False, tr))"

text \<open>
  \<open>rdma_op\<close> on the first \<open>n\<close> entries of \<open>req\<close>: the return value, the context, the
  trace and the answers of \<open>ib_poll_cq\<close> not yet consumed.
\<close>

definition rdma_op :: "conf \<Rightarrow> verbs \<Rightarrow> poll list \<Rightarrow> rdma_ctx \<Rightarrow> io_event list \<Rightarrow>
    rdma_request list \<Rightarrow> nat \<Rightarrow> (int \<times> rdma_ctx \<times> io_event list \<times> poll list) result" where
  "rdma_op C V rs ctx tr req n =
     (let ctx1 = ctx\<lparr>outstanding_requests := of_nat n\<rparr> in
     bindR (send_each C V ctx1 req 0 n tr) (\<lambda>(ok, tr').
     if \<not> ok then Inr (-1, ctx1\<lparr>outstanding_requests := 0\<rparr>, tr', rs)
     else if MODE C = MODE_SYNC
     then bindR (poll_cq C V rs ctx1 tr') (\<lambda>(ctx2, tr2, rs2). Inr (0, ctx2, tr2, rs2))
     else Inr (0, ctx1, tr', rs)))"

section \<open>Abstractions\<close>

text \<open>How many completions a list of answers carries, and the events it leaves.\<close>

fun completions :: "poll list \<Rightarrow> nat" where
  "completions [] = 0"
| "completions (Completions ws # rs) = length ws + completions rs"
| "completions (Poll_Error # rs) = completions rs"

fun poll_events :: "poll list \<Rightarrow> io_event list" where
  "poll_events [] = []"
| "poll_events (Completions [] # rs) = poll_events rs"
| "poll_events (Completions (w # ws) # rs) = Polled (w # ws) # poll_events rs"
| "poll_events (Poll_Error # rs) = poll_events rs"

definition idle_poll :: "poll \<Rightarrow> bool" where
  "idle_poll r \<longleftrightarrow> r = Completions [] \<or> r = Poll_Error"

text \<open>The work request that \<open>rdma_op\<close> builds for one entry.\<close>

definition posted_of :: "conf \<Rightarrow> rdma_ctx \<Rightarrow> u32 \<Rightarrow> rdma_request \<Rightarrow> posted" where
  "posted_of C ctx lkey r = \<lparr> p_op = opcode_of (rr_rw r), p_wr_id = wr_id_of C (rr_batch_req r),
     p_num_sge = 1, p_addr = rr_dma_addr r, p_length = rr_length r, p_lkey = lkey,
     p_signaled = True, p_remote_addr = rem_vaddr ctx + rr_remote_offset r,
     p_rkey = rem_rkey ctx \<rparr>"

definition valid_op :: "rdma_request \<Rightarrow> bool" where
  "valid_op r \<longleftrightarrow> rr_rw r = RDMA_READ \<or> rr_rw r = RDMA_WRITE"

definition posts_of :: "io_event list \<Rightarrow> posted list list" where
  "posts_of tr = concat (map (\<lambda>e. case e of Post ps rc \<Rightarrow> [ps] | _ \<Rightarrow> []) tr)"

section \<open>Chains\<close>

text \<open>
  The first \<open>n\<close> requests of the array, each linked to the next one and to its own
  scatter entry.
\<close>

definition linked :: "ib_send_wr list \<Rightarrow> nat \<Rightarrow> bool" where
  "linked wrs n \<longleftrightarrow> n \<le> length wrs \<and>
     (\<forall>i < n. wr_sg_list (wrs ! i) = Some i \<and> (Suc i < n \<longrightarrow> wr_next (wrs ! i) = Some (Suc i)))"

lemma wr_chain_from:
  assumes "linked wrs n" and "wr_next (wrs ! (n - 1)) = None" and "n \<le> length sges"
    and "n - i \<le> fuel" and "i < n"
  shows "wr_chain fuel wrs sges (Some i) =
    Inr (map (\<lambda>k. post_view (wrs ! k) (sges ! k)) [i..<n])"
  using assms(4,5)
proof (induction fuel arbitrary: i)
  case 0
  then show ?case by simp
next
  case (Suc fuel)
  have here: "arr_get wrs (int i) = Inr (wrs ! i)" "wr_sg_list (wrs ! i) = Some i"
      "arr_get sges (int i) = Inr (sges ! i)"
    using assms Suc.prems by (auto simp: linked_def)
  show ?case
  proof (cases "Suc i < n")
    case True
    then have "wr_next (wrs ! i) = Some (Suc i)"
      using assms(1) by (simp add: linked_def)
    then show ?thesis
      using here Suc True by (simp add: upt_conv_Cons)
  next
    case False
    with Suc.prems have "n = Suc i" by simp
    then show ?thesis
      using here assms(2) by simp
  qed
qed

lemma ib_post_send_linked:
  assumes "linked wrs n" and "wr_next (wrs ! (n - 1)) = None" and "n \<le> length sges" and "0 < n"
  shows "\<exists>rc. ib_post_send V tr wrs sges =
    Inr (rc, tr @ [Post (map (\<lambda>k. post_view (wrs ! k) (sges ! k)) [0..<n]) rc]) \<and>
    rc = post_send V tr (map (\<lambda>k. post_view (wrs ! k) (sges ! k)) [0..<n])"
  using assms wr_chain_from [OF assms(1-3), of 0 "length wrs"]
  by (simp add: ib_post_send_def linked_def Let_def)

lemma ib_post_send_single:
  "wr_sg_list wr = Some 0 \<Longrightarrow> wr_next wr = None \<Longrightarrow> ib_post_send V tr [wr] [sg] =
     Inr (post_send V tr [post_view wr sg], tr @ [Post [post_view wr sg] (post_send V tr [post_view wr sg])])"
  by (simp add: ib_post_send_def arr_get_def Let_def)

section \<open>Polling\<close>

lemma poll_each_no_latency:
  "\<not> MEASURE_LATENCY C \<Longrightarrow> poll_each C V tr ws ctx =
     Inr (ctx\<lparr>outstanding_requests := outstanding_requests ctx - of_nat (length ws)\<rparr>)"
  by (induction ws arbitrary: ctx) (simp_all add: algebra_simps)

lemma poll_body_no_latency:
  "\<not> MEASURE_LATENCY C \<Longrightarrow> poll_body C V tr arr ws ctx =
     Inr (ctx\<lparr>outstanding_requests := outstanding_requests ctx - of_nat (length ws)\<rparr>)"
  by (simp add: poll_body_def poll_each_no_latency)

lemma idle_poll_loop:
  "idle_poll r \<Longrightarrow> poll_loop C V arr (r # rs) ctx tr =
     (if outstanding_requests ctx > 0 then poll_loop C V arr rs ctx tr else Inr (ctx, tr, rs))"
  by (auto simp: idle_poll_def)

lemma poll_cases:
  obtains "idle_poll r" | w ws where "r = Completions (w # ws)"
proof (cases r)
  case (Completions ws)
  then show ?thesis
    using that by (cases ws) (auto simp: idle_poll_def)
qed (use that in \<open>simp add: idle_poll_def\<close>)

lemma idle_poll_simps:
  assumes "idle_poll r"
  shows "completions (r # rs) = completions rs" "poll_events (r # rs) = poll_events rs"
  using assms by (auto simp: idle_poll_def)

lemma poll_events_idle: "completions rs = 0 \<Longrightarrow> poll_events rs = []"
  by (induction rs rule: poll_events.induct) auto

lemma completions_append [simp]: "completions (rs @ rs') = completions rs + completions rs'"
  by (induction rs rule: completions.induct) auto

lemma of_nat_zero_u64: "(of_nat n :: u64) = 0 \<Longrightarrow> n < 2 ^ 64 \<Longrightarrow> n = 0"
  by (auto simp: word_of_nat_eq_0_iff dest: dvd_imp_le)

text \<open>
  If the answers up to some idle one carry as many completions as are
  outstanding, the loop ends with none outstanding. It may end before that
  answer, but then what is left of the prefix is idle.
\<close>

lemma poll_loop_returns:
  assumes "\<not> MEASURE_LATENCY C" and "idle_poll r"
    and "of_nat (completions ps) = outstanding_requests ctx" and "completions ps < 2 ^ 64"
  shows "\<exists>rs'. poll_loop C V arr (ps @ r # rest) ctx tr =
      Inr (ctx\<lparr>outstanding_requests := 0\<rparr>, tr @ poll_events ps, rs' @ rest) \<and> completions rs' = 0"
  using assms(3,4)
proof (induction ps arbitrary: ctx arr tr)
  case Nil
  then show ?case
    using assms(2) by (intro exI [of _ "[]"]) (simp add: idle_poll_loop)
next
  case (Cons a ps)
  show ?case
  proof (cases a rule: poll_cases)
    case 1
    show ?thesis
    proof (cases "outstanding_requests ctx = 0")
      case True
      then have "completions ps = 0"
        using of_nat_zero_u64 Cons.prems idle_poll_simps(1) [OF 1] by metis
      moreover have "completions [r] = 0"
        using idle_poll_simps(1) [OF assms(2), of "[]"] by simp
      ultimately show ?thesis
        using True 1
        by (intro exI [of _ "ps @ [r]"]) (simp add: poll_events_idle idle_poll_loop idle_poll_simps)
    next
      case False
      then show ?thesis
        using Cons 1 by (simp add: word_gt_0 idle_poll_loop idle_poll_simps)
    qed
  next
    case (2 w ws)
    have "of_nat (completions ps) = outstanding_requests
        (ctx\<lparr>outstanding_requests := outstanding_requests ctx - of_nat (length (w # ws))\<rparr>)"
      using Cons.prems 2 by (simp add: algebra_simps)
    from Cons.IH [OF this, of "(w # ws) @ drop (length (w # ws)) arr" "tr @ [Polled (w # ws)]"]
    show ?thesis
      using Cons.prems(2) assms(1) 2 by (auto simp: poll_body_no_latency Let_def)
  qed
qed

text \<open>When the loop ends, the completions it consumed are the outstanding ones.\<close>

lemma poll_loop_sound:
  assumes "\<not> MEASURE_LATENCY C" and "poll_loop C V arr rs ctx tr = Inr (ctx', tr', rs')"
  shows "\<exists>ps r. rs = ps @ r # rs' \<and> idle_poll r \<and>
    outstanding_requests ctx = of_nat (completions ps) \<and>
    ctx' = ctx\<lparr>outstanding_requests := 0\<rparr> \<and> tr' = tr @ poll_events ps"
  using assms(2)
proof (induction rs arbitrary: ctx arr tr)
  case Nil
  then show ?case by simp
next
  case (Cons a rs)
  show ?case
  proof (cases a rule: poll_cases)
    case 1
    show ?thesis
    proof (cases "outstanding_requests ctx = 0")
      case True
      then show ?thesis
        using Cons.prems 1 by (intro exI [of _ "[]"] exI [of _ a]) (auto simp: idle_poll_loop)
    next
      case False
      then obtain ps r where "rs = ps @ r # rs'" "idle_poll r"
          "outstanding_requests ctx = of_nat (completions ps)"
          "ctx' = ctx\<lparr>outstanding_requests := 0\<rparr>" "tr' = tr @ poll_events ps"
        using Cons.IH [of arr ctx tr] Cons.prems 1 by (auto simp: idle_poll_loop word_gt_0)
      then show ?thesis
        using 1 by (intro exI [of _ "a # ps"] exI [of _ r]) (simp add: idle_poll_simps)
    qed
  next
    case (2 w ws)
    let ?ctx = "ctx\<lparr>outstanding_requests := outstanding_requests ctx - of_nat (length (w # ws))\<rparr>"
    from Cons.prems 2 assms(1) obtain ps r where "rs = ps @ r # rs'" "idle_poll r"
        "outstanding_requests ?ctx = of_nat (completions ps)"
        "ctx' = ?ctx\<lparr>outstanding_requests := 0\<rparr>" "tr' = (tr @ [Polled (w # ws)]) @ poll_events ps"
      using Cons.IH [of "(w # ws) @ drop (length (w # ws)) arr" ?ctx "tr @ [Polled (w # ws)]"]
      by (auto simp: poll_body_no_latency Let_def)
    then show ?thesis
      using 2 by (intro exI [of _ "a # ps"] exI [of _ r]) (simp add: algebra_simps)
  qed
qed

lemma poll_loop_fault:
  "\<not> MEASURE_LATENCY C \<Longrightarrow> poll_loop C V arr rs ctx tr = Inl e \<Longrightarrow> e = Spinning"
proof (induction rs arbitrary: ctx arr tr)
  case (Cons a rs)
  show ?case
  proof (cases a rule: poll_cases)
    case 1
    then show ?thesis
      using Cons by (auto simp: idle_poll_loop split: if_splits)
  next
    case (2 w ws)
    then show ?thesis
      using Cons by (auto simp: poll_body_no_latency Let_def)
  qed
qed simp

section \<open>Sending a batch\<close>

lemma send_wr_ok:
  assumes "ctx_mr ctx = Some mr" and "valid_op r"
    and "post_send V tr [posted_of C ctx (mr_lkey mr) r] = 0"
  shows "send_wr C V ctx tr (rr_rw r) (rr_dma_addr r) (rr_remote_offset r) (rr_length r)
    (rr_batch_req r) = Inr (tr @ [Post [posted_of C ctx (mr_lkey mr) r] 0])"
proof -
  let ?wr = "zero_wr\<lparr> wr_id := wr_id_of C (rr_batch_req r), wr_sg_list := Some 0, wr_num_sge := 1,
             wr_op := opcode_of (rr_rw r), wr_signaled := True,
             wr_remote_addr := rem_vaddr ctx + rr_remote_offset r, wr_rkey := rem_rkey ctx \<rparr>"
  let ?sg = "zero_sge\<lparr> sge_addr := rr_dma_addr r, sge_length := rr_length r, sge_lkey := mr_lkey mr \<rparr>"
  have "post_view ?wr ?sg = posted_of C ctx (mr_lkey mr) r"
    by (simp add: post_view_def posted_of_def zero_wr_def zero_sge_def)
  moreover have "wr_next ?wr = None" "wr_sg_list ?wr = Some 0"
    by (simp_all add: zero_wr_def)
  ultimately show ?thesis
    using assms(1,3) by (simp add: send_wr_def make_wr_def ib_post_send_single)
qed

definition accepting :: "verbs \<Rightarrow> bool" where
  "accepting V \<longleftrightarrow> (\<forall>tr ps. post_send V tr ps = 0)"

lemma send_each_ok:
  assumes "ctx_mr ctx = Some mr" and "accepting V"
    and "\<forall>r \<in> set (take k (drop i req)). valid_op r" and "i + k \<le> length req"
  shows "send_each C V ctx req i k tr =
    Inr (True, tr @ map (\<lambda>r. Post [posted_of C ctx (mr_lkey mr) r] 0) (take k (drop i req)))"
  using assms(3,4)
proof (induction k arbitrary: i tr)
  case (Suc k)
  then have i: "i < length req" and split: "take (Suc k) (drop i req) = req ! i # take k (drop (Suc i) req)"
    by (auto simp: Cons_nth_drop_Suc [symmetric])
  then have "valid_op (req ! i)"
    using Suc.prems(1) by simp
  moreover from this have "rr_rw (req ! i) = RDMA_READ \<or> rr_rw (req ! i) = RDMA_WRITE"
    by (simp add: valid_op_def)
  ultimately show ?case
    using Suc i split assms(1,2) by (simp add: send_wr_ok accepting_def)
qed simp

lemma posts_of_append [simp]: "posts_of (tr @ tr') = posts_of tr @ posts_of tr'"
  by (simp add: posts_of_def)

lemma posts_of_Nil [simp]: "posts_of [] = []"
  by (simp add: posts_of_def)

lemma posts_of_Post [simp]: "posts_of (Post ps rc # tr) = ps # posts_of tr"
  by (simp add: posts_of_def)

lemma posts_of_poll_events [simp]: "posts_of (poll_events rs) = []"
  by (induction rs rule: poll_events.induct) (simp_all add: posts_of_def)

lemma posts_of_other [simp]:
  "posts_of (Polled ws # tr) = posts_of tr" "posts_of (End_Request r e b # tr) = posts_of tr"
  "posts_of (End_Request_All r e # tr) = posts_of tr"
  by (simp_all add: posts_of_def)

section \<open>Draining the completion queue\<close>

text \<open>
  The reference for the polling loop: read answers until \<open>n\<close> completions have
  come and an idle answer follows. It gives the events and the answers left, or
  \<open>None\<close> when the answers run out first or carry too many completions.
  \<open>serves\<close> says that the answers are good for a series of batches.
\<close>

fun drain :: "nat \<Rightarrow> poll list \<Rightarrow> (io_event list \<times> poll list) option" where
  "drain n [] = None"
| "drain n (Poll_Error # rs) = (if n = 0 then Some ([], rs) else drain n rs)"
| "drain n (Completions [] # rs) = (if n = 0 then Some ([], rs) else drain n rs)"
| "drain n (Completions (w # ws) # rs) =
     (if length (w # ws) \<le> n
      then map_option (\<lambda>(es, rs'). (Polled (w # ws) # es, rs')) (drain (n - length (w # ws)) rs)
      else None)"

fun serves :: "nat list \<Rightarrow> poll list \<Rightarrow> bool" where
  "serves [] rs = True"
| "serves (n # ns) rs = (case drain n rs of None \<Rightarrow> False | Some (es, rs') \<Rightarrow> serves ns rs')"

lemma poll_loop_drain:
  assumes "\<not> MEASURE_LATENCY C" and "drain n rs = Some (es, rs')" and "n < 2 ^ 64"
    and "outstanding_requests ctx = of_nat n"
  shows "poll_loop C V arr rs ctx tr = Inr (ctx\<lparr>outstanding_requests := 0\<rparr>, tr @ es, rs')"
  using assms(2-4)
proof (induction n rs arbitrary: ctx arr tr es rule: drain.induct)
  case (2 n rs)
  then show ?case
    by (cases "n = 0") (auto simp: word_gt_0 dest: of_nat_zero_u64)
next
  case (3 n rs)
  then show ?case
    by (cases "n = 0") (auto simp: word_gt_0 dest: of_nat_zero_u64)
next
  case (4 n w ws rs)
  from "4.prems" obtain es0 where le: "length (w # ws) \<le> n"
      and d: "drain (n - length (w # ws)) rs = Some (es0, rs')" and es: "es = Polled (w # ws) # es0"
    by (auto split: if_splits)
  let ?ctx = "ctx\<lparr>outstanding_requests := outstanding_requests ctx - of_nat (length (w # ws))\<rparr>"
  have "outstanding_requests ?ctx = of_nat (n - length (w # ws))"
    using "4.prems"(3) le by (simp add: of_nat_diff)
  moreover have "n - length (w # ws) < 2 ^ 64"
    using "4.prems"(2) by simp
  ultimately have "poll_loop C V ((w # ws) @ drop (length (w # ws)) arr) rs ?ctx (tr @ [Polled (w # ws)]) =
      Inr (?ctx\<lparr>outstanding_requests := 0\<rparr>, (tr @ [Polled (w # ws)]) @ es0, rs')"
    by (intro "4.IH" [OF le d])
  then show ?case
    using assms(1) es by (simp add: poll_body_no_latency Let_def)
qed simp

text \<open>Events are counted by what they post and what they complete.\<close>

fun event_balance :: "io_event \<Rightarrow> int" where
  "event_balance (Post ps rc) = int (length ps)"
| "event_balance (Polled ws) = - int (length ws)"
| "event_balance e = 0"

definition in_flight :: "io_event list \<Rightarrow> int" where
  "in_flight tr = sum_list (map event_balance tr)"

fun is_end :: "io_event \<Rightarrow> bool" where
  "is_end (End_Request r e b) = True"
| "is_end (End_Request_All r e) = True"
| "is_end e = False"

lemma in_flight_simps [simp]:
  "in_flight [] = 0" "in_flight (e # tr) = event_balance e + in_flight tr"
  "in_flight (tr @ tr') = in_flight tr + in_flight tr'"
  by (simp_all add: in_flight_def)

lemma drain_events:
  "drain n rs = Some (es, rs') \<Longrightarrow>
     in_flight es = - int n \<and> posts_of es = [] \<and> filter is_end es = []"
  by (induction n rs arbitrary: es rule: drain.induct) (auto split: if_splits)

section \<open>Properties\<close>

text \<open>
  C21. \<open>poll_cq\<close> returns as soon as the completion queue has given as many
  completions as are outstanding and then runs dry: it then has consumed exactly
  those completions, \<open>outstanding_requests\<close> is 0 and nothing else of the context
  has changed.
\<close>
theorem poll_cq_returns:
  assumes "\<not> MEASURE_LATENCY C" and "idle_poll r"
    and "completions ps = unat (outstanding_requests ctx)"
  shows "\<exists>rs'. poll_cq C V (ps @ r # rest) ctx tr =
      Inr (ctx\<lparr>outstanding_requests := 0\<rparr>, tr @ poll_events ps, rs' @ rest) \<and> completions rs' = 0"
  unfolding poll_cq_def
  by (rule poll_loop_returns [OF assms(1,2)]) (use assms(3) unat_u64_bound in simp_all)

theorem poll_cq_returns_witness:
  "\<forall>V ctx. \<exists>rs'. poll_cq conf_h V ([Completions [], Completions [\<lparr>wc_wr_id = 0, wc_status = IB_WC_SUCCESS\<rparr>,
        \<lparr>wc_wr_id = 0, wc_status = IB_WC_FAILURE 5\<rparr>]] @ Completions [] # [Poll_Error])
      (ctx\<lparr>outstanding_requests := 2\<rparr>) [] =
    Inr (ctx\<lparr>outstanding_requests := 0\<rparr>, [Polled [\<lparr>wc_wr_id = 0, wc_status = IB_WC_SUCCESS\<rparr>,
        \<lparr>wc_wr_id = 0, wc_status = IB_WC_FAILURE 5\<rparr>]], rs' @ [Poll_Error]) \<and> completions rs' = 0"
proof (intro allI)
  fix V ctx
  show "\<exists>rs'. poll_cq conf_h V ([Completions [], Completions [\<lparr>wc_wr_id = 0, wc_status = IB_WC_SUCCESS\<rparr>,
        \<lparr>wc_wr_id = 0, wc_status = IB_WC_FAILURE 5\<rparr>]] @ Completions [] # [Poll_Error])
      (ctx\<lparr>outstanding_requests := 2\<rparr>) [] =
    Inr (ctx\<lparr>outstanding_requests := 0\<rparr>, [Polled [\<lparr>wc_wr_id = 0, wc_status = IB_WC_SUCCESS\<rparr>,
        \<lparr>wc_wr_id = 0, wc_status = IB_WC_FAILURE 5\<rparr>]], rs' @ [Poll_Error]) \<and> completions rs' = 0"
    using poll_cq_returns [of conf_h "Completions []" "[Completions [],
        Completions [\<lparr>wc_wr_id = 0, wc_status = IB_WC_SUCCESS\<rparr>,
          \<lparr>wc_wr_id = 0, wc_status = IB_WC_FAILURE 5\<rparr>]]"
        "ctx\<lparr>outstanding_requests := 2\<rparr>" V "[Poll_Error]" "[]"]
    by (simp add: idle_poll_def)
qed

text \<open>
  C32. As long as the completion queue has given fewer completions than are
  outstanding, \<open>poll_cq\<close> keeps spinning, whatever else it polls. A post that the
  card refuses, whose return code \<open>rmem_request_sync\<close> ignores, therefore hangs
  the driver.
\<close>
theorem poll_cq_spins:
  assumes "\<not> MEASURE_LATENCY C" and "completions rs < unat (outstanding_requests ctx)"
  shows "poll_cq C V rs ctx tr = Inl Spinning"
proof (cases "poll_cq C V rs ctx tr")
  case (Inl e)
  then show ?thesis
    using poll_loop_fault assms(1) by (metis poll_cq_def)
next
  case (Inr x)
  obtain ctx' tr' rs' where "x = (ctx', tr', rs')"
    by (cases x)
  then obtain ps r where rs: "rs = ps @ r # rs'"
      and out: "outstanding_requests ctx = of_nat (completions ps)"
    using poll_loop_sound [OF assms(1)] Inr unfolding poll_cq_def by blast
  have "completions ps \<le> completions rs"
    using rs by simp
  moreover have "unat (outstanding_requests ctx) \<le> completions ps"
    by (simp add: out unat_of_nat)
  ultimately show ?thesis
    using assms(2) by simp
qed

theorem poll_cq_spins_witness:
  "\<forall>V ctx. poll_cq conf_h V [Completions [], Poll_Error, Completions [\<lparr>wc_wr_id = 0, wc_status = IB_WC_SUCCESS\<rparr>]]
      (ctx\<lparr>outstanding_requests := 2\<rparr>) [] = Inl Spinning"
proof (intro allI)
  fix V ctx
  show "poll_cq conf_h V [Completions [], Poll_Error, Completions [\<lparr>wc_wr_id = 0, wc_status = IB_WC_SUCCESS\<rparr>]]
      (ctx\<lparr>outstanding_requests := 2\<rparr>) [] = Inl Spinning"
    by (rule poll_cq_spins) simp_all
qed

text \<open>
  C22. In the synchronous mode \<open>rdma_op\<close> posts the first \<open>n\<close> entries one by one, in
  order, each as a signalled work request with the remote address \<open>rem_vaddr\<close> plus
  the entry's offset, and returns 0 once the completion queue has given \<open>n\<close>
  completions; nothing is outstanding then.
\<close>
theorem rdma_op_sync:
  assumes "MODE C = MODE_SYNC" and "\<not> MEASURE_LATENCY C" and "accepting V"
    and "ctx_mr ctx = Some mr" and "n \<le> length req" and "n < 2 ^ 64"
    and "\<forall>r \<in> set (take n req). valid_op r" and "completions ps = n" and "idle_poll r"
  shows "\<exists>rs'. rdma_op C V (ps @ r # rest) ctx tr req n =
    Inr (0, ctx\<lparr>outstanding_requests := 0\<rparr>,
      tr @ map (\<lambda>r. Post [posted_of C ctx (mr_lkey mr) r] 0) (take n req) @ poll_events ps, rs' @ rest) \<and>
    completions rs' = 0"
proof -
  let ?ctx = "ctx\<lparr>outstanding_requests := of_nat n\<rparr>"
  let ?tr = "tr @ map (\<lambda>r. Post [posted_of C ctx (mr_lkey mr) r] 0) (take n req)"
  have "posted_of C ?ctx = posted_of C ctx"
    by (simp add: posted_of_def fun_eq_iff)
  moreover have "send_each C V ?ctx req 0 n tr =
      Inr (True, tr @ map (\<lambda>r. Post [posted_of C ?ctx (mr_lkey mr) r] 0) (take n (drop 0 req)))"
    by (rule send_each_ok) (use assms in auto)
  moreover obtain rs' where "poll_loop C V (poll_wc V) (ps @ r # rest) ?ctx ?tr =
      Inr (?ctx\<lparr>outstanding_requests := 0\<rparr>, ?tr @ poll_events ps, rs' @ rest)" "completions rs' = 0"
    using poll_loop_returns [OF assms(2,9), of ps ?ctx V "poll_wc V" rest ?tr] assms(6,8) by auto
  ultimately show ?thesis
    using assms(1) by (simp add: rdma_op_def poll_cq_def Let_def)
qed

theorem rdma_op_sync_witness:
  "\<forall>V ctx. \<exists>rs'. rdma_op conf_h (V\<lparr>post_send := \<lambda>_ _. 0\<rparr>)
      ([Completions [\<lparr>wc_wr_id = 0, wc_status = IB_WC_SUCCESS\<rparr>]] @ Completions [] # [])
      (ctx\<lparr>ctx_mr := Some \<lparr>mr_lkey = 1, mr_rkey = 2\<rparr>, rem_vaddr := 4096, rem_rkey := 3\<rparr>) []
      [\<lparr>rr_rw = RDMA_READ, rr_dma_addr = 7, rr_remote_offset = 512, rr_length = 512, rr_batch_req = 0\<rparr>] 1 =
    Inr (0, ctx\<lparr>ctx_mr := Some \<lparr>mr_lkey = 1, mr_rkey = 2\<rparr>, rem_vaddr := 4096, rem_rkey := 3,
        outstanding_requests := 0\<rparr>,
      [Post [\<lparr>p_op = IB_WR_RDMA_READ, p_wr_id = 0, p_num_sge = 1, p_addr = 7, p_length = 512,
          p_lkey = 1, p_signaled = True, p_remote_addr = 4608, p_rkey = 3\<rparr>] 0,
       Polled [\<lparr>wc_wr_id = 0, wc_status = IB_WC_SUCCESS\<rparr>]], rs') \<and> completions rs' = 0"
proof (intro allI)
  fix V :: verbs and ctx :: rdma_ctx
  let ?ctx = "ctx\<lparr>ctx_mr := Some \<lparr>mr_lkey = 1, mr_rkey = 2\<rparr>, rem_vaddr := 4096, rem_rkey := 3\<rparr>"
  let ?r = "\<lparr>rr_rw = RDMA_READ, rr_dma_addr = 7, rr_remote_offset = 512, rr_length = 512, rr_batch_req = 0\<rparr>"
  show "\<exists>rs'. rdma_op conf_h (V\<lparr>post_send := \<lambda>_ _. 0\<rparr>)
      ([Completions [\<lparr>wc_wr_id = 0, wc_status = IB_WC_SUCCESS\<rparr>]] @ Completions [] # []) ?ctx [] [?r] 1 =
    Inr (0, ctx\<lparr>ctx_mr := Some \<lparr>mr_lkey = 1, mr_rkey = 2\<rparr>, rem_vaddr := 4096, rem_rkey := 3,
        outstanding_requests := 0\<rparr>,
      [Post [\<lparr>p_op = IB_WR_RDMA_READ, p_wr_id = 0, p_num_sge = 1, p_addr = 7, p_length = 512,
          p_lkey = 1, p_signaled = True, p_remote_addr = 4608, p_rkey = 3\<rparr>] 0,
       Polled [\<lparr>wc_wr_id = 0, wc_status = IB_WC_SUCCESS\<rparr>]], rs') \<and> completions rs' = 0"
    using rdma_op_sync [of conf_h "V\<lparr>post_send := \<lambda>_ _. 0\<rparr>" ?ctx "\<lparr>mr_lkey = 1, mr_rkey = 2\<rparr>" 1 "[?r]"
        "[Completions [\<lparr>wc_wr_id = 0, wc_status = IB_WC_SUCCESS\<rparr>]]" "Completions []" "[]" "[]"]
    by (simp add: accepting_def valid_op_def idle_poll_def posted_of_def opcode_of_def wr_id_of_def)
qed

end
