(* ===== verification/Fabric.thy ===== *)
theory Fabric
  imports Work_Request
begin

text \<open>
  What the posted work requests do to memory. The network card and the remote
  host are outside the repository; what the driver relies on is the documented
  meaning of the two verbs: a transfer moves a run of bytes between local and
  remote memory, so moving \<open>n + k\<close> bytes is moving the first \<open>n\<close> and then the
  other \<open>k\<close>. This is the locale \<open>fabric\<close>, in which merging adjacent requests is
  proved sound. It is interpreted on a card that moves single bytes between the remote
  memory and the client's memory, which it reaches through bus addresses.
\<close>

section \<open>Transfers\<close>

datatype xfer = Xfer (x_op: wr_opcode) (x_local: u64) (x_remote: u64) (x_bytes: nat)

definition xfer_of :: "posted \<Rightarrow> xfer" where
  "xfer_of p = Xfer (p_op p) (p_addr p) (p_remote_addr p) (unat (p_length p))"

fun run_xfers :: "(wr_opcode \<Rightarrow> u64 \<Rightarrow> u64 \<Rightarrow> nat \<Rightarrow> 'm \<Rightarrow> 'm) \<Rightarrow> xfer list \<Rightarrow> 'm \<Rightarrow> 'm" where
  "run_xfers exec [] m = m"
| "run_xfers exec (Xfer w a r n # xs) m = run_xfers exec xs (exec w a r n m)"

lemma run_xfers_append: "run_xfers exec (xs @ ys) m = run_xfers exec ys (run_xfers exec xs m)"
  by (induction exec xs m rule: run_xfers.induct) auto

text \<open>
  \<open>xs\<close> becomes \<open>ys\<close> by merging neighbours that continue each other on both sides.
\<close>

inductive coalesce :: "xfer list \<Rightarrow> xfer list \<Rightarrow> bool" where
  coalesce_refl: "coalesce xs xs"
| coalesce_app: "coalesce xs ys \<Longrightarrow> coalesce (xs @ zs) (ys @ zs)"
| coalesce_merge: "coalesce xs (ys @ [Xfer w a r n]) \<Longrightarrow> n + k < 2 ^ 64 \<Longrightarrow>
    coalesce (xs @ [Xfer w (a + of_nat n) (r + of_nat n) k]) (ys @ [Xfer w a r (n + k)])"

locale fabric =
  fixes exec :: "wr_opcode \<Rightarrow> u64 \<Rightarrow> u64 \<Rightarrow> nat \<Rightarrow> 'm \<Rightarrow> 'm"
  assumes exec_split: "n + k < 2 ^ 64 \<Longrightarrow>
    exec w a r (n + k) m = exec w (a + of_nat n) (r + of_nat n) k (exec w a r n m)"
begin

lemma run_coalesce: "coalesce xs ys \<Longrightarrow> run_xfers exec ys m = run_xfers exec xs m"
proof (induction arbitrary: m rule: coalesce.induct)
  case (coalesce_merge xs ys w a r n k)
  have "run_xfers exec (ys @ [Xfer w a r (n + k)]) m =
      exec w (a + of_nat n) (r + of_nat n) k (run_xfers exec (ys @ [Xfer w a r n]) m)"
    using exec_split [OF coalesce_merge.hyps(2)] by (simp add: run_xfers_append)
  then show ?case
    using coalesce_merge.IH by (simp add: run_xfers_append)
qed (simp_all add: run_xfers_append)

end

section \<open>Byte memories\<close>

text \<open>The client's memory by kernel address, and the remote memory (or a disk) by byte.\<close>

record mem =
  lmem :: "u64 \<Rightarrow> u8"
  rmem :: "u64 \<Rightarrow> u8"

text \<open>
  The card reaches the client's memory through bus addresses; \<open>io\<close> says which byte of
  the kernel's memory stands behind a bus address. A work request moves its bytes one
  after the other.
\<close>

fun card_byte :: "(u64 \<Rightarrow> u64) \<Rightarrow> wr_opcode \<Rightarrow> u64 \<Rightarrow> u64 \<Rightarrow> mem \<Rightarrow> mem" where
  "card_byte io IB_WR_RDMA_READ a r m = m\<lparr>lmem := (lmem m)(io a := rmem m r)\<rparr>"
| "card_byte io IB_WR_RDMA_WRITE a r m = m\<lparr>rmem := (rmem m)(r := lmem m (io a))\<rparr>"

fun card_exec :: "(u64 \<Rightarrow> u64) \<Rightarrow> wr_opcode \<Rightarrow> u64 \<Rightarrow> u64 \<Rightarrow> nat \<Rightarrow> mem \<Rightarrow> mem" where
  "card_exec io w a r 0 m = m"
| "card_exec io w a r (Suc n) m = card_byte io w (a + of_nat n) (r + of_nat n) (card_exec io w a r n m)"

lemma card_exec_split:
  "card_exec io w a r (n + k) m = card_exec io w (a + of_nat n) (r + of_nat n) k (card_exec io w a r n m)"
  by (induction k) (simp_all add: algebra_simps)

interpretation card: fabric "card_exec io" for io
  by unfold_locales (rule card_exec_split)

section \<open>The remote memory as a disk\<close>

text \<open>
  The device's byte \<open>x\<close> is the remote byte \<open>base + x\<close>. Seen this way a transfer at
  remote address \<open>base + off\<close> is a transfer at offset \<open>off\<close>.
\<close>

definition disk_view :: "u64 \<Rightarrow> mem \<Rightarrow> mem" where
  "disk_view base m = m\<lparr>rmem := \<lambda>x. rmem m (base + x)\<rparr>"

definition rebase :: "u64 \<Rightarrow> xfer \<Rightarrow> xfer" where
  "rebase base x = Xfer (x_op x) (x_local x) (base + x_remote x) (x_bytes x)"

lemma card_byte_disk_view:
  "disk_view base (card_byte io w a (base + off) m) = card_byte io w a off (disk_view base m)"
  by (cases w) (simp_all add: disk_view_def fun_eq_iff)

lemma card_exec_disk_view:
  "disk_view base (card_exec io w a (base + off) n m) = card_exec io w a off n (disk_view base m)"
  by (induction n) (simp_all add: add.assoc card_byte_disk_view)

lemma run_xfers_disk_view:
  "disk_view base (run_xfers (card_exec io) (map (rebase base) xs) m) =
   run_xfers (card_exec io) xs (disk_view base m)"
proof (induction xs arbitrary: m)
  case (Cons x xs)
  then show ?case by (cases x) (simp add: rebase_def card_exec_disk_view)
qed simp

section \<open>Copying\<close>

text \<open>
  The other way to say that bytes move: \<open>n\<close> bytes of \<open>src\<close> from \<open>a\<close> on replace those of
  \<open>dst\<close> from \<open>r\<close> on.
\<close>

definition copy_bytes :: "(u64 \<Rightarrow> u8) \<Rightarrow> u64 \<Rightarrow> (u64 \<Rightarrow> u8) \<Rightarrow> u64 \<Rightarrow> nat \<Rightarrow> u64 \<Rightarrow> u8" where
  "copy_bytes src a dst r n x = (if unat (x - r) < n then src (a + (x - r)) else dst x)"

lemma copy_bytes_0 [simp]: "copy_bytes src a dst r 0 = dst"
  by (simp add: copy_bytes_def fun_eq_iff)

lemma copy_bytes_Suc:
  assumes "n < 2 ^ 64"
  shows "copy_bytes src a dst r (Suc n) = (copy_bytes src a dst r n)(r + of_nat n := src (a + of_nat n))"
proof
  fix x :: u64
  have n: "unat (of_nat n :: u64) = n"
    using assms by (simp add: unat_of_nat)
  have "unat (x - r) = n \<longleftrightarrow> x - r = of_nat n"
    unfolding word_unat_eq_iff n ..
  then have "unat (x - r) = n \<longleftrightarrow> x = r + of_nat n"
    by (auto simp: algebra_simps)
  then show "copy_bytes src a dst r (Suc n) x = ((copy_bytes src a dst r n)(r + of_nat n := src (a + of_nat n))) x"
    using n by (auto simp: copy_bytes_def less_Suc_eq)
qed

text \<open>
  When the bus addresses from \<open>a\<close> on reach the buffer \<open>p\<close>, a work request copies between
  the buffer and the remote memory, in the direction its operation code names.
\<close>

definition reaches :: "(u64 \<Rightarrow> u64) \<Rightarrow> u64 \<Rightarrow> ptr \<Rightarrow> nat \<Rightarrow> bool" where
  "reaches io a p n \<longleftrightarrow> (\<forall>i < n. io (a + of_nat i) = p + of_nat i)"

lemma reaches_mono: "reaches io a p n \<Longrightarrow> k \<le> n \<Longrightarrow> reaches io a p k"
  by (simp add: reaches_def)

lemma card_exec_write:
  assumes "reaches io a p n" and "n \<le> 2 ^ 64"
  shows "card_exec io IB_WR_RDMA_WRITE a r n m = m\<lparr>rmem := copy_bytes (lmem m) p (rmem m) r n\<rparr>"
  using assms
proof (induction n)
  case (Suc n)
  then show ?case
    using reaches_mono [of io a p "Suc n" n] by (simp add: copy_bytes_Suc reaches_def fun_upd_def)
qed simp

lemma card_exec_read:
  assumes "reaches io a p n" and "n \<le> 2 ^ 64"
  shows "card_exec io IB_WR_RDMA_READ a r n m = m\<lparr>lmem := copy_bytes (rmem m) r (lmem m) p n\<rparr>"
  using assms
proof (induction n)
  case (Suc n)
  then show ?case
    using reaches_mono [of io a p "Suc n" n] by (simp add: copy_bytes_Suc reaches_def fun_upd_def)
qed simp

end
