(* ===== verification/Block.thy ===== *)
theory Block
  imports Fabric
begin

text \<open>
  Block requests as the kernel's block layer hands them to the driver, the
  device structure of \<open>src/rmem.c\<close> (lines 45 to 66), what a disk does with such
  requests, and the transfers by which the three request functions do it.
\<close>

section \<open>Block requests\<close>

text \<open>
  The block layer is outside the repository. A bio covers the bytes from its first
  sector on and keeps them in buffers \<open>bi_io_vec\<close>, each with a length of its own.
  \<open>bi_cur_bytes\<close> is what \<open>bio_cur_bytes\<close> answers: the length of the bio's current
  buffer. The driver asks it for every buffer it visits, but never moves the bio on, so
  the answer is always the same.
\<close>

record bio_vec =
  bv_buf :: ptr
  bv_len :: u32

record bio =
  bi_sector :: u64
  bi_write :: bool
  bi_size :: u32
  bi_cur_bytes :: u32
  bi_io_vec :: "bio_vec list"

text \<open>
  What the body of \<open>bio_for_each_segment\<close> works with: the buffer that
  \<open>__bio_kmap_atomic\<close> gives for this segment and the value of \<open>bio_cur_bytes\<close>.
\<close>

record bio_seg =
  seg_buf :: ptr
  seg_bytes :: u32

definition bi_segs :: "bio \<Rightarrow> bio_seg list" where
  "bi_segs b = map (\<lambda>v. \<lparr>seg_buf = bv_buf v, seg_bytes = bi_cur_bytes b\<rparr>) (bi_io_vec b)"

lemma bi_segs_Nil [simp]: "bi_segs b = [] \<longleftrightarrow> bi_io_vec b = []"
  by (simp add: bi_segs_def)

record request =
  rq_at :: ptr
  rq_fs :: bool
  rq_cur_bytes :: u32
  rq_bios :: "bio list"

definition bio_op :: "bool \<Rightarrow> RDMA_OP" where
  "bio_op w = (if w then RDMA_WRITE else RDMA_READ)"

abbreviation (input) EIO :: int where
  "EIO \<equiv> 5"

section \<open>The device\<close>

text \<open>
  \<open>wrs\<close> and \<open>sges\<close> exist with \<open>COPY_LESS\<close>, \<open>dev_rdma_req\<close> without it in the
  synchronous mode, and in the other modes \<open>dev_req_arr\<close>, a circular array of
  pointers to request arrays whose storage is \<open>dev_req_heap\<close>.
\<close>

record rmem_device =
  dev_size :: u64
  arr_lock :: bool
  major_num :: int
  dev_ctx :: rdma_ctx
  wrs :: "ib_send_wr list"
  sges :: "ib_sge list"
  dev_rdma_req :: "rdma_request list"
  dev_req_arr :: "ptr list"
  dev_req_heap :: "ptr \<rightharpoonup> rdma_request list"
  dev_head :: int
  dev_tail :: int
  blk_req :: "ptr list"

section \<open>What a queue of requests asks of a disk\<close>

text \<open>
  The specification. A disk writes the bytes of a buffer to its place, or reads them from
  there; the buffers of a bio lie on the disk one behind the other, from the bio's first
  sector on; bios and requests are done in order, and only requests of the file system
  ask for anything. Nothing here is taken from the driver.
\<close>

fun disk_copy :: "bool \<Rightarrow> ptr \<Rightarrow> u64 \<Rightarrow> nat \<Rightarrow> mem \<Rightarrow> mem" where
  "disk_copy True buf off n m = m\<lparr>rmem := copy_bytes (lmem m) buf (rmem m) off n\<rparr>"
| "disk_copy False buf off n m = m\<lparr>lmem := copy_bytes (rmem m) off (lmem m) buf n\<rparr>"

fun disk_vecs :: "bool \<Rightarrow> u64 \<Rightarrow> bio_vec list \<Rightarrow> mem \<Rightarrow> mem" where
  "disk_vecs w off [] m = m"
| "disk_vecs w off (v # vs) m =
     disk_vecs w (off + ucast (bv_len v)) vs (disk_copy w (bv_buf v) off (unat (bv_len v)) m)"

definition disk_bio :: "bio \<Rightarrow> mem \<Rightarrow> mem" where
  "disk_bio b = disk_vecs (bi_write b) (bi_sector b * 512) (bi_io_vec b)"

definition disk_queue :: "request list \<Rightarrow> mem \<Rightarrow> mem" where
  "disk_queue rqs = fold (\<lambda>rq. fold disk_bio (rq_bios rq)) (filter rq_fs rqs)"

section \<open>The transfers of the driver\<close>

text \<open>
  One transfer for each segment of a bio, with remote addresses relative to the start
  of the device: the sector advances by the whole sectors of each segment.
\<close>

fun bio_xfers :: "verbs \<Rightarrow> bool \<Rightarrow> u64 \<Rightarrow> bio_seg list \<Rightarrow> xfer list" where
  "bio_xfers V w sector [] = []"
| "bio_xfers V w sector (s # ss) =
     Xfer (opcode_of (bio_op w)) (rdma_map_address V (seg_buf s) (seg_bytes s)) (sector * 512)
       (unat (seg_bytes s)) #
     bio_xfers V w (sector + drop_bit 9 (ucast (seg_bytes s))) ss"

definition req_xfers :: "verbs \<Rightarrow> request \<Rightarrow> xfer list" where
  "req_xfers V rq = concat (map (\<lambda>b. bio_xfers V (bi_write b) (bi_sector b) (bi_segs b)) (rq_bios rq))"

definition queue_xfers :: "verbs \<Rightarrow> request list \<Rightarrow> xfer list" where
  "queue_xfers V rqs = concat (map (req_xfers V) (filter rq_fs rqs))"

lemma queue_xfers_simps [simp]:
  "queue_xfers V [] = []"
  "rq_fs rq \<Longrightarrow> queue_xfers V (rq # rqs) = req_xfers V rq @ queue_xfers V rqs"
  "\<not> rq_fs rq \<Longrightarrow> queue_xfers V (rq # rqs) = queue_xfers V rqs"
  by (simp_all add: queue_xfers_def)

text \<open>
  When these transfers are what the disk is asked for. \<open>dma_reaches\<close> is what the DMA
  interface documents: a bus address that a mapping of \<open>n\<close> bytes gives reaches these
  bytes of the buffer. The mappings of a plain bio succeed, and all its buffers are as
  long as \<open>bio_cur_bytes\<close> says and consist of whole sectors.
\<close>

definition dma_reaches :: "verbs \<Rightarrow> (u64 \<Rightarrow> u64) \<Rightarrow> bool" where
  "dma_reaches V io \<longleftrightarrow> (\<forall>p n a. dma_map V p n = Some a \<longrightarrow> reaches io a p (nat n))"

definition bio_plain :: "bio \<Rightarrow> bool" where
  "bio_plain b \<longleftrightarrow> 512 dvd unat (bi_cur_bytes b) \<and> unat (bi_cur_bytes b) < 2 ^ 31 \<and>
     (\<forall>v \<in> set (bi_io_vec b). bv_len v = bi_cur_bytes b)"

definition bio_mapped :: "verbs \<Rightarrow> bio \<Rightarrow> bool" where
  "bio_mapped V b \<longleftrightarrow> (\<forall>v \<in> set (bi_io_vec b). dma_map V (bv_buf v) (uint (bi_cur_bytes b)) \<noteq> None)"

definition all_bios :: "(bio \<Rightarrow> bool) \<Rightarrow> request list \<Rightarrow> bool" where
  "all_bios P rqs \<longleftrightarrow> (\<forall>rq \<in> set rqs. rq_fs rq \<longrightarrow> (\<forall>b \<in> set (rq_bios rq). P b))"

lemma all_bios_simps [simp]:
  "all_bios P []"
  "all_bios P (rq # rqs) \<longleftrightarrow> (rq_fs rq \<longrightarrow> (\<forall>b \<in> set (rq_bios rq). P b)) \<and> all_bios P rqs"
  by (auto simp: all_bios_def)

lemma sint_u32_small:
  assumes "unat (n :: u32) < 2 ^ 31"
  shows "sint n = uint n"
proof -
  have "uint n < 2 ^ 31"
    using assms by (metis of_nat_less_iff of_nat_numeral of_nat_power uint_nat)
  moreover have "- (2 ^ 31) \<le> uint n"
    by (rule order_trans [of _ 0]) simp_all
  ultimately show ?thesis
    unfolding sint_uint by (intro signed_take_bit_int_eq_self) simp_all
qed

lemma mapped_reaches:
  assumes "dma_reaches V io" and "dma_map V p (uint n) \<noteq> None" and "unat (n :: u32) < 2 ^ 31"
  shows "reaches io (rdma_map_address V p n) p (unat n)"
proof -
  obtain a where a: "dma_map V p (uint n) = Some a"
    using assms(2) by blast
  with assms(1) have "reaches io a p (nat (uint n))"
    unfolding dma_reaches_def by blast
  then show ?thesis
    using a by (simp add: rdma_map_address_def sint_u32_small [OF assms(3)])
qed

text \<open>A transfer that stands for a buffer does what the disk is asked for.\<close>

definition stands :: "(u64 \<Rightarrow> u64) \<Rightarrow> bool \<Rightarrow> ptr \<Rightarrow> u64 \<Rightarrow> nat \<Rightarrow> xfer \<Rightarrow> bool" where
  "stands io w p off n x \<longleftrightarrow> x_op x = (if w then IB_WR_RDMA_WRITE else IB_WR_RDMA_READ) \<and>
     reaches io (x_local x) p n \<and> x_remote x = off \<and> x_bytes x = n"

lemma stands_exec:
  assumes "stands io w p off n x" and "n \<le> 2 ^ 64"
  shows "run_xfers (card_exec io) [x] m = disk_copy w p off n m"
  using assms by (cases x; cases w) (auto simp: stands_def card_exec_write card_exec_read)

lemma opcode_of_bio_op_cases: "opcode_of (bio_op w) = (if w then IB_WR_RDMA_WRITE else IB_WR_RDMA_READ)"
  by (simp add: opcode_of_def bio_op_def)

lemma sector_bytes:
  fixes sector :: u64 and n :: u32
  assumes "512 dvd unat n"
  shows "(sector + drop_bit 9 (ucast n)) * 512 = sector * 512 + ucast n"
proof -
  obtain k where k: "unat n = k * 512"
    using assms by (metis dvd_div_mult_self)
  then have "k * 512 < 2 ^ 64" "k < 2 ^ 64"
    using unat_u32_bound [of n] by simp_all
  have n: "(ucast n :: u64) = of_nat (k * 512)"
    by (simp add: word_unat_eq_iff unat_of_nat flip: k)
  have "unat (drop_bit 9 (of_nat (k * 512) :: u64)) = k"
    unfolding unat_drop_bit_eq using \<open>k * 512 < 2 ^ 64\<close> by (simp add: unat_of_nat drop_bit_eq_div del: of_nat_mult)
  then have "drop_bit 9 (of_nat (k * 512) :: u64) = of_nat k"
    using \<open>k < 2 ^ 64\<close> by (simp add: word_unat_eq_iff unat_of_nat)
  then show ?thesis
    unfolding n by (simp add: algebra_simps)
qed

lemma vecs_disk:
  assumes "dma_reaches V io" and "512 dvd unat n" and "unat n < 2 ^ 31"
    and "\<forall>v \<in> set vs. bv_len v = n \<and> dma_map V (bv_buf v) (uint n) \<noteq> None"
  shows "run_xfers (card_exec io) (bio_xfers V w sector (map (\<lambda>v. \<lparr>seg_buf = bv_buf v, seg_bytes = n\<rparr>) vs)) m =
    disk_vecs w (sector * 512) vs m"
  using assms(4)
proof (induction vs arbitrary: sector m)
  case (Cons v vs)
  let ?x = "Xfer (opcode_of (bio_op w)) (rdma_map_address V (bv_buf v) n) (sector * 512) (unat n)"
  have "stands io w (bv_buf v) (sector * 512) (unat n) ?x"
    using mapped_reaches [OF assms(1) _ assms(3), of "bv_buf v"] Cons.prems
    by (simp add: stands_def opcode_of_bio_op_cases)
  then have "run_xfers (card_exec io) [?x] m = disk_copy w (bv_buf v) (sector * 512) (unat n) m"
    by (rule stands_exec) (use assms(3) in simp)
  then show ?case
    using Cons.IH [of "sector + drop_bit 9 (ucast n)"] Cons.prems sector_bytes [OF assms(2)] by simp
qed simp

lemma bio_disk:
  assumes "dma_reaches V io" and "bio_plain b" and "bio_mapped V b"
  shows "run_xfers (card_exec io) (bio_xfers V (bi_write b) (bi_sector b) (bi_segs b)) = disk_bio b"
  unfolding bi_segs_def disk_bio_def
  using assms by (intro ext vecs_disk) (auto simp: bio_plain_def bio_mapped_def)

lemma bios_disk:
  assumes "dma_reaches V io" and "\<forall>b \<in> set bs. bio_plain b" and "\<forall>b \<in> set bs. bio_mapped V b"
  shows "run_xfers (card_exec io) (concat (map (\<lambda>b. bio_xfers V (bi_write b) (bi_sector b) (bi_segs b)) bs)) m =
    fold disk_bio bs m"
  using assms(2,3) by (induction bs arbitrary: m) (simp_all add: run_xfers_append bio_disk [OF assms(1)])

lemma queue_disk:
  assumes "dma_reaches V io" and "all_bios bio_plain rqs" and "all_bios (bio_mapped V) rqs"
  shows "run_xfers (card_exec io) (queue_xfers V rqs) m = disk_queue rqs m"
  using assms(2,3)
proof (induction rqs arbitrary: m)
  case (Cons rq rqs)
  then show ?case
    using bios_disk [OF assms(1)]
    by (cases "rq_fs rq") (simp_all add: run_xfers_append req_xfers_def disk_queue_def)
qed (simp add: disk_queue_def)

section \<open>Batching\<close>

text \<open>
  The reference for the batching loops: a transfer joins the last one of the
  current batch when merging is on and it continues it on both sides, and starts
  a new work request otherwise; a batch of \<open>MAX_REQ\<close> work requests is sent.
  Lengths are 32-bit in the code.
\<close>

definition adjacent :: "xfer \<Rightarrow> xfer \<Rightarrow> bool" where
  "adjacent x y \<longleftrightarrow> x_op x = x_op y \<and> x_local x + of_nat (x_bytes x) = x_local y \<and>
     x_remote x + of_nat (x_bytes x) = x_remote y"

definition join :: "xfer \<Rightarrow> xfer \<Rightarrow> xfer" where
  "join x y = Xfer (x_op x) (x_local x) (x_remote x) ((x_bytes x + x_bytes y) mod 2 ^ 32)"

definition batch_join :: "conf \<Rightarrow> xfer list \<Rightarrow> xfer \<Rightarrow> xfer list" where
  "batch_join C cur x =
     (if MERGE_REQ C \<and> cur \<noteq> [] \<and> adjacent (last cur) x
      then butlast cur @ [join (last cur) x] else cur @ [x])"

fun batch_fold :: "conf \<Rightarrow> xfer list \<Rightarrow> xfer list \<Rightarrow> xfer list list \<times> xfer list" where
  "batch_fold C [] cur = ([], cur)"
| "batch_fold C (x # xs) cur =
     (let c = batch_join C cur x in
      if MAX_REQ C \<le> length c
      then (c # fst (batch_fold C xs []), snd (batch_fold C xs []))
      else batch_fold C xs c)"

definition batches :: "conf \<Rightarrow> xfer list \<Rightarrow> xfer list list" where
  "batches C xs = fst (batch_fold C xs []) @
     (if snd (batch_fold C xs []) = [] then [] else [snd (batch_fold C xs [])])"

lemma batch_fold_append:
  "batch_fold C (xs @ ys) cur =
     (fst (batch_fold C xs cur) @ fst (batch_fold C ys (snd (batch_fold C xs cur))),
      snd (batch_fold C ys (snd (batch_fold C xs cur))))"
  by (induction C xs cur rule: batch_fold.induct) (auto simp: Let_def)

lemma batch_join_nonempty [simp]: "batch_join C cur x \<noteq> []"
  by (simp add: batch_join_def)

lemma length_batch_join: "length (batch_join C cur x) \<le> Suc (length cur)"
  by (auto simp: batch_join_def)

text \<open>No batch is longer than \<open>MAX_REQ\<close>, and every batch sends something.\<close>

lemma batch_fold_bounds:
  assumes "length cur < MAX_REQ C"
  shows "(\<forall>b \<in> set (fst (batch_fold C xs cur)). length b = MAX_REQ C) \<and>
    length (snd (batch_fold C xs cur)) < MAX_REQ C"
  using assms
proof (induction C xs cur rule: batch_fold.induct)
  case (2 C x xs cur)
  have le: "length (batch_join C cur x) \<le> MAX_REQ C"
    using length_batch_join [of C cur x] "2.prems" by simp
  show ?case
  proof (cases "MAX_REQ C \<le> length (batch_join C cur x)")
    case True
    with le "2.IH"(1) [OF refl True] "2.prems" show ?thesis by (simp add: Let_def)
  next
    case False
    then show ?thesis using "2.IH"(3) [OF refl False] by (simp add: Let_def)
  qed
qed simp

lemma batches_bounds:
  assumes "0 < MAX_REQ C" and "b \<in> set (batches C xs)"
  shows "0 < length b \<and> length b \<le> MAX_REQ C"
  using batch_fold_bounds [of "[]" C xs] assms
  by (auto simp: batches_def split: if_splits)

text \<open>Without merging the batches are the transfers cut into pieces.\<close>

lemma batch_fold_concat:
  "\<not> MERGE_REQ C \<Longrightarrow> concat (fst (batch_fold C xs cur)) @ snd (batch_fold C xs cur) = cur @ xs"
  by (induction C xs cur rule: batch_fold.induct) (auto simp: Let_def batch_join_def)

lemma concat_batches_fold:
  "concat (batches C xs) = concat (fst (batch_fold C xs [])) @ snd (batch_fold C xs [])"
  by (simp add: batches_def)

lemma concat_batches: "\<not> MERGE_REQ C \<Longrightarrow> concat (batches C xs) = xs"
  using batch_fold_concat [of C xs "[]"] by (simp add: concat_batches_fold)

text \<open>
  With merging they do the same transfers, as long as the merged lengths do not
  overflow their 32 bits.
\<close>

abbreviation total_bytes :: "xfer list \<Rightarrow> nat" where
  "total_bytes xs \<equiv> sum_list (map x_bytes xs)"

lemma coalesce_total_bytes: "coalesce xs ys \<Longrightarrow> total_bytes ys = total_bytes xs"
  by (induction rule: coalesce.induct) auto

lemma coalesce_batch_join:
  assumes co: "coalesce zs (pre @ cur)" and small: "total_bytes (zs @ [x]) < 2 ^ 32"
  shows "coalesce (zs @ [x]) (pre @ batch_join C cur x)"
proof (cases "MERGE_REQ C \<and> cur \<noteq> [] \<and> adjacent (last cur) x")
  case True
  obtain w a r n where l: "last cur = Xfer w a r n"
    by (cases "last cur")
  define k where "k = x_bytes x"
  from True l have x: "x = Xfer w (a + of_nat n) (r + of_nat n) k"
    by (cases x) (auto simp: adjacent_def k_def)
  have cur: "cur = butlast cur @ [Xfer w a r n]"
    using True l by (metis append_butlast_last_id)
  have "n \<le> total_bytes (pre @ cur)"
    by (subst cur) simp
  then have bound: "n + k < 2 ^ 32"
    using coalesce_total_bytes [OF co] small by (simp add: k_def)
  have "coalesce zs ((pre @ butlast cur) @ [Xfer w a r n])"
    using co cur by (metis append_assoc)
  from coalesce_merge [OF this, of k] bound
  have "coalesce (zs @ [x]) (pre @ butlast cur @ [Xfer w a r (n + k)])"
    by (simp add: x)
  moreover have "batch_join C cur x = butlast cur @ [Xfer w a r (n + k)]"
    using True l bound by (simp add: batch_join_def join_def k_def)
  ultimately show ?thesis by simp
next
  case False
  then have "batch_join C cur x = cur @ [x]"
    unfolding batch_join_def by (rule if_not_P)
  then show ?thesis
    using coalesce_app [OF co, of "[x]"] by simp
qed

lemma coalesce_batch_fold:
  assumes "coalesce zs (pre @ cur)" and "total_bytes (zs @ xs) < 2 ^ 32"
  shows "coalesce (zs @ xs) (pre @ concat (fst (batch_fold C xs cur)) @ snd (batch_fold C xs cur))"
  using assms
proof (induction C xs cur arbitrary: zs pre rule: batch_fold.induct)
  case (2 C x xs cur)
  have join: "coalesce (zs @ [x]) (pre @ batch_join C cur x)"
    using "2.prems" by (intro coalesce_batch_join) simp_all
  show ?case
  proof (cases "MAX_REQ C \<le> length (batch_join C cur x)")
    case True
    then show ?thesis
      using "2.IH"(1) [OF refl True, of "zs @ [x]" "pre @ batch_join C cur x"] join "2.prems"(2)
      by (simp add: Let_def)
  next
    case False
    then show ?thesis
      using "2.IH"(3) [OF refl False, of "zs @ [x]" pre] join "2.prems"(2) by (simp add: Let_def)
  qed
qed simp

lemma coalesce_batches: "total_bytes xs < 2 ^ 32 \<Longrightarrow> coalesce xs (concat (batches C xs))"
  using coalesce_batch_fold [of "[]" "[]" "[]" xs C] coalesce_refl
  by (simp add: concat_batches_fold)

text \<open>
  Whatever the configuration, doing the batches is doing the transfers.
\<close>

lemma run_batches:
  assumes "MERGE_REQ C \<longrightarrow> total_bytes xs < 2 ^ 32"
  shows "run_xfers (card_exec io) (concat (batches C xs)) m = run_xfers (card_exec io) xs m"
  using assms concat_batches [of C xs] card.run_coalesce coalesce_batches by (cases "MERGE_REQ C") auto

end
