(* ===== verification/Request_Sync.thy ===== *)
theory Request_Sync
  imports Block
begin

text \<open>
  The synchronous request function \<open>rmem_request_sync\<close> of \<open>src/rmem.c\<close> (lines 217
  to 361), the mode the repository ships: it drains the queue, turns every
  segment into a work request, sends batches of up to \<open>MAX_REQ\<close> of them, waits for
  each batch, and only then ends the block requests. Both variants of its inner
  loop are here: \<open>COPY_LESS\<close>, which builds the work requests in the device's own
  arrays, and the other one, which fills an array of \<open>rdma_request\<close>.
\<close>

section \<open>The code\<close>

record sync_state =
  ss_dev :: rmem_device
  ss_count :: nat
  ss_tr :: "io_event list"
  ss_polls :: "poll list"

text \<open>
  Sending the batch built so far with \<open>COPY_LESS\<close> (lines 289 to 300 and 338 to
  349). The code drops the return code of \<open>ib_post_send\<close>, but it also hands over a
  pointer \<open>bad_wr\<close> that was never set: a card that refuses a request writes its address
  through it. \<open>lat\<close> says whether the place that sends stamps the first request with the
  cycle counter.
\<close>

definition stamp_first :: "verbs \<Rightarrow> bool \<Rightarrow> sync_state \<Rightarrow> ib_send_wr list \<Rightarrow> ib_send_wr list result" where
  "stamp_first V lat s ws =
     (if lat \<and> ss_count s = 1
      then bindR (arr_get ws 0) (\<lambda>w.
           bindR (case wr_sg_list w of None \<Rightarrow> Inl Null_Deref
                  | Some j \<Rightarrow> arr_get (sges (ss_dev s)) (int j)) (\<lambda>sg.
           Inr (if sge_length sg = 4096 then ws[0 := w\<lparr>wr_id := rdtsc V (ss_tr s)\<rparr>] else ws)))
      else Inr ws)"

definition send_wrs :: "conf \<Rightarrow> verbs \<Rightarrow> bool \<Rightarrow> sync_state \<Rightarrow> sync_state result" where
  "send_wrs C V lat s =
     (let d = ss_dev s; n = int (ss_count s) in
      bindR (if SIMPLE_MAKE_WR C
             then bindR (arr_get (wrs d) (n - 1)) (\<lambda>w. arr_set (wrs d) (n - 1) (w\<lparr>wr_next := None\<rparr>))
             else Inr (wrs d)) (\<lambda>ws.
      let ctx = (dev_ctx d)\<lparr>outstanding_requests := of_int n\<rparr> in
      bindR (stamp_first V lat s ws) (\<lambda>ws'.
      bindR (ib_post_send V (ss_tr s) ws' (sges d)) (\<lambda>(rc, tr).
      bindR (assertR (rc = 0) Wild_Write) (\<lambda>_.
      bindR (poll_cq C V (ss_polls s) ctx tr) (\<lambda>(ctx', tr', rs').
      Inr (s\<lparr>ss_dev := d\<lparr>wrs := ws', dev_ctx := ctx'\<rparr>, ss_count := 0, ss_tr := tr',
             ss_polls := rs'\<rparr>)))))))"

text \<open>One segment with \<open>COPY_LESS\<close> (lines 266 to 301).\<close>

definition put_wr :: "conf \<Rightarrow> verbs \<Rightarrow> bool \<Rightarrow> u64 \<Rightarrow> bio_seg \<Rightarrow> sync_state \<Rightarrow> sync_state result" where
  "put_wr C V w sector seg s =
     (let d = ss_dev s; n = ss_count s; ctx = dev_ctx d; curr_length = seg_bytes seg;
          dma = rdma_map_address V (seg_buf seg) curr_length in
      bindR (arr_get (wrs d) (int n)) (\<lambda>wr0.
      bindR (arr_get (sges d) (int n)) (\<lambda>sg0.
      bindR (if SIMPLE_MAKE_WR C
             then Inr (simple_make_wr C ctx wr0 sg0 (bio_op w) dma (sector * 512) curr_length NULL)
             else make_wr C ctx n (bio_op w) dma (sector * 512) curr_length NULL) (\<lambda>(wr, sg).
      let ws = (wrs d)[n := wr]; gs = (sges d)[n := sg];
          m = merge_wr (ws ! (n - 1)) (gs ! (n - 1)) wr sg in
      Inr (if MERGE_REQ C \<and> n > 0 \<and> fst m
           then s\<lparr>ss_dev := d\<lparr>wrs := ws, sges := gs[n - 1 := snd m]\<rparr>\<rparr>
           else s\<lparr>ss_dev := d\<lparr>wrs := (if n > 0 then ws[n - 1 := (ws ! (n - 1))\<lparr>wr_next := Some n\<rparr>]
                                       else ws), sges := gs\<rparr>,
                  ss_count := n + 1\<rparr>)))))"

definition sync_segment_copyless ::
    "conf \<Rightarrow> verbs \<Rightarrow> bool \<Rightarrow> u64 \<Rightarrow> bio_seg \<Rightarrow> sync_state \<Rightarrow> sync_state result" where
  "sync_segment_copyless C V w sector seg s =
     bindR (put_wr C V w sector seg s) (\<lambda>s'.
     if ss_count s' \<ge> MAX_REQ C
     then send_wrs C V (MEASURE_LATENCY C \<and> MAX_REQ C = 1) s' else Inr s')"

text \<open>One segment without \<open>COPY_LESS\<close> (lines 303 to 326), and sending its batch.\<close>

definition send_reqs :: "conf \<Rightarrow> verbs \<Rightarrow> sync_state \<Rightarrow> sync_state result" where
  "send_reqs C V s =
     bindR (rdma_op C V (ss_polls s) (dev_ctx (ss_dev s)) (ss_tr s) (dev_rdma_req (ss_dev s)) (ss_count s))
       (\<lambda>(ret, ctx', tr', rs').
     Inr (s\<lparr>ss_dev := (ss_dev s)\<lparr>dev_ctx := ctx'\<rparr>, ss_count := 0, ss_tr := tr', ss_polls := rs'\<rparr>))"

definition mergeable :: "rdma_request \<Rightarrow> rdma_request \<Rightarrow> bool" where
  "mergeable prev cur \<longleftrightarrow> rr_rw cur = rr_rw prev \<and>
     rr_dma_addr prev + ucast (rr_length prev) = rr_dma_addr cur \<and>
     rr_remote_offset prev + ucast (rr_length prev) = rr_remote_offset cur"

definition put_req :: "conf \<Rightarrow> verbs \<Rightarrow> bool \<Rightarrow> u64 \<Rightarrow> bio_seg \<Rightarrow> sync_state \<Rightarrow> sync_state result" where
  "put_req C V w sector seg s =
     (let d = ss_dev s; n = ss_count s in
      bindR (arr_get (dev_rdma_req d) (int n)) (\<lambda>r0.
      let cur = r0\<lparr>rr_rw := bio_op w, rr_length := seg_bytes seg,
                   rr_dma_addr := rdma_map_address V (seg_buf seg) (seg_bytes seg),
                   rr_remote_offset := sector * 512\<rparr>;
          rq = (dev_rdma_req d)[n := cur]; prev = rq ! (n - 1) in
      Inr (if MERGE_REQ C \<and> n > 0 \<and> mergeable prev cur
           then s\<lparr>ss_dev := d\<lparr>dev_rdma_req := rq[n - 1 := prev\<lparr>rr_length := rr_length prev + rr_length cur\<rparr>]\<rparr>\<rparr>
           else s\<lparr>ss_dev := d\<lparr>dev_rdma_req := rq\<rparr>, ss_count := n + 1\<rparr>)))"

definition sync_segment_array ::
    "conf \<Rightarrow> verbs \<Rightarrow> bool \<Rightarrow> u64 \<Rightarrow> bio_seg \<Rightarrow> sync_state \<Rightarrow> sync_state result" where
  "sync_segment_array C V w sector seg s =
     bindR (put_req C V w sector seg s) (\<lambda>s'.
     if ss_count s' \<ge> MAX_REQ C then send_reqs C V s' else Inr s')"

text \<open>
  The loops over segments, bios and requests, which both variants share; \<open>step\<close>
  is the segment step of the variant.
\<close>

fun sync_segs :: "(bool \<Rightarrow> u64 \<Rightarrow> bio_seg \<Rightarrow> sync_state \<Rightarrow> sync_state result) \<Rightarrow> bool \<Rightarrow> u64 \<Rightarrow>
    bio_seg list \<Rightarrow> sync_state \<Rightarrow> sync_state result" where
  "sync_segs step w sector [] s = Inr s"
| "sync_segs step w sector (seg # segs) s =
     bindR (step w sector seg s) (\<lambda>s'.
     sync_segs step w (sector + drop_bit 9 (ucast (seg_bytes seg))) segs s')"

fun sync_bios :: "(bool \<Rightarrow> u64 \<Rightarrow> bio_seg \<Rightarrow> sync_state \<Rightarrow> sync_state result) \<Rightarrow> bio list \<Rightarrow>
    sync_state \<Rightarrow> sync_state result" where
  "sync_bios step [] s = Inr s"
| "sync_bios step (b # bs) s =
     bindR (sync_segs step (bi_write b) (bi_sector b) (bi_segs b) s) (sync_bios step bs)"

fun sync_requests :: "(bool \<Rightarrow> u64 \<Rightarrow> bio_seg \<Rightarrow> sync_state \<Rightarrow> sync_state result) \<Rightarrow> request list \<Rightarrow>
    nat \<Rightarrow> sync_state \<Rightarrow> (nat \<times> sync_state) result" where
  "sync_requests step [] blk_req_count s = Inr (blk_req_count, s)"
| "sync_requests step (rq # rqs) blk_req_count s =
     (if \<not> rq_fs rq
      then sync_requests step rqs blk_req_count
             (s\<lparr>ss_tr := ss_tr s @ [End_Request (rq_at rq) (- EIO) (rq_cur_bytes rq)]\<rparr>)
      else bindR (arr_set (blk_req (ss_dev s)) (int blk_req_count) (rq_at rq)) (\<lambda>b.
           bindR (sync_bios step (rq_bios rq) (s\<lparr>ss_dev := (ss_dev s)\<lparr>blk_req := b\<rparr>\<rparr>)) (\<lambda>s'.
           sync_requests step rqs (blk_req_count + 1) s')))"

text \<open>
  The whole function: the queue, the device and the answers of the completion
  queue; the device, the events and the answers left over.
\<close>

definition rmem_request_sync :: "conf \<Rightarrow> verbs \<Rightarrow> poll list \<Rightarrow> rmem_device \<Rightarrow> request list \<Rightarrow>
    io_event list \<Rightarrow> (rmem_device \<times> io_event list \<times> poll list) result" where
  "rmem_request_sync C V rs dev rqs tr =
     (let s0 = \<lparr>ss_dev = dev, ss_count = 0, ss_tr = tr, ss_polls = rs\<rparr>;
          step = (if COPY_LESS C then sync_segment_copyless C V else sync_segment_array C V);
          send = (if COPY_LESS C then send_wrs C V (MEASURE_LATENCY C) else send_reqs C V) in
      bindR (sync_requests step rqs 0 s0) (\<lambda>(blk_req_count, s).
      bindR (if ss_count s > 0 then send s else Inr s) (\<lambda>s'.
      Inr (ss_dev s',
           ss_tr s' @ map (\<lambda>r. End_Request_All r 0) (take blk_req_count (blk_req (ss_dev s'))),
           ss_polls s'))))"

section \<open>What a variant promises\<close>

text \<open>
  The work request for a transfer of the synchronous mode.
\<close>

definition posted_xfer :: "rdma_ctx \<Rightarrow> u32 \<Rightarrow> xfer \<Rightarrow> posted" where
  "posted_xfer ctx lkey x = \<lparr> p_op = x_op x, p_wr_id = 0, p_num_sge = 1, p_addr = x_local x,
     p_length = of_nat (x_bytes x), p_lkey = lkey, p_signaled = True,
     p_remote_addr = rem_vaddr ctx + x_remote x, p_rkey = rem_rkey ctx \<rparr>"

text \<open>
  A stretch of the run that posts \<open>ps\<close>, completes what it posts, ends no block
  request and leaves answers good for the batch sizes \<open>ns\<close>.
\<close>

definition advance :: "sync_state \<Rightarrow> sync_state \<Rightarrow> posted list list \<Rightarrow> nat list \<Rightarrow> bool" where
  "advance s s' ps ns \<longleftrightarrow> posts_of (ss_tr s') = posts_of (ss_tr s) @ ps \<and>
     in_flight (ss_tr s') = in_flight (ss_tr s) \<and>
     filter is_end (ss_tr s') = filter is_end (ss_tr s) \<and>
     blk_req (ss_dev s') = blk_req (ss_dev s) \<and> serves ns (ss_polls s')"

lemma advance_trans:
  "advance s s1 ps ms \<Longrightarrow> advance s1 s2 qs ns \<Longrightarrow> advance s s2 (ps @ qs) ns"
  by (simp add: advance_def)

abbreviation seg_xfer :: "verbs \<Rightarrow> bool \<Rightarrow> u64 \<Rightarrow> bio_seg \<Rightarrow> xfer" where
  "seg_xfer V w sector seg \<equiv> Xfer (opcode_of (bio_op w))
     (rdma_map_address V (seg_buf seg) (seg_bytes seg)) (sector * 512) (unat (seg_bytes seg))"

text \<open>
  The contract of a variant's segment step and of its sending: \<open>rel s cur\<close> says
  that the state holds the batch \<open>cur\<close>, \<open>shape\<close> how a batch is posted.
\<close>

locale sync_batcher =
  fixes C :: conf
    and V :: verbs
    and rel :: "sync_state \<Rightarrow> xfer list \<Rightarrow> bool"
    and step :: "bool \<Rightarrow> u64 \<Rightarrow> bio_seg \<Rightarrow> sync_state \<Rightarrow> sync_state result"
    and send :: "sync_state \<Rightarrow> sync_state result"
    and shape :: "xfer list \<Rightarrow> posted list list"
  assumes rel_count: "rel s cur \<Longrightarrow> ss_count s = length cur"
    and rel_frame: "rel (s\<lparr>ss_dev := (ss_dev s)\<lparr>blk_req := b\<rparr>, ss_tr := t\<rparr>) cur \<longleftrightarrow> rel s cur"
    and step_ok: "rel s cur \<Longrightarrow> c = batch_join C cur (seg_xfer V w sector seg) \<Longrightarrow>
      serves ((if MAX_REQ C \<le> length c then [length c] else []) @ ns) (ss_polls s) \<Longrightarrow>
      \<exists>s'. step w sector seg s = Inr s' \<and>
        advance s s' (if MAX_REQ C \<le> length c then shape c else []) ns \<and>
        rel s' (if MAX_REQ C \<le> length c then [] else c)"
    and send_ok: "rel s cur \<Longrightarrow> cur \<noteq> [] \<Longrightarrow> serves (length cur # ns) (ss_polls s) \<Longrightarrow>
      \<exists>s'. send s = Inr s' \<and> advance s s' (shape cur) ns \<and> rel s' []"
begin

lemma segs_ok:
  assumes "rel s cur"
    and "serves (map length (fst (batch_fold C (bio_xfers V w sector segs) cur)) @ ns) (ss_polls s)"
  shows "\<exists>s'. sync_segs step w sector segs s = Inr s' \<and>
    advance s s' (concat (map shape (fst (batch_fold C (bio_xfers V w sector segs) cur)))) ns \<and>
    rel s' (snd (batch_fold C (bio_xfers V w sector segs) cur))"
  using assms
proof (induction segs arbitrary: s cur sector)
  case Nil
  then show ?case by (simp add: advance_def)
next
  case (Cons seg segs)
  let ?c = "batch_join C cur (seg_xfer V w sector seg)"
  let ?cur = "if MAX_REQ C \<le> length ?c then [] else ?c"
  let ?rest = "bio_xfers V w (sector + drop_bit 9 (ucast (seg_bytes seg))) segs"
  have fold: "fst (batch_fold C (bio_xfers V w sector (seg # segs)) cur) =
      (if MAX_REQ C \<le> length ?c then [?c] else []) @ fst (batch_fold C ?rest ?cur)"
    "snd (batch_fold C (bio_xfers V w sector (seg # segs)) cur) = snd (batch_fold C ?rest ?cur)"
    by (simp_all add: Let_def)
  have "serves ((if MAX_REQ C \<le> length ?c then [length ?c] else []) @
      (map length (fst (batch_fold C ?rest ?cur)) @ ns)) (ss_polls s)"
    using Cons.prems(2) unfolding fold by (cases "MAX_REQ C \<le> length ?c") simp_all
  from step_ok [OF Cons.prems(1) refl this] obtain s1 where s1: "step w sector seg s = Inr s1"
      "advance s s1 (if MAX_REQ C \<le> length ?c then shape ?c else [])
        (map length (fst (batch_fold C ?rest ?cur)) @ ns)" "rel s1 ?cur"
    by blast
  then have "serves (map length (fst (batch_fold C ?rest ?cur)) @ ns) (ss_polls s1)"
    by (simp add: advance_def)
  from Cons.IH [OF s1(3) this] obtain s2 where s2:
      "sync_segs step w (sector + drop_bit 9 (ucast (seg_bytes seg))) segs s1 = Inr s2"
      "advance s1 s2 (concat (map shape (fst (batch_fold C ?rest ?cur)))) ns"
      "rel s2 (snd (batch_fold C ?rest ?cur))"
    by blast
  have "concat (map shape (fst (batch_fold C (bio_xfers V w sector (seg # segs)) cur))) =
      (if MAX_REQ C \<le> length ?c then shape ?c else []) @ concat (map shape (fst (batch_fold C ?rest ?cur)))"
    unfolding fold by simp
  then show ?case
    using s1(1) s2(1,3) advance_trans [OF s1(2) s2(2)] unfolding fold(2) by simp
qed

lemma bios_ok:
  assumes "rel s cur"
    and "serves (map length (fst (batch_fold C
      (concat (map (\<lambda>b. bio_xfers V (bi_write b) (bi_sector b) (bi_segs b)) bs)) cur)) @ ns) (ss_polls s)"
  shows "\<exists>s'. sync_bios step bs s = Inr s' \<and>
    advance s s' (concat (map shape (fst (batch_fold C
      (concat (map (\<lambda>b. bio_xfers V (bi_write b) (bi_sector b) (bi_segs b)) bs)) cur)))) ns \<and>
    rel s' (snd (batch_fold C
      (concat (map (\<lambda>b. bio_xfers V (bi_write b) (bi_sector b) (bi_segs b)) bs)) cur))"
  using assms
proof (induction bs arbitrary: s cur)
  case Nil
  then show ?case by (simp add: advance_def)
next
  case (Cons b bs)
  let ?x = "bio_xfers V (bi_write b) (bi_sector b) (bi_segs b)"
  let ?rest = "concat (map (\<lambda>b. bio_xfers V (bi_write b) (bi_sector b) (bi_segs b)) bs)"
  let ?cur = "snd (batch_fold C ?x cur)"
  have "serves (map length (fst (batch_fold C ?x cur)) @
      (map length (fst (batch_fold C ?rest ?cur)) @ ns)) (ss_polls s)"
    using Cons.prems(2) by (simp add: batch_fold_append)
  from segs_ok [OF Cons.prems(1) this] obtain s1 where s1:
      "sync_segs step (bi_write b) (bi_sector b) (bi_segs b) s = Inr s1"
      "advance s s1 (concat (map shape (fst (batch_fold C ?x cur))))
        (map length (fst (batch_fold C ?rest ?cur)) @ ns)" "rel s1 ?cur"
    by blast
  then have "serves (map length (fst (batch_fold C ?rest ?cur)) @ ns) (ss_polls s1)"
    by (simp add: advance_def)
  from Cons.IH [OF s1(3) this] obtain s2 where "sync_bios step bs s1 = Inr s2"
      "advance s1 s2 (concat (map shape (fst (batch_fold C ?rest ?cur)))) ns"
      "rel s2 (snd (batch_fold C ?rest ?cur))"
    by blast
  then show ?case
    using s1(1) advance_trans [OF s1(2)] by (simp add: batch_fold_append)
qed

lemma requests_ok:
  assumes "rel s cur"
    and "serves (map length (fst (batch_fold C (queue_xfers V rqs) cur)) @ ns) (ss_polls s)"
    and "k + length (filter rq_fs rqs) \<le> length (blk_req (ss_dev s))"
  shows "\<exists>s'. sync_requests step rqs k s = Inr (k + length (filter rq_fs rqs), s') \<and>
    rel s' (snd (batch_fold C (queue_xfers V rqs) cur)) \<and> serves ns (ss_polls s') \<and>
    posts_of (ss_tr s') = posts_of (ss_tr s) @
      concat (map shape (fst (batch_fold C (queue_xfers V rqs) cur))) \<and>
    in_flight (ss_tr s') = in_flight (ss_tr s) \<and>
    filter is_end (ss_tr s') = filter is_end (ss_tr s) @
      map (\<lambda>rq. End_Request (rq_at rq) (- EIO) (rq_cur_bytes rq)) (filter (\<lambda>rq. \<not> rq_fs rq) rqs) \<and>
    take (k + length (filter rq_fs rqs)) (blk_req (ss_dev s')) =
      take k (blk_req (ss_dev s)) @ map rq_at (filter rq_fs rqs)"
  using assms
proof (induction rqs arbitrary: s cur k)
  case Nil
  then show ?case by simp
next
  case (Cons rq rqs)
  show ?case
  proof (cases "rq_fs rq")
    case False
    let ?s = "s\<lparr>ss_tr := ss_tr s @ [End_Request (rq_at rq) (- EIO) (rq_cur_bytes rq)]\<rparr>"
    have "rel ?s cur"
      using rel_frame [where s = s and b = "blk_req (ss_dev s)" and cur = cur] Cons.prems(1) by simp
    from Cons.IH [OF this, of k] Cons.prems(2,3) False show ?thesis by auto
  next
    case True
    let ?b = "(blk_req (ss_dev s))[k := rq_at rq]"
    let ?s = "s\<lparr>ss_dev := (ss_dev s)\<lparr>blk_req := ?b\<rparr>\<rparr>"
    let ?x = "req_xfers V rq"
    let ?cur = "snd (batch_fold C ?x cur)"
    have k: "k < length (blk_req (ss_dev s))"
      using Cons.prems(3) True by simp
    have rel: "rel ?s cur"
      using rel_frame [where s = s and b = ?b and t = "ss_tr s" and cur = cur] Cons.prems(1) by simp
    have "serves (map length (fst (batch_fold C ?x cur)) @
        (map length (fst (batch_fold C (queue_xfers V rqs) ?cur)) @ ns)) (ss_polls ?s)"
      using Cons.prems(2) True by (simp add: batch_fold_append)
    from bios_ok [OF rel, of "rq_bios rq", folded req_xfers_def, OF this]
    obtain s1 where s1: "sync_bios step (rq_bios rq) ?s = Inr s1"
        "advance ?s s1 (concat (map shape (fst (batch_fold C ?x cur))))
          (map length (fst (batch_fold C (queue_xfers V rqs) ?cur)) @ ns)" "rel s1 ?cur"
      by blast
    then have b: "blk_req (ss_dev s1) = ?b"
        and sv: "serves (map length (fst (batch_fold C (queue_xfers V rqs) ?cur)) @ ns) (ss_polls s1)"
      by (simp_all add: advance_def)
    moreover have "Suc k + length (filter rq_fs rqs) \<le> length (blk_req (ss_dev s1))"
      using Cons.prems(3) True b by simp
    ultimately obtain s2 where s2: "sync_requests step rqs (Suc k) s1 = Inr (Suc k + length (filter rq_fs rqs), s2)"
        "rel s2 (snd (batch_fold C (queue_xfers V rqs) ?cur))" "serves ns (ss_polls s2)"
        "posts_of (ss_tr s2) = posts_of (ss_tr s1) @
          concat (map shape (fst (batch_fold C (queue_xfers V rqs) ?cur)))"
        "in_flight (ss_tr s2) = in_flight (ss_tr s1)"
        "filter is_end (ss_tr s2) = filter is_end (ss_tr s1) @
          map (\<lambda>rq. End_Request (rq_at rq) (- EIO) (rq_cur_bytes rq)) (filter (\<lambda>rq. \<not> rq_fs rq) rqs)"
        "take (Suc k + length (filter rq_fs rqs)) (blk_req (ss_dev s2)) =
          take (Suc k) (blk_req (ss_dev s1)) @ map rq_at (filter rq_fs rqs)"
      using Cons.IH [OF s1(3) sv] by blast
    have "take (Suc k) ?b = take k (blk_req (ss_dev s)) @ [rq_at rq]"
      using k by (simp add: take_Suc_conv_app_nth)
    then show ?thesis
      using True s1 s2 k b by (auto simp: batch_fold_append advance_def)
  qed
qed

text \<open>The whole function: all requests, then the last batch.\<close>

lemma run_ok:
  assumes "rel s []" and "serves (map length (batches C (queue_xfers V rqs))) (ss_polls s)"
    and "length (filter rq_fs rqs) \<le> length (blk_req (ss_dev s))"
  shows "\<exists>s1 s2. sync_requests step rqs 0 s = Inr (length (filter rq_fs rqs), s1) \<and>
    (if ss_count s1 > 0 then send s1 else Inr s1) = Inr s2 \<and> rel s2 [] \<and>
    take (length (filter rq_fs rqs)) (blk_req (ss_dev s2)) = map rq_at (filter rq_fs rqs) \<and>
    posts_of (ss_tr s2) = posts_of (ss_tr s) @ concat (map shape (batches C (queue_xfers V rqs))) \<and>
    in_flight (ss_tr s2) = in_flight (ss_tr s) \<and>
    filter is_end (ss_tr s2) = filter is_end (ss_tr s) @
      map (\<lambda>rq. End_Request (rq_at rq) (- EIO) (rq_cur_bytes rq)) (filter (\<lambda>rq. \<not> rq_fs rq) rqs)"
proof -
  let ?f = "batch_fold C (queue_xfers V rqs) []"
  let ?ns = "if snd ?f = [] then [] else [length (snd ?f)]"
  have "serves (map length (fst ?f) @ ?ns) (ss_polls s)"
    using assms(2) by (simp add: batches_def split: if_splits)
  from requests_ok [OF assms(1) this, of 0] assms(3)
  obtain s1 where s1: "sync_requests step rqs 0 s = Inr (length (filter rq_fs rqs), s1)"
      "rel s1 (snd ?f)" "serves ?ns (ss_polls s1)"
      "posts_of (ss_tr s1) = posts_of (ss_tr s) @ concat (map shape (fst ?f))"
      "in_flight (ss_tr s1) = in_flight (ss_tr s)"
      "filter is_end (ss_tr s1) = filter is_end (ss_tr s) @
        map (\<lambda>rq. End_Request (rq_at rq) (- EIO) (rq_cur_bytes rq)) (filter (\<lambda>rq. \<not> rq_fs rq) rqs)"
      "take (length (filter rq_fs rqs)) (blk_req (ss_dev s1)) = map rq_at (filter rq_fs rqs)"
    by auto
  show ?thesis
  proof (cases "snd ?f = []")
    case True
    then show ?thesis
      using s1 rel_count [OF s1(2)] by (auto simp: batches_def)
  next
    case False
    have "serves (length (snd ?f) # []) (ss_polls s1)"
      using s1(3) False by simp
    from send_ok [OF s1(2) False this] obtain s2 where s2: "send s1 = Inr s2"
        "advance s1 s2 (shape (snd ?f)) []" "rel s2 []"
      by blast
    then show ?thesis
      using s1 rel_count [OF s1(2)] False by (auto simp: batches_def advance_def)
  qed
qed

end

section \<open>The variant that builds work requests in place\<close>

text \<open>
  What \<open>rmem_init\<close> sets up once when \<open>SIMPLE_MAKE_WR\<close> is on, and no later step
  changes: entry \<open>i\<close> points to its own scatter entry and carries the keys.
\<close>

definition wr_ready :: "rdma_ctx \<Rightarrow> u32 \<Rightarrow> nat \<Rightarrow> ib_send_wr \<Rightarrow> ib_sge \<Rightarrow> bool" where
  "wr_ready ctx lkey i wr sg \<longleftrightarrow> wr_sg_list wr = Some i \<and> wr_num_sge wr = 1 \<and> wr_signaled wr \<and>
     wr_rkey wr = rem_rkey ctx \<and> sge_lkey sg = lkey"

definition ctx_eq :: "rdma_ctx \<Rightarrow> rdma_ctx \<Rightarrow> bool" where
  "ctx_eq c c' \<longleftrightarrow> c\<lparr>outstanding_requests := 0\<rparr> = c'\<lparr>outstanding_requests := 0\<rparr>"

definition sync_conf :: "conf \<Rightarrow> bool" where
  "sync_conf C \<longleftrightarrow> MODE C = MODE_SYNC \<and> \<not> MEASURE_LATENCY C \<and> 0 < MAX_REQ C \<and> MAX_REQ C < 2 ^ 64"

definition copyless_dev :: "conf \<Rightarrow> rdma_ctx \<Rightarrow> u32 \<Rightarrow> rmem_device \<Rightarrow> bool" where
  "copyless_dev C ctx lkey d \<longleftrightarrow> length (wrs d) = MAX_REQ C \<and> length (sges d) = MAX_REQ C \<and>
     ctx_eq (dev_ctx d) ctx \<and> map_option mr_lkey (ctx_mr ctx) = Some lkey \<and>
     (SIMPLE_MAKE_WR C \<longrightarrow> (\<forall>i < MAX_REQ C. wr_ready ctx lkey i (wrs d ! i) (sges d ! i)))"

definition holds_wrs :: "conf \<Rightarrow> rdma_ctx \<Rightarrow> u32 \<Rightarrow> rmem_device \<Rightarrow> xfer list \<Rightarrow> bool" where
  "holds_wrs C ctx lkey d cur \<longleftrightarrow> length cur \<le> MAX_REQ C \<and> linked (wrs d) (length cur) \<and>
     (\<not> SIMPLE_MAKE_WR C \<and> cur \<noteq> [] \<longrightarrow> wr_next (wrs d ! (length cur - 1)) = None) \<and>
     (\<forall>k < length cur. post_view (wrs d ! k) (sges d ! k) = posted_xfer ctx lkey (cur ! k) \<and>
        x_bytes (cur ! k) < 2 ^ 32)"

definition rel_copyless :: "conf \<Rightarrow> verbs \<Rightarrow> rdma_ctx \<Rightarrow> u32 \<Rightarrow> sync_state \<Rightarrow> xfer list \<Rightarrow> bool" where
  "rel_copyless C V ctx lkey s cur \<longleftrightarrow> sync_conf C \<and> accepting V \<and> copyless_dev C ctx lkey (ss_dev s) \<and>
     holds_wrs C ctx lkey (ss_dev s) cur \<and> ss_count s = length cur \<and> length cur < MAX_REQ C"

lemma ctx_eq_simps:
  assumes "ctx_eq c c'"
  shows "rem_vaddr c = rem_vaddr c'" "rem_rkey c = rem_rkey c'" "ctx_mr c = ctx_mr c'"
proof -
  have "rem_vaddr (c\<lparr>outstanding_requests := 0\<rparr>) = rem_vaddr (c'\<lparr>outstanding_requests := 0\<rparr>)"
    "rem_rkey (c\<lparr>outstanding_requests := 0\<rparr>) = rem_rkey (c'\<lparr>outstanding_requests := 0\<rparr>)"
    "ctx_mr (c\<lparr>outstanding_requests := 0\<rparr>) = ctx_mr (c'\<lparr>outstanding_requests := 0\<rparr>)"
    using assms by (simp_all only: ctx_eq_def)
  then show "rem_vaddr c = rem_vaddr c'" "rem_rkey c = rem_rkey c'" "ctx_mr c = ctx_mr c'"
    by simp_all
qed

lemma ctx_eq_outstanding [simp]: "ctx_eq (c\<lparr>outstanding_requests := n\<rparr>) c' \<longleftrightarrow> ctx_eq c c'"
  by (simp add: ctx_eq_def)

lemma post_view_eq_iff:
  "post_view wr sg = posted_xfer ctx lkey x \<longleftrightarrow>
     wr_op wr = x_op x \<and> wr_id wr = 0 \<and> wr_num_sge wr = 1 \<and> sge_addr sg = x_local x \<and>
     sge_length sg = of_nat (x_bytes x) \<and> sge_lkey sg = lkey \<and> wr_signaled wr \<and>
     wr_remote_addr wr = rem_vaddr ctx + x_remote x \<and> wr_rkey wr = rem_rkey ctx"
  by (auto simp: post_view_def posted_xfer_def)

lemma ucast_of_nat_32_64: "n < 2 ^ 32 \<Longrightarrow> (ucast (of_nat n :: u32) :: u64) = of_nat n"
  by (rule word_unat_eq_iff [THEN iffD2]) (simp add: unat_of_nat)

lemma of_nat_mod_u32: "(of_nat (n mod 2 ^ 32) :: u32) = of_nat n"
  by (rule word_unat_eq_iff [THEN iffD2]) (simp add: unat_of_nat)

text \<open>Merging two work requests is joining their transfers.\<close>

lemma merge_wr_adjacent:
  assumes "post_view wr sg = posted_xfer ctx lkey x" and "post_view wr' sg' = posted_xfer ctx lkey y"
    and "x_bytes x < 2 ^ 32"
  shows "fst (merge_wr wr sg wr' sg') \<longleftrightarrow> adjacent x y"
    and "adjacent x y \<Longrightarrow> post_view wr (snd (merge_wr wr sg wr' sg')) = posted_xfer ctx lkey (join x y)"
proof -
  show "fst (merge_wr wr sg wr' sg') \<longleftrightarrow> adjacent x y"
    using assms
    by (auto simp: merge_wr_def adjacent_def post_view_eq_iff ucast_of_nat_32_64 add.assoc)
  then show "post_view wr (snd (merge_wr wr sg wr' sg')) = posted_xfer ctx lkey (join x y)"
    if "adjacent x y"
    using assms that of_nat_mod_u32 [of "x_bytes x + x_bytes y"]
    by (auto simp: merge_wr_def join_def post_view_eq_iff split: if_splits)
qed

text \<open>The work request that either way of building one puts into a slot.\<close>

lemma made_wr:
  assumes dev: "copyless_dev C ctx lkey d" and C: "sync_conf C" and n: "n < MAX_REQ C"
  shows "\<exists>wr sg. (if SIMPLE_MAKE_WR C
      then Inr (simple_make_wr C (dev_ctx d) (wrs d ! n) (sges d ! n) (bio_op w) dma (sector * 512) len NULL)
      else make_wr C (dev_ctx d) n (bio_op w) dma (sector * 512) len NULL) = Inr (wr, sg) \<and>
    post_view wr sg = posted_xfer ctx lkey (Xfer (opcode_of (bio_op w)) dma (sector * 512) (unat len)) \<and>
    wr_sg_list wr = Some n \<and> (SIMPLE_MAKE_WR C \<longrightarrow> wr_ready ctx lkey n wr sg) \<and>
    (\<not> SIMPLE_MAKE_WR C \<longrightarrow> wr_next wr = None)"
proof -
  have ctx: "rem_vaddr (dev_ctx d) = rem_vaddr ctx" "rem_rkey (dev_ctx d) = rem_rkey ctx"
      "ctx_mr (dev_ctx d) = ctx_mr ctx"
    using dev by (auto simp: copyless_dev_def dest: ctx_eq_simps)
  have id: "wr_id_of C p = 0" for p
    using C by (simp add: sync_conf_def wr_id_of_def)
  show ?thesis
  proof (cases "SIMPLE_MAKE_WR C")
    case True
    then have "wr_ready ctx lkey n (wrs d ! n) (sges d ! n)"
      using dev n by (simp add: copyless_dev_def)
    then show ?thesis
      using True ctx by (simp add: simple_make_wr_def id post_view_eq_iff wr_ready_def)
  next
    case False
    then obtain mr where "ctx_mr ctx = Some mr" "mr_lkey mr = lkey"
      using dev by (auto simp: copyless_dev_def)
    then show ?thesis
      using False ctx by (simp add: make_wr_def id post_view_eq_iff zero_wr_def zero_sge_def)
  qed
qed

text \<open>
  A new work request in slot \<open>n\<close>, linked behind its predecessor, extends the batch;
  one that is merged changes the length of its predecessor only.
\<close>

lemma wr_ready_next [simp]: "wr_ready ctx lkey i (wr\<lparr>wr_next := k\<rparr>) sg = wr_ready ctx lkey i wr sg"
  by (simp add: wr_ready_def)

lemma post_view_next [simp]: "post_view (wr\<lparr>wr_next := k\<rparr>) sg = post_view wr sg"
  by (simp add: post_view_def)

lemma holds_wrs_append:
  assumes dev: "copyless_dev C ctx lkey d" and cur: "holds_wrs C ctx lkey d cur"
    and n: "n = length cur" "n < MAX_REQ C"
    and wr: "post_view wr sg = posted_xfer ctx lkey x" "wr_sg_list wr = Some n" "x_bytes x < 2 ^ 32"
      "SIMPLE_MAKE_WR C \<longrightarrow> wr_ready ctx lkey n wr sg" "\<not> SIMPLE_MAKE_WR C \<longrightarrow> wr_next wr = None"
    and ws: "ws = (wrs d)[n := wr]"
    and d': "d' = d\<lparr>wrs := if 0 < n then ws[n - 1 := (ws ! (n - 1))\<lparr>wr_next := Some n\<rparr>] else ws,
      sges := (sges d)[n := sg]\<rparr>"
  shows "copyless_dev C ctx lkey d'" and "holds_wrs C ctx lkey d' (cur @ [x])"
proof -
  have len: "length (wrs d) = MAX_REQ C" "length (sges d) = MAX_REQ C"
    using dev by (auto simp: copyless_dev_def)
  have "0 < n \<Longrightarrow> n - 1 \<noteq> n" by simp
  then have here: "wrs d' ! n = wr" "sges d' ! n = sg" "length (wrs d') = MAX_REQ C" "length (sges d') = MAX_REQ C"
    using n len by (auto simp: d' ws)
  have before: "wrs d' ! i = (if Suc i = n then (wrs d ! i)\<lparr>wr_next := Some n\<rparr> else wrs d ! i)"
      "sges d' ! i = sges d ! i" if "i < n" for i
    using that n len by (auto simp: d' ws nth_list_update)
  have after: "wrs d' ! i = wrs d ! i" "sges d' ! i = sges d ! i" if "n < i" for i
    using that by (auto simp: d' ws)
  have ready: "wr_ready ctx lkey i (wrs d' ! i) (sges d' ! i)" if "SIMPLE_MAKE_WR C" "i < MAX_REQ C" for i
    using that dev wr(4) here before after n
    by (cases i n rule: linorder_cases) (auto simp: copyless_dev_def)
  show "copyless_dev C ctx lkey d'"
    using dev here ready by (simp add: copyless_dev_def d')
  have "linked (wrs d') (Suc n)"
    using cur wr(2) here before n by (auto simp: holds_wrs_def linked_def less_Suc_eq)
  moreover have "post_view (wrs d' ! k) (sges d' ! k) = posted_xfer ctx lkey ((cur @ [x]) ! k) \<and>
      x_bytes ((cur @ [x]) ! k) < 2 ^ 32" if "k < Suc n" for k
  proof (cases "k = n")
    case True
    then show ?thesis using here wr n by simp
  next
    case False
    then have "k < n" using that by simp
    then show ?thesis
      using cur before n by (simp add: holds_wrs_def nth_append)
  qed
  ultimately show "holds_wrs C ctx lkey d' (cur @ [x])"
    using n wr(5) here by (simp add: holds_wrs_def)
qed

lemma holds_wrs_merge:
  assumes dev: "copyless_dev C ctx lkey d" and cur: "holds_wrs C ctx lkey d cur"
    and n: "n = length cur" "n < MAX_REQ C" "0 < n"
    and wr: "SIMPLE_MAKE_WR C \<longrightarrow> wr_ready ctx lkey n wr sg"
    and y: "post_view (wrs d ! (n - 1)) sg' = posted_xfer ctx lkey y" "x_bytes y < 2 ^ 32"
    and d': "d' = d\<lparr>wrs := (wrs d)[n := wr], sges := (sges d)[n := sg, n - 1 := sg']\<rparr>"
  shows "copyless_dev C ctx lkey d'" and "holds_wrs C ctx lkey d' (butlast cur @ [y])"
proof -
  have len: "length (wrs d) = MAX_REQ C" "length (sges d) = MAX_REQ C"
    using dev by (auto simp: copyless_dev_def)
  have w: "wrs d' ! i = wrs d ! i" if "i \<noteq> n" for i
    using that by (simp add: d')
  have g: "sges d' ! i = (if i = n - 1 then sg' else sges d ! i)" if "i \<noteq> n" for i
    using that n len by (auto simp: d' nth_list_update)
  have ne: "n - 1 \<noteq> n" using n(3) by simp
  then have here: "wrs d' ! n = wr" "sges d' ! n = sg"
    using n len by (auto simp: d')
  have "sge_lkey sg' = lkey"
    using y(1) by (simp add: post_view_eq_iff)
  then have "wr_ready ctx lkey i (wrs d' ! i) (sges d' ! i)" if "SIMPLE_MAKE_WR C" "i < MAX_REQ C" for i
    using that dev wr here w g by (cases "i = n") (auto simp: copyless_dev_def wr_ready_def)
  then show "copyless_dev C ctx lkey d'"
    using dev len by (simp add: copyless_dev_def d')
  have "linked (wrs d') n"
    using cur w n by (auto simp: holds_wrs_def linked_def d')
  moreover have "post_view (wrs d' ! k) (sges d' ! k) = posted_xfer ctx lkey ((butlast cur @ [y]) ! k) \<and>
      x_bytes ((butlast cur @ [y]) ! k) < 2 ^ 32" if "k < n" for k
    using that cur n y w g by (auto simp: holds_wrs_def nth_append nth_butlast)
  moreover have "wrs d' ! (n - 1) = wrs d ! (n - 1)"
    using ne by (rule w)
  ultimately show "holds_wrs C ctx lkey d' (butlast cur @ [y])"
    using cur n by (auto simp: holds_wrs_def)
qed

text \<open>Merging with the last work request of the batch is joining with its last transfer.\<close>

lemma merge_with_last:
  assumes "holds_wrs C ctx lkey d cur" and "cur \<noteq> []" and "post_view wr sg = posted_xfer ctx lkey x"
    and "m = merge_wr (wrs d ! (length cur - 1)) (sges d ! (length cur - 1)) wr sg"
  shows "fst m \<longleftrightarrow> adjacent (last cur) x"
    and "fst m \<Longrightarrow> post_view (wrs d ! (length cur - 1)) (snd m) = posted_xfer ctx lkey (join (last cur) x)"
proof -
  have "post_view (wrs d ! (length cur - 1)) (sges d ! (length cur - 1)) = posted_xfer ctx lkey (last cur)"
      "x_bytes (last cur) < 2 ^ 32"
    using assms(1,2) by (simp_all add: holds_wrs_def last_conv_nth)
  note merge = merge_wr_adjacent [OF this(1) assms(3) this(2)]
  show "fst m \<longleftrightarrow> adjacent (last cur) x"
    using merge(1) assms(4) by simp
  then show "post_view (wrs d ! (length cur - 1)) (snd m) = posted_xfer ctx lkey (join (last cur) x)" if "fst m"
    using merge(2) that assms(4) by simp
qed

lemma put_wr_ok:
  assumes rel: "rel_copyless C V ctx lkey s cur" and c: "c = batch_join C cur (seg_xfer V w sector seg)"
  shows "\<exists>s'. put_wr C V w sector seg s = Inr s' \<and> copyless_dev C ctx lkey (ss_dev s') \<and>
    holds_wrs C ctx lkey (ss_dev s') c \<and> ss_count s' = length c \<and> ss_tr s' = ss_tr s \<and>
    ss_polls s' = ss_polls s \<and> blk_req (ss_dev s') = blk_req (ss_dev s)"
proof -
  let ?d = "ss_dev s" and ?n = "ss_count s" and ?x = "seg_xfer V w sector seg"
  have C: "sync_conf C" and dev: "copyless_dev C ctx lkey ?d" and cur: "holds_wrs C ctx lkey ?d cur"
      and n: "?n = length cur" "?n < MAX_REQ C"
    using rel by (auto simp: rel_copyless_def)
  have len: "length (wrs ?d) = MAX_REQ C" "length (sges ?d) = MAX_REQ C"
    using dev by (auto simp: copyless_dev_def)
  let ?dma = "rdma_map_address V (seg_buf seg) (seg_bytes seg)"
  obtain wr sg where wr: "(if SIMPLE_MAKE_WR C
      then Inr (simple_make_wr C (dev_ctx ?d) (wrs ?d ! ?n) (sges ?d ! ?n) (bio_op w) ?dma (sector * 512)
        (seg_bytes seg) NULL)
      else make_wr C (dev_ctx ?d) ?n (bio_op w) ?dma (sector * 512) (seg_bytes seg) NULL) = Inr (wr, sg)"
      "post_view wr sg = posted_xfer ctx lkey ?x" "wr_sg_list wr = Some ?n"
      "SIMPLE_MAKE_WR C \<longrightarrow> wr_ready ctx lkey ?n wr sg" "\<not> SIMPLE_MAKE_WR C \<longrightarrow> wr_next wr = None"
    using made_wr [OF dev C n(2)] by blast
  define m where "m = merge_wr ((wrs ?d)[?n := wr] ! (?n - 1)) ((sges ?d)[?n := sg] ! (?n - 1)) wr sg"
  define app where "app = ?d\<lparr>wrs := (if 0 < ?n
      then (wrs ?d)[?n := wr, ?n - 1 := ((wrs ?d)[?n := wr] ! (?n - 1))\<lparr>wr_next := Some ?n\<rparr>]
      else (wrs ?d)[?n := wr]), sges := (sges ?d)[?n := sg]\<rparr>"
  define mrg where "mrg = ?d\<lparr>wrs := (wrs ?d)[?n := wr], sges := (sges ?d)[?n := sg, ?n - 1 := snd m]\<rparr>"
  have run: "put_wr C V w sector seg s = Inr (if MERGE_REQ C \<and> 0 < ?n \<and> fst m
      then s\<lparr>ss_dev := mrg\<rparr> else s\<lparr>ss_dev := app, ss_count := ?n + 1\<rparr>)"
    using n(2) len unfolding put_wr_def Let_def mrg_def app_def m_def
    by (simp only: arr_get_nat bindR.simps wr(1) case_prod_conv)
  have blk: "blk_req app = blk_req ?d" "blk_req mrg = blk_req ?d"
    by (simp_all add: app_def mrg_def)
  have merge: "fst m \<longleftrightarrow> adjacent (last cur) ?x"
      "fst m \<Longrightarrow> post_view (wrs ?d ! (?n - 1)) (snd m) = posted_xfer ctx lkey (join (last cur) ?x)" if pos: "0 < ?n"
  proof -
    have "m = merge_wr (wrs ?d ! (?n - 1)) (sges ?d ! (?n - 1)) wr sg"
      using pos by (simp add: m_def)
    note last = merge_with_last [OF cur _ wr(2) this [unfolded n(1)]]
    show "fst m \<longleftrightarrow> adjacent (last cur) ?x"
        "fst m \<Longrightarrow> post_view (wrs ?d ! (?n - 1)) (snd m) = posted_xfer ctx lkey (join (last cur) ?x)"
      using last pos n(1) by auto
  qed
  show ?thesis
  proof (cases "MERGE_REQ C \<and> 0 < ?n \<and> fst m")
    case True
    have "x_bytes (join (last cur) ?x) < 2 ^ 32"
      by (simp add: join_def)
    note holds = holds_wrs_merge [OF dev cur n _ wr(4) merge(2) this mrg_def]
    have "c = butlast cur @ [join (last cur) ?x]"
      using True merge(1) n(1) by (auto simp: c batch_join_def)
    then show ?thesis
      using run True holds n blk by simp
  next
    case False
    then have "c = cur @ [?x]"
      using merge(1) n(1) by (auto simp: c batch_join_def)
    moreover have "x_bytes ?x < 2 ^ 32"
      using unat_u32_bound by simp
    ultimately show ?thesis
      using run False holds_wrs_append [OF dev cur n wr(2,3) _ wr(4,5) refl app_def] n blk by simp
  qed
qed

text \<open>Sending the batch posts it as one chain and waits for all of it.\<close>

lemma stamp_first_off [simp]: "stamp_first V False s ws = Inr ws"
  by (simp add: stamp_first_def)

lemma copyless_dev_end_chain:
  assumes "copyless_dev C ctx lkey d" and "n < MAX_REQ C"
  shows "copyless_dev C ctx lkey (d\<lparr>wrs := (wrs d)[n := (wrs d ! n)\<lparr>wr_next := k\<rparr>]\<rparr>)"
  using assms by (auto simp: copyless_dev_def nth_list_update)

lemma copyless_dev_ctx:
  "copyless_dev C ctx lkey (d\<lparr>dev_ctx := c\<rparr>) \<longleftrightarrow> copyless_dev C ctx lkey d \<and> ctx_eq c ctx" if "ctx_eq (dev_ctx d) ctx"
  using that by (auto simp: copyless_dev_def)

lemma holds_wrs_Nil: "holds_wrs C ctx lkey d []"
  by (simp add: holds_wrs_def linked_def)

lemma poll_cq_drain:
  assumes "\<not> MEASURE_LATENCY C" and "drain n rs = Some (es, rs')" and "n < 2 ^ 64"
    and "outstanding_requests ctx = of_nat n"
  shows "poll_cq C V rs ctx tr = Inr (ctx\<lparr>outstanding_requests := 0\<rparr>, tr @ es, rs')"
  using poll_loop_drain [OF assms] by (simp add: poll_cq_def)

lemma end_chain:
  assumes dev: "copyless_dev C ctx lkey d" and cur: "holds_wrs C ctx lkey d cur" "cur \<noteq> []"
    and n: "n = length cur"
  shows "\<exists>ws. (if SIMPLE_MAKE_WR C then bindR (arr_get (wrs d) (int n - 1)) (\<lambda>w.
        arr_set (wrs d) (int n - 1) (w\<lparr>wr_next := None\<rparr>)) else Inr (wrs d)) = Inr ws \<and>
    copyless_dev C ctx lkey (d\<lparr>wrs := ws\<rparr>) \<and> linked ws n \<and> wr_next (ws ! (n - 1)) = None \<and>
    map (\<lambda>k. post_view (ws ! k) (sges d ! k)) [0..<n] = map (posted_xfer ctx lkey) cur"
proof -
  have "0 < n" "n \<le> MAX_REQ C" and len: "length (wrs d) = MAX_REQ C"
    using dev cur n by (auto simp: holds_wrs_def copyless_dev_def)
  then have pos: "0 < n" "n - 1 < MAX_REQ C"
    by linarith+
  define ws where "ws = (if SIMPLE_MAKE_WR C
    then (wrs d)[n - 1 := (wrs d ! (n - 1))\<lparr>wr_next := None\<rparr>] else wrs d)"
  have "arr_get (wrs d) (int n - 1) = Inr (wrs d ! (n - 1))"
      "arr_set (wrs d) (int n - 1) v = Inr ((wrs d)[n - 1 := v])" for v
    using pos len by (auto simp: arr_get_def arr_set_def nat_diff_distrib)
  then have "(if SIMPLE_MAKE_WR C then bindR (arr_get (wrs d) (int n - 1)) (\<lambda>w.
        arr_set (wrs d) (int n - 1) (w\<lparr>wr_next := None\<rparr>)) else Inr (wrs d)) = Inr ws"
    by (simp add: ws_def)
  moreover have "copyless_dev C ctx lkey (d\<lparr>wrs := ws\<rparr>)"
    using copyless_dev_end_chain [OF dev pos(2)] dev by (simp add: ws_def)
  moreover have "linked ws n \<and> wr_next (ws ! (n - 1)) = None"
    using cur n pos len by (auto simp: ws_def holds_wrs_def linked_def nth_list_update)
  moreover have "map (\<lambda>k. post_view (ws ! k) (sges d ! k)) [0..<n] = map (posted_xfer ctx lkey) cur"
    using cur n pos len by (intro nth_equalityI) (auto simp: ws_def holds_wrs_def nth_list_update)
  ultimately show ?thesis by blast
qed

lemma send_wrs_ok:
  assumes C: "sync_conf C" and V: "accepting V" and dev: "copyless_dev C ctx lkey (ss_dev s)"
    and cur: "holds_wrs C ctx lkey (ss_dev s) cur" "cur \<noteq> []" and n: "ss_count s = length cur"
    and polls: "serves (length cur # ns) (ss_polls s)"
  shows "\<exists>s'. send_wrs C V False s = Inr s' \<and>
    advance s s' [map (posted_xfer ctx lkey) cur] ns \<and> rel_copyless C V ctx lkey s' []"
proof -
  let ?d = "ss_dev s" and ?n = "ss_count s"
  obtain ws where ws: "(if SIMPLE_MAKE_WR C then bindR (arr_get (wrs ?d) (int ?n - 1)) (\<lambda>w.
        arr_set (wrs ?d) (int ?n - 1) (w\<lparr>wr_next := None\<rparr>)) else Inr (wrs ?d)) = Inr ws"
      "copyless_dev C ctx lkey (?d\<lparr>wrs := ws\<rparr>)" "linked ws ?n" "wr_next (ws ! (?n - 1)) = None"
      "map (\<lambda>k. post_view (ws ! k) (sges ?d ! k)) [0..<?n] = map (posted_xfer ctx lkey) cur"
    using end_chain [OF dev cur n] by blast
  have pos: "0 < ?n" "?n \<le> length (sges ?d)" "?n < 2 ^ 64"
    using dev cur n C by (auto simp: holds_wrs_def copyless_dev_def sync_conf_def)
  have post: "ib_post_send V (ss_tr s) ws (sges ?d) = Inr (0, ss_tr s @ [Post (map (posted_xfer ctx lkey) cur) 0])"
    using ib_post_send_linked [OF ws(3,4) pos(2,1), of V "ss_tr s"] ws(5) V by (simp add: accepting_def)
  obtain es rs' where d: "drain ?n (ss_polls s) = Some (es, rs')" "serves ns rs'"
    using polls n by (auto split: option.splits)
  let ?ctx = "(dev_ctx ?d)\<lparr>outstanding_requests := of_int (int ?n)\<rparr>"
  have poll: "poll_cq C V (ss_polls s) ?ctx tr = Inr (?ctx\<lparr>outstanding_requests := 0\<rparr>, tr @ es, rs')" for tr
    using poll_cq_drain [OF _ d(1) pos(3), of C ?ctx V tr] C by (simp add: sync_conf_def)
  let ?s = "s\<lparr>ss_dev := ?d\<lparr>wrs := ws, dev_ctx := ?ctx\<lparr>outstanding_requests := 0\<rparr>\<rparr>, ss_count := 0,
    ss_tr := (ss_tr s @ [Post (map (posted_xfer ctx lkey) cur) 0]) @ es, ss_polls := rs'\<rparr>"
  have "send_wrs C V False s = Inr ?s"
    unfolding send_wrs_def Let_def ws(1) by (simp only: bindR.simps stamp_first_off post poll case_prod_conv assertR.simps simp_thms)
  moreover have "advance s ?s [map (posted_xfer ctx lkey) cur] ns"
    using drain_events [OF d(1)] n d(2) by (simp add: advance_def)
  moreover have "copyless_dev C ctx lkey (ss_dev ?s)"
    using ws(2) dev by (simp add: copyless_dev_def)
  then have "rel_copyless C V ctx lkey ?s []"
    using C V by (simp add: rel_copyless_def holds_wrs_Nil sync_conf_def)
  ultimately show ?thesis by blast
qed

interpretation cl: sync_batcher C V "rel_copyless C V ctx lkey" "sync_segment_copyless C V"
  "send_wrs C V (MEASURE_LATENCY C)" "\<lambda>cur. [map (posted_xfer ctx lkey) cur]" for C V ctx lkey
proof (unfold_locales, goal_cases)
  case (1 s cur)
  then show ?case by (simp add: rel_copyless_def)
next
  case (2 s b t cur)
  then show ?case by (simp add: rel_copyless_def copyless_dev_def holds_wrs_def)
next
  case (3 s cur c w seg sector ns)
  then have C: "sync_conf C" and V: "accepting V" by (simp_all add: rel_copyless_def)
  then have lat: "\<not> MEASURE_LATENCY C" by (simp add: sync_conf_def)
  obtain s1 where s1: "put_wr C V w sector seg s = Inr s1" "copyless_dev C ctx lkey (ss_dev s1)"
      "holds_wrs C ctx lkey (ss_dev s1) c" "ss_count s1 = length c" "ss_tr s1 = ss_tr s"
      "ss_polls s1 = ss_polls s" "blk_req (ss_dev s1) = blk_req (ss_dev s)"
    using put_wr_ok [OF 3(1,2)] by blast
  show ?case
  proof (cases "MAX_REQ C \<le> length c")
    case True
    then have "serves (length c # ns) (ss_polls s1)"
      using 3(3) s1(6) by simp
    then obtain s2 where "send_wrs C V False s1 = Inr s2"
        "advance s1 s2 [map (posted_xfer ctx lkey) c] ns" "rel_copyless C V ctx lkey s2 []"
      using send_wrs_ok [OF C V s1(2,3) _ s1(4)] 3(2) by auto
    then show ?thesis
      using True s1 lat by (auto simp: sync_segment_copyless_def advance_def)
  next
    case False
    then show ?thesis
      using 3(3) s1 C V lat by (auto simp: sync_segment_copyless_def advance_def rel_copyless_def)
  qed
next
  case (4 s cur ns)
  then show ?case
    using send_wrs_ok [of C V ctx lkey s cur ns]
    by (auto simp: rel_copyless_def sync_conf_def)
qed

section \<open>The variant that fills an array of requests\<close>

definition req_of :: "xfer \<Rightarrow> rdma_request \<Rightarrow> bool" where
  "req_of x r \<longleftrightarrow> valid_op r \<and> opcode_of (rr_rw r) = x_op x \<and> rr_dma_addr r = x_local x \<and>
     rr_remote_offset r = x_remote x \<and> rr_length r = of_nat (x_bytes x) \<and> x_bytes x < 2 ^ 32"

definition array_dev :: "conf \<Rightarrow> rdma_ctx \<Rightarrow> u32 \<Rightarrow> rmem_device \<Rightarrow> bool" where
  "array_dev C ctx lkey d \<longleftrightarrow> length (dev_rdma_req d) = MAX_REQ C \<and> ctx_eq (dev_ctx d) ctx \<and>
     map_option mr_lkey (ctx_mr ctx) = Some lkey"

definition holds_reqs :: "conf \<Rightarrow> rmem_device \<Rightarrow> xfer list \<Rightarrow> bool" where
  "holds_reqs C d cur \<longleftrightarrow> length cur \<le> MAX_REQ C \<and> list_all2 req_of cur (take (length cur) (dev_rdma_req d))"

definition rel_array :: "conf \<Rightarrow> verbs \<Rightarrow> rdma_ctx \<Rightarrow> u32 \<Rightarrow> sync_state \<Rightarrow> xfer list \<Rightarrow> bool" where
  "rel_array C V ctx lkey s cur \<longleftrightarrow> sync_conf C \<and> accepting V \<and> array_dev C ctx lkey (ss_dev s) \<and>
     holds_reqs C (ss_dev s) cur \<and> ss_count s = length cur \<and> length cur < MAX_REQ C"

lemma opcode_of_bio_op [simp]: "opcode_of (bio_op w) = opcode_of (bio_op w') \<longleftrightarrow> w = w'"
  by (auto simp: opcode_of_def bio_op_def)

lemma opcode_of_inj: "valid_op r \<Longrightarrow> valid_op r' \<Longrightarrow>
    opcode_of (rr_rw r) = opcode_of (rr_rw r') \<longleftrightarrow> rr_rw r = rr_rw r'"
  by (auto simp: opcode_of_def valid_op_def)

lemma mergeable_adjacent:
  assumes "req_of x r" and "req_of y r'"
  shows "mergeable r r' \<longleftrightarrow> adjacent x y"
    and "req_of (join x y) (r\<lparr>rr_length := rr_length r + rr_length r'\<rparr>)"
  using assms opcode_of_inj [of r r'] of_nat_mod_u32 [of "x_bytes x + x_bytes y"]
  by (auto simp: req_of_def mergeable_def adjacent_def ucast_of_nat_32_64 join_def valid_op_def)

lemma put_req_ok:
  assumes rel: "rel_array C V ctx lkey s cur" and c: "c = batch_join C cur (seg_xfer V w sector seg)"
  shows "\<exists>s'. put_req C V w sector seg s = Inr s' \<and> array_dev C ctx lkey (ss_dev s') \<and>
    holds_reqs C (ss_dev s') c \<and> ss_count s' = length c \<and> ss_tr s' = ss_tr s \<and>
    ss_polls s' = ss_polls s \<and> blk_req (ss_dev s') = blk_req (ss_dev s)"
proof -
  let ?d = "ss_dev s" and ?n = "ss_count s" and ?x = "seg_xfer V w sector seg"
  let ?R = "dev_rdma_req ?d"
  have dev: "array_dev C ctx lkey ?d" and n: "?n = length cur" "?n < MAX_REQ C" and len: "length ?R = MAX_REQ C"
      and cur: "list_all2 req_of cur (take ?n ?R)"
    using rel by (auto simp: rel_array_def array_dev_def holds_reqs_def)
  define r where "r = (?R ! ?n)\<lparr>rr_rw := bio_op w, rr_length := seg_bytes seg,
    rr_dma_addr := rdma_map_address V (seg_buf seg) (seg_bytes seg), rr_remote_offset := sector * 512\<rparr>"
  have r: "req_of ?x r"
    using unat_u32_bound by (simp add: req_of_def valid_op_def bio_op_def r_def)
  define p where "p = ?R[?n := r] ! (?n - 1)"
  have run: "put_req C V w sector seg s = Inr (if MERGE_REQ C \<and> ?n > 0 \<and> mergeable p r
      then s\<lparr>ss_dev := ?d\<lparr>dev_rdma_req := ?R[?n := r, ?n - 1 := p\<lparr>rr_length := rr_length p + rr_length r\<rparr>]\<rparr>\<rparr>
      else s\<lparr>ss_dev := ?d\<lparr>dev_rdma_req := ?R[?n := r]\<rparr>, ss_count := ?n + 1\<rparr>)"
    using n(2) len unfolding put_req_def Let_def r_def p_def by (simp only: arr_get_nat bindR.simps)
  show ?thesis
  proof (cases "cur = []")
    case True
    have "take (Suc 0) (?R[0 := r]) = [r]"
      using len n True by (cases ?R) auto
    then show ?thesis
      using True run n dev r by (simp add: c batch_join_def array_dev_def holds_reqs_def Suc_leI)
  next
    case False
    then obtain zs z where zs: "cur = zs @ [z]"
      by (cases cur rule: rev_cases) auto
    have n': "?n = Suc (length zs)"
      using zs n by simp
    have p: "p = ?R ! length zs"
      by (simp add: p_def n')
    have split: "take ?n ?R = take (length zs) ?R @ [p]"
      using n' n len by (simp add: take_Suc_conv_app_nth p)
    then have z: "req_of z p" and zs': "list_all2 req_of zs (take (length zs) ?R)"
      using cur n n' len by (auto simp: zs list_all2_append)
    note adj = mergeable_adjacent [OF z r]
    show ?thesis
    proof (cases "MERGE_REQ C \<and> adjacent z ?x")
      case True
      let ?q = "p\<lparr>rr_length := rr_length p + rr_length r\<rparr>"
      have "c = zs @ [join z ?x]"
        using True by (simp add: c zs batch_join_def)
      moreover have "take ?n (?R[?n := r, ?n - 1 := ?q]) = take (length zs) ?R @ [?q]"
        using n' n len by (simp add: take_Suc_conv_app_nth)
      ultimately show ?thesis
        using run True adj n n' zs dev zs' by (auto simp: array_dev_def holds_reqs_def intro!: list_all2_appendI)
    next
      case not: False
      then have "c = cur @ [?x]"
        by (auto simp: c zs batch_join_def)
      moreover have "take (Suc ?n) (?R[?n := r]) = take ?n ?R @ [r]"
        using n len by (simp add: take_Suc_conv_app_nth)
      ultimately show ?thesis
        using run not adj(1) n dev cur r
        by (auto simp: array_dev_def holds_reqs_def intro!: list_all2_appendI)
    qed
  qed
qed

lemma posted_of_req_of:
  assumes "MODE C = MODE_SYNC" and "ctx_eq c ctx" and "req_of x r"
  shows "posted_of C c lkey r = posted_xfer ctx lkey x"
  using assms ctx_eq_simps [of c ctx] by (simp add: posted_of_def posted_xfer_def req_of_def wr_id_of_def)

lemma map_list_all2: "list_all2 P xs ys \<Longrightarrow> (\<And>x y. P x y \<Longrightarrow> f y = g x) \<Longrightarrow> map f ys = map g xs"
  by (induction rule: list_all2_induct) auto

lemma posts_of_Posts: "posts_of (map (\<lambda>r. Post (f r) 0) rs) = map f rs"
  by (induction rs) simp_all

lemma in_flight_Posts: "in_flight (map (\<lambda>r. Post [f r] 0) rs) = int (length rs)"
  by (induction rs) simp_all

lemma filter_is_end_Posts: "filter is_end (map (\<lambda>r. Post (f r) 0) rs) = []"
  by (induction rs) simp_all

lemma send_reqs_ok:
  assumes C: "sync_conf C" and V: "accepting V" and dev: "array_dev C ctx lkey (ss_dev s)"
    and cur: "holds_reqs C (ss_dev s) cur" and n: "ss_count s = length cur"
    and polls: "serves (length cur # ns) (ss_polls s)"
  shows "\<exists>s'. send_reqs C V s = Inr s' \<and>
    advance s s' (map (\<lambda>x. [posted_xfer ctx lkey x]) cur) ns \<and> rel_array C V ctx lkey s' []"
proof -
  let ?d = "ss_dev s" and ?n = "ss_count s"
  let ?R = "dev_rdma_req ?d" and ?ctx = "(dev_ctx ?d)\<lparr>outstanding_requests := of_nat (ss_count s)\<rparr>"
  have mode: "MODE C = MODE_SYNC" "\<not> MEASURE_LATENCY C"
    using C by (simp_all add: sync_conf_def)
  have ctx: "ctx_eq ?ctx ctx"
    using dev by (simp add: array_dev_def)
  obtain mr where mr: "ctx_mr ?ctx = Some mr" "mr_lkey mr = lkey"
    using dev ctx_eq_simps(3) [OF ctx] by (auto simp: array_dev_def)
  have all: "list_all2 req_of cur (take ?n ?R)" and le: "?n \<le> length ?R" "?n < 2 ^ 64"
    using cur n dev C by (auto simp: holds_reqs_def array_dev_def sync_conf_def)
  have "\<forall>r \<in> set (take ?n ?R). valid_op r"
    using all by (auto simp: list_all2_conv_all_nth in_set_conv_nth req_of_def)
  then have "send_each C V ?ctx ?R 0 ?n (ss_tr s) =
      Inr (True, ss_tr s @ map (\<lambda>r. Post [posted_of C ?ctx lkey r] 0) (take ?n ?R))"
    using send_each_ok [OF mr(1) V, of ?n 0 ?R C "ss_tr s"] le mr(2) by simp
  moreover have "map (\<lambda>r. Post [posted_of C ?ctx lkey r] 0) (take ?n ?R) =
      map (\<lambda>x. Post [posted_xfer ctx lkey x] 0) cur"
    by (rule map_list_all2 [OF all]) (simp add: posted_of_req_of [OF mode(1) ctx])
  ultimately have send: "send_each C V ?ctx ?R 0 ?n (ss_tr s) =
      Inr (True, ss_tr s @ map (\<lambda>x. Post [posted_xfer ctx lkey x] 0) cur)"
    by simp
  obtain es rs' where d: "drain ?n (ss_polls s) = Some (es, rs')" "serves ns rs'"
    using polls n by (auto split: option.splits)
  have poll: "poll_cq C V (ss_polls s) ?ctx tr = Inr (?ctx\<lparr>outstanding_requests := 0\<rparr>, tr @ es, rs')" for tr
    using poll_cq_drain [OF mode(2) d(1) le(2)] by simp
  let ?s = "s\<lparr>ss_dev := ?d\<lparr>dev_ctx := ?ctx\<lparr>outstanding_requests := 0\<rparr>\<rparr>, ss_count := 0,
    ss_tr := (ss_tr s @ map (\<lambda>x. Post [posted_xfer ctx lkey x] 0) cur) @ es, ss_polls := rs'\<rparr>"
  have "send_reqs C V s = Inr ?s"
    unfolding send_reqs_def rdma_op_def Let_def send by (simp add: mode poll)
  moreover have "advance s ?s (map (\<lambda>x. [posted_xfer ctx lkey x]) cur) ns"
    using drain_events [OF d(1)] n d(2)
    by (simp add: advance_def posts_of_Posts in_flight_Posts filter_is_end_Posts)
  moreover have "rel_array C V ctx lkey ?s []"
    using C V dev by (simp add: rel_array_def array_dev_def holds_reqs_def sync_conf_def)
  ultimately show ?thesis by blast
qed

interpretation ar: sync_batcher C V "rel_array C V ctx lkey" "sync_segment_array C V"
  "send_reqs C V" "map (\<lambda>x. [posted_xfer ctx lkey x])" for C V ctx lkey
proof (unfold_locales, goal_cases)
  case (1 s cur)
  then show ?case by (simp add: rel_array_def)
next
  case (2 s b t cur)
  then show ?case by (simp add: rel_array_def array_dev_def holds_reqs_def)
next
  case (3 s cur c w seg sector ns)
  then have C: "sync_conf C" "accepting V" by (simp_all add: rel_array_def)
  obtain s1 where s1: "put_req C V w sector seg s = Inr s1" "array_dev C ctx lkey (ss_dev s1)"
      "holds_reqs C (ss_dev s1) c" "ss_count s1 = length c" "ss_tr s1 = ss_tr s"
      "ss_polls s1 = ss_polls s" "blk_req (ss_dev s1) = blk_req (ss_dev s)"
    using put_req_ok [OF 3(1,2)] by blast
  show ?case
  proof (cases "MAX_REQ C \<le> length c")
    case True
    then have "serves (length c # ns) (ss_polls s1)"
      using 3(3) s1(6) by simp
    then obtain s2 where "send_reqs C V s1 = Inr s2"
        "advance s1 s2 (map (\<lambda>x. [posted_xfer ctx lkey x]) c) ns" "rel_array C V ctx lkey s2 []"
      using send_reqs_ok [OF C s1(2,3,4)] by blast
    then show ?thesis
      using True s1 by (auto simp: sync_segment_array_def advance_def)
  next
    case False
    then show ?thesis
      using 3(3) s1 C by (auto simp: sync_segment_array_def advance_def rel_array_def)
  qed
next
  case (4 s cur ns)
  then show ?case
    using send_reqs_ok [of C V ctx lkey s cur ns] by (auto simp: rel_array_def)
qed

end
