(* ===== verification/Sync_Correct.thy ===== *)
theory Sync_Correct
  imports Request_Sync
begin

text \<open>
  What \<open>rmem_request_sync\<close> does, for both variants of its inner loop: every file
  system request is ended once, with success, after all its bytes have moved; the
  remote memory behaves as the disk the block layer believes it to be; no access
  leaves the part of the remote memory the device stands for.
\<close>

section \<open>Both variants together\<close>

definition sync_ready :: "conf \<Rightarrow> verbs \<Rightarrow> rdma_ctx \<Rightarrow> u32 \<Rightarrow> rmem_device \<Rightarrow> bool" where
  "sync_ready C V ctx lkey d \<longleftrightarrow> sync_conf C \<and> accepting V \<and> length (blk_req d) = MAX_REQ C \<and>
     (if COPY_LESS C then copyless_dev C ctx lkey d else array_dev C ctx lkey d)"

definition sync_posts :: "conf \<Rightarrow> rdma_ctx \<Rightarrow> u32 \<Rightarrow> xfer list \<Rightarrow> posted list list" where
  "sync_posts C ctx lkey b =
     (if COPY_LESS C then [map (posted_xfer ctx lkey) b] else map (\<lambda>x. [posted_xfer ctx lkey x]) b)"

abbreviation sync_step :: "conf \<Rightarrow> verbs \<Rightarrow> bool \<Rightarrow> u64 \<Rightarrow> bio_seg \<Rightarrow> sync_state \<Rightarrow> sync_state result" where
  "sync_step C V \<equiv> (if COPY_LESS C then sync_segment_copyless C V else sync_segment_array C V)"

abbreviation sync_send :: "conf \<Rightarrow> verbs \<Rightarrow> sync_state \<Rightarrow> sync_state result" where
  "sync_send C V \<equiv> (if COPY_LESS C then send_wrs C V (MEASURE_LATENCY C) else send_reqs C V)"

definition rel_sync :: "conf \<Rightarrow> verbs \<Rightarrow> rdma_ctx \<Rightarrow> u32 \<Rightarrow> sync_state \<Rightarrow> xfer list \<Rightarrow> bool" where
  "rel_sync C V ctx lkey s cur \<longleftrightarrow>
     (if COPY_LESS C then rel_copyless C V ctx lkey s cur else rel_array C V ctx lkey s cur)"

interpretation sy: sync_batcher C V "rel_sync C V ctx lkey" "sync_step C V" "sync_send C V"
  "sync_posts C ctx lkey" for C V ctx lkey
proof (cases "COPY_LESS C")
  case True
  then have "rel_sync C V ctx lkey = rel_copyless C V ctx lkey"
      "sync_posts C ctx lkey = (\<lambda>cur. [map (posted_xfer ctx lkey) cur])"
    by (simp_all add: rel_sync_def sync_posts_def fun_eq_iff)
  then show "sync_batcher C V (rel_sync C V ctx lkey) (sync_step C V) (sync_send C V) (sync_posts C ctx lkey)"
    using cl.sync_batcher_axioms True by simp
next
  case False
  then have "rel_sync C V ctx lkey = rel_array C V ctx lkey"
      "sync_posts C ctx lkey = map (\<lambda>x. [posted_xfer ctx lkey x])"
    by (simp_all add: rel_sync_def sync_posts_def fun_eq_iff)
  then show "sync_batcher C V (rel_sync C V ctx lkey) (sync_step C V) (sync_send C V) (sync_posts C ctx lkey)"
    using ar.sync_batcher_axioms False by simp
qed

lemma rel_sync_start:
  "sync_ready C V ctx lkey d \<Longrightarrow>
     rel_sync C V ctx lkey \<lparr>ss_dev = d, ss_count = 0, ss_tr = tr, ss_polls = rs\<rparr> []"
  by (simp add: sync_ready_def rel_sync_def rel_copyless_def rel_array_def holds_wrs_Nil holds_reqs_def
      sync_conf_def)

lemma rel_sync_end:
  "rel_sync C V ctx lkey s [] \<Longrightarrow> length (blk_req (ss_dev s)) = MAX_REQ C \<Longrightarrow>
     sync_ready C V ctx lkey (ss_dev s)"
  by (simp add: sync_ready_def rel_sync_def rel_copyless_def rel_array_def split: if_splits)

section \<open>Lengths of the device's array of requests\<close>

text \<open>No step changes how many block requests the device can hold.\<close>

abbreviation blk_len :: "sync_state \<Rightarrow> nat" where
  "blk_len s \<equiv> length (blk_req (ss_dev s))"

lemma send_wrs_blk: "send_wrs C V lat s = Inr s' \<Longrightarrow> blk_len s' = blk_len s"
  by (auto simp: send_wrs_def Let_def result_simps split: if_split_asm)

lemma send_reqs_blk: "send_reqs C V s = Inr s' \<Longrightarrow> blk_len s' = blk_len s"
  by (auto simp: send_reqs_def result_simps)

lemma put_wr_blk: "put_wr C V w sector seg s = Inr s' \<Longrightarrow> blk_len s' = blk_len s"
  by (auto simp: put_wr_def Let_def result_simps)

lemma put_req_blk: "put_req C V w sector seg s = Inr s' \<Longrightarrow> blk_len s' = blk_len s"
  by (auto simp: put_req_def Let_def result_simps)

lemma sync_step_blk: "sync_step C V w sector seg s = Inr s' \<Longrightarrow> blk_len s' = blk_len s"
  by (auto simp: sync_segment_copyless_def sync_segment_array_def result_simps
      dest!: put_wr_blk put_req_blk send_wrs_blk send_reqs_blk split: if_splits)

definition keeps_blk :: "(bool \<Rightarrow> u64 \<Rightarrow> bio_seg \<Rightarrow> sync_state \<Rightarrow> sync_state result) \<Rightarrow> bool" where
  "keeps_blk step \<longleftrightarrow> (\<forall>w sector seg s s'. step w sector seg s = Inr s' \<longrightarrow> blk_len s' = blk_len s)"

lemma keeps_blk_sync_step: "keeps_blk (sync_step C V)"
  unfolding keeps_blk_def by (intro allI impI, rule sync_step_blk)

lemma sync_segs_blk:
  "keeps_blk step \<Longrightarrow> sync_segs step w sector segs s = Inr s' \<Longrightarrow> blk_len s' = blk_len s"
  by (induction step w sector segs s rule: sync_segs.induct) (auto simp: result_simps keeps_blk_def)

lemma sync_bios_blk: "keeps_blk step \<Longrightarrow> sync_bios step bs s = Inr s' \<Longrightarrow> blk_len s' = blk_len s"
  by (induction step bs s rule: sync_bios.induct) (auto simp: result_simps dest!: sync_segs_blk)

lemma sync_requests_blk:
  "keeps_blk step \<Longrightarrow> sync_requests step rqs k s = Inr (k', s') \<Longrightarrow> blk_len s' = blk_len s"
  by (induction step rqs k s rule: sync_requests.induct)
    (auto simp: result_simps arr_set_eq_Inr dest!: sync_bios_blk split: if_splits)

section \<open>The run as a whole\<close>

lemma request_sync_run:
  assumes "sync_ready C V ctx lkey dev"
    and "serves (map length (batches C (queue_xfers V rqs))) rs"
    and "length (filter rq_fs rqs) \<le> MAX_REQ C"
  shows "\<exists>dev' tr' rs'. rmem_request_sync C V rs dev rqs tr =
      Inr (dev', tr' @ map (\<lambda>rq. End_Request_All (rq_at rq) 0) (filter rq_fs rqs), rs') \<and>
    sync_ready C V ctx lkey dev' \<and>
    posts_of tr' = posts_of tr @ concat (map (sync_posts C ctx lkey) (batches C (queue_xfers V rqs))) \<and>
    in_flight tr' = in_flight tr \<and>
    filter is_end tr' = filter is_end tr @
      map (\<lambda>rq. End_Request (rq_at rq) (- EIO) (rq_cur_bytes rq)) (filter (\<lambda>rq. \<not> rq_fs rq) rqs)"
proof -
  let ?s = "\<lparr>ss_dev = dev, ss_count = 0, ss_tr = tr, ss_polls = rs\<rparr>"
  have len: "length (blk_req dev) = MAX_REQ C"
    using assms(1) by (simp add: sync_ready_def)
  from sy.run_ok [OF rel_sync_start [OF assms(1), of tr rs], of rqs] assms(2,3) len
  obtain s1 s2 where s: "sync_requests (sync_step C V) rqs 0 ?s = Inr (length (filter rq_fs rqs), s1)"
      "(if ss_count s1 > 0 then sync_send C V s1 else Inr s1) = Inr s2" "rel_sync C V ctx lkey s2 []"
      "take (length (filter rq_fs rqs)) (blk_req (ss_dev s2)) = map rq_at (filter rq_fs rqs)"
      "posts_of (ss_tr s2) = posts_of tr @ concat (map (sync_posts C ctx lkey) (batches C (queue_xfers V rqs)))"
      "in_flight (ss_tr s2) = in_flight tr"
      "filter is_end (ss_tr s2) = filter is_end tr @
        map (\<lambda>rq. End_Request (rq_at rq) (- EIO) (rq_cur_bytes rq)) (filter (\<lambda>rq. \<not> rq_fs rq) rqs)"
    by auto
  have "blk_len s2 = blk_len s1"
    using s(2) by (auto split: if_splits dest: send_wrs_blk send_reqs_blk)
  then have "blk_len s2 = MAX_REQ C"
    using sync_requests_blk [OF keeps_blk_sync_step s(1)] len by simp
  moreover have "rmem_request_sync C V rs dev rqs tr = Inr (ss_dev s2,
      ss_tr s2 @ map (\<lambda>rq. End_Request_All (rq_at rq) 0) (filter rq_fs rqs), ss_polls s2)"
    unfolding rmem_request_sync_def Let_def s(1) bindR.simps case_prod_conv s(2) s(4)
    by (simp add: comp_def)
  ultimately show ?thesis
    using rel_sync_end [OF s(3)] s by blast
qed

lemma posts_of_ends [simp]: "posts_of (map (\<lambda>rq. End_Request_All (f rq) e) rqs) = []"
  by (induction rqs) simp_all

text \<open>The work requests of a call that starts with an empty trace.\<close>

lemma request_sync_posted:
  assumes "sync_ready C V ctx lkey dev"
    and "serves (map length (batches C (queue_xfers V rqs))) rs"
    and "length (filter rq_fs rqs) \<le> MAX_REQ C"
  obtains dev' tr' rs' where "rmem_request_sync C V rs dev rqs [] = Inr (dev', tr', rs')"
    and "posts_of tr' = concat (map (sync_posts C ctx lkey) (batches C (queue_xfers V rqs)))"
proof -
  obtain dev' tr' rs' where "rmem_request_sync C V rs dev rqs [] =
      Inr (dev', tr' @ map (\<lambda>rq. End_Request_All (rq_at rq) 0) (filter rq_fs rqs), rs')"
      "posts_of tr' = posts_of [] @ concat (map (sync_posts C ctx lkey) (batches C (queue_xfers V rqs)))"
    using request_sync_run [OF assms, of "[]"] by blast
  then show thesis
    by (intro that [of dev' "tr' @ map (\<lambda>rq. End_Request_All (rq_at rq) 0) (filter rq_fs rqs)" rs']) simp_all
qed

lemma batches_cong:
  assumes "MAX_REQ C = MAX_REQ C'" and "MERGE_REQ C = MERGE_REQ C'"
  shows "batches C xs = batches C' xs"
proof -
  have "batch_join C cur x = batch_join C' cur x" for cur x
    by (simp add: batch_join_def assms(2))
  then have "batch_fold C xs cur = batch_fold C' xs cur" for cur
    by (induction xs arbitrary: cur) (simp_all add: assms(1) Let_def)
  then show ?thesis
    by (simp add: batches_def)
qed

section \<open>Batches keep what their transfers have\<close>

lemma batch_join_all:
  assumes "\<And>x y. P x \<Longrightarrow> P y \<Longrightarrow> adjacent x y \<Longrightarrow> P (join x y)" and "P x" and "\<forall>y \<in> set cur. P y"
  shows "\<forall>y \<in> set (batch_join C cur x). P y"
  using assms by (auto simp: batch_join_def dest: in_set_butlastD)

lemma batch_fold_all:
  assumes join: "\<And>x y. P x \<Longrightarrow> P y \<Longrightarrow> adjacent x y \<Longrightarrow> P (join x y)"
    and "\<forall>x \<in> set xs. P x" and "\<forall>y \<in> set cur. P y"
  shows "(\<forall>b \<in> set (fst (batch_fold C xs cur)). \<forall>x \<in> set b. P x) \<and> (\<forall>x \<in> set (snd (batch_fold C xs cur)). P x)"
  using assms(2,3)
proof (induction C xs cur rule: batch_fold.induct)
  case (2 C x xs cur)
  have c: "\<forall>y \<in> set (batch_join C cur x). P y"
    using batch_join_all [of P x cur C] join "2.prems" by simp
  show ?case
  proof (cases "MAX_REQ C \<le> length (batch_join C cur x)")
    case True
    then show ?thesis using "2.IH"(1) [OF refl True] "2.prems" c by (simp add: Let_def)
  next
    case False
    then show ?thesis using "2.IH"(3) [OF refl False] "2.prems" c by (simp add: Let_def)
  qed
qed simp

lemma batches_all:
  assumes "\<And>x y. P x \<Longrightarrow> P y \<Longrightarrow> adjacent x y \<Longrightarrow> P (join x y)" and "\<forall>x \<in> set xs. P x"
  shows "\<forall>x \<in> set (concat (batches C xs)). P x"
  using batch_fold_all [of P xs "[]" C] assms by (auto simp: concat_batches_fold)

lemma bio_xfers_small: "\<forall>x \<in> set (bio_xfers V w sector segs). x_bytes x < 2 ^ 32"
  using unat_u32_bound by (induction V w sector segs rule: bio_xfers.induct) auto

lemma queue_xfers_small: "\<forall>x \<in> set (queue_xfers V rqs). x_bytes x < 2 ^ 32"
  using bio_xfers_small by (fastforce simp: queue_xfers_def req_xfers_def)

lemma batches_small: "\<forall>x \<in> set (concat (batches C (queue_xfers V rqs))). x_bytes x < 2 ^ 32"
  by (rule batches_all) (simp add: join_def, rule queue_xfers_small)

section \<open>The posted work requests as transfers\<close>

lemma xfer_of_posted_xfer: "x_bytes x < 2 ^ 32 \<Longrightarrow> xfer_of (posted_xfer ctx lkey x) = rebase (rem_vaddr ctx) x"
  by (simp add: xfer_of_def posted_xfer_def rebase_def unat_of_nat)

lemma concat_sync_posts:
  "concat (concat (map (sync_posts C ctx lkey) bs)) = map (posted_xfer ctx lkey) (concat bs)"
  by (induction bs) (auto simp: sync_posts_def concat_map_singleton)

lemma sync_posts_disk:
  assumes "MERGE_REQ C \<longrightarrow> total_bytes (queue_xfers V rqs) < 2 ^ 32"
    and "dma_reaches V io" and "all_bios bio_plain rqs" and "all_bios (bio_mapped V) rqs"
  shows "disk_view (rem_vaddr ctx) (run_xfers (card_exec io) (map xfer_of (concat (concat
      (map (sync_posts C ctx lkey) (batches C (queue_xfers V rqs)))))) m) =
    disk_queue rqs (disk_view (rem_vaddr ctx) m)"
proof -
  let ?bs = "batches C (queue_xfers V rqs)"
  have "map xfer_of (map (posted_xfer ctx lkey) (concat ?bs)) = map (rebase (rem_vaddr ctx)) (concat ?bs)"
    unfolding map_map using batches_small [of C V rqs] xfer_of_posted_xfer by (intro map_cong) auto
  then show ?thesis
    by (simp only: concat_sync_posts run_xfers_disk_view run_batches [OF assms(1)] queue_disk [OF assms(2-4)])
qed

section \<open>Staying inside the device\<close>

text \<open>
  What the block layer guarantees: a bio does not reach past the capacity the driver
  announced, and its size is that of its buffers together.
\<close>

definition bio_in :: "nat \<Rightarrow> bio \<Rightarrow> bool" where
  "bio_in bytes b \<longleftrightarrow> unat (bi_sector b) * 512 + unat (bi_size b) \<le> bytes \<and>
     unat (bi_size b) = sum_list (map (\<lambda>v. unat (bv_len v)) (bi_io_vec b))"

definition xfer_in :: "nat \<Rightarrow> xfer \<Rightarrow> bool" where
  "xfer_in bytes x \<longleftrightarrow> unat (x_remote x) + x_bytes x \<le> bytes"

lemma unat_sector_bytes: "unat sector * 512 < 2 ^ 64 \<Longrightarrow> unat ((sector :: u64) * 512) = unat sector * 512"
  by (simp add: unat_word_ariths)

lemma unat_sector_advance:
  fixes sector :: u64 and n :: u32
  assumes "unat sector * 512 + unat n < 2 ^ 64"
  shows "unat (sector + drop_bit 9 (ucast n)) = unat sector + unat n div 512"
proof -
  have "unat (drop_bit 9 (ucast n :: u64)) = unat n div 512"
    by (simp only: unat_drop_bit_eq unat_ucast_32_64) (simp add: drop_bit_eq_div)
  then show ?thesis
    using assms by (subst unat_plus_no_wrap) auto
qed

lemma sum_list_strict:
  fixes f g :: "'a \<Rightarrow> nat"
  assumes "\<forall>x \<in> set xs. f x \<le> g x" and "x \<in> set xs" and "f x < g x"
  shows "sum_list (map f xs) < sum_list (map g xs)"
  using assms
proof (induction xs)
  case (Cons y ys)
  have "sum_list (map f ys) \<le> sum_list (map g ys)"
    using Cons.prems(1) by (intro sum_list_mono) simp
  then show ?case
    using Cons by (cases "x = y") (auto intro: add_le_less_mono)
qed simp

lemma bio_xfers_in:
  assumes "unat sector * 512 + sum_list (map (\<lambda>sg. unat (seg_bytes sg)) segs) \<le> bytes" and "bytes < 2 ^ 64"
    and "\<forall>sg \<in> set segs. 512 dvd unat (seg_bytes sg)"
  shows "\<forall>x \<in> set (bio_xfers V w sector segs). xfer_in bytes x"
  using assms
proof (induction V w sector segs rule: bio_xfers.induct)
  case (2 V w sector s ss)
  have b: "unat sector * 512 + unat (seg_bytes s) < 2 ^ 64"
    using "2.prems" by simp
  have "unat (seg_bytes s) div 512 * 512 = unat (seg_bytes s)"
    using "2.prems"(3) by simp
  then have "unat (sector + drop_bit 9 (ucast (seg_bytes s))) * 512 = unat sector * 512 + unat (seg_bytes s)"
    unfolding unat_sector_advance [OF b] by (simp add: algebra_simps)
  then show ?case
    using 2 b by (simp add: xfer_in_def unat_sector_bytes)
qed simp

lemma plain_bytes:
  assumes "bio_plain b"
  shows "sum_list (map (\<lambda>sg. unat (seg_bytes sg)) (bi_segs b)) = sum_list (map (\<lambda>v. unat (bv_len v)) (bi_io_vec b))"
  using assms by (auto simp: bio_plain_def bi_segs_def comp_def intro!: arg_cong [of _ _ sum_list])

lemma queue_xfers_in:
  assumes "all_bios (bio_in bytes) rqs" and "all_bios bio_plain rqs" and "bytes < 2 ^ 64"
  shows "\<forall>x \<in> set (queue_xfers V rqs). xfer_in bytes x"
proof -
  have "\<forall>x \<in> set (bio_xfers V (bi_write b) (bi_sector b) (bi_segs b)). xfer_in bytes x" if "bio_in bytes b" "bio_plain b" for b
    by (rule bio_xfers_in) (use that assms(3) plain_bytes [OF that(2)] in \<open>auto simp: bio_in_def bio_plain_def bi_segs_def\<close>)
  then show ?thesis
    using assms(1,2) by (fastforce simp: queue_xfers_def req_xfers_def all_bios_def)
qed

lemma xfer_in_join:
  assumes "xfer_in bytes x" and "xfer_in bytes y" and "adjacent x y" and "bytes < 2 ^ 64"
  shows "xfer_in bytes (join x y)"
proof -
  have "unat (x_remote x + of_nat (x_bytes x)) = unat (x_remote x) + x_bytes x"
    using assms(1,4) by (subst unat_plus_no_wrap) (auto simp: xfer_in_def unat_of_nat)
  then have "unat (x_remote x) + x_bytes x + x_bytes y \<le> bytes"
    using assms(2,3) by (simp add: xfer_in_def adjacent_def)
  moreover have "(x_bytes x + x_bytes y) mod 2 ^ 32 \<le> x_bytes x + x_bytes y"
    by (rule mod_less_eq_dividend)
  ultimately show ?thesis
    by (simp add: xfer_in_def join_def)
qed

section \<open>Too many requests\<close>

lemma sync_requests_append:
  "sync_requests step (xs @ ys) k s =
     bindR (sync_requests step xs k s) (\<lambda>(k', s'). sync_requests step ys k' s')"
  by (induction step xs k s rule: sync_requests.induct) (auto simp: bindR_assoc intro!: arg_cong [of _ _ "bindR _"])

lemma filter_split_at:
  "k < length (filter P xs) \<Longrightarrow> \<exists>pre x post. xs = pre @ x # post \<and> P x \<and> length (filter P pre) = k"
proof (induction xs arbitrary: k)
  case (Cons y ys)
  show ?case
  proof (cases "P y \<and> k = 0")
    case True
    then show ?thesis by (intro exI [of _ "[]"]) auto
  next
    case False
    then have "(if P y then k - 1 else k) < length (filter P ys)"
      using Cons.prems by (auto split: if_splits)
    from Cons.IH [OF this] obtain pre x post where
      "ys = pre @ x # post" "P x" "length (filter P pre) = (if P y then k - 1 else k)"
      by blast
    then show ?thesis
      using False by (intro exI [of _ "y # pre"] exI [of _ x] exI [of _ post]) auto
  qed
qed simp

lemma serves_prefix: "serves (ms @ ns) rs \<Longrightarrow> serves ms rs"
  by (induction ms arbitrary: rs) (auto split: option.splits)

lemma serves_batches_prefix:
  assumes "serves (map length (batches C (queue_xfers V (pre @ post)))) rs"
  shows "serves (map length (fst (batch_fold C (queue_xfers V pre) []))) rs"
proof -
  have "queue_xfers V (pre @ post) = queue_xfers V pre @ queue_xfers V post"
    by (simp add: queue_xfers_def)
  then show ?thesis
    using assms by (auto simp: batches_def batch_fold_append dest: serves_prefix)
qed

section \<open>An example device\<close>

text \<open>A device with room for two work requests, as the module sets it up, and a queue.\<close>

definition ex_conf :: conf where
  "ex_conf = conf_h\<lparr>MAX_REQ := 2\<rparr>"

definition ex_verbs :: verbs where
  "ex_verbs = \<lparr>dma_map = \<lambda>p n. Some p, post_send = \<lambda>_ _. 0, rdtsc = \<lambda>_. 0, cpu_khz = 1, poll_wc = [], poll_i = 0\<rparr>"

definition ex_ctx :: rdma_ctx where
  "ex_ctx = \<lparr>ctx_sock = 1, sock_live = False, server_addr = [], server_port = 0, send_cq = 1, recv_cq = 1, ctx_pd = 1, ctx_qp = 1,
     ctx_mr = Some \<lparr>mr_lkey = 7, mr_rkey = 8\<rparr>, ctx_rkey = 0, ctx_lid = 0, ctx_qpn = 0, ctx_psn = 0,
     rdma_recv_buffer = 0, ctx_dma_addr = 0, rem_mem_size = 65536, rem_qpn = 0, rem_psn = 0, rem_lid = 0,
     rem_vaddr = 0x7f0000000000, rem_rkey = 9, outstanding_requests = 0, ctx_pool = None\<rparr>"

definition ex_wr :: "nat \<Rightarrow> ib_send_wr" where
  "ex_wr i = zero_wr\<lparr>wr_sg_list := Some i, wr_num_sge := 1, wr_signaled := True, wr_rkey := 9\<rparr>"

definition ex_dev :: rmem_device where
  "ex_dev = \<lparr>dev_size = 65536, arr_lock = False, major_num = 0, dev_ctx = ex_ctx, wrs = [ex_wr 0, ex_wr 1],
     sges = [zero_sge\<lparr>sge_lkey := 7\<rparr>, zero_sge\<lparr>sge_lkey := 7\<rparr>], dev_rdma_req = [], dev_req_arr = [],
     dev_req_heap = (\<lambda>_. None), dev_head = 0, dev_tail = 0, blk_req = [0, 0]\<rparr>"

definition ex_queue :: "request list" where
  "ex_queue =
     [\<lparr>rq_at = 100, rq_fs = True, rq_cur_bytes = 4096, rq_bios = [\<lparr>bi_sector = 8, bi_write = True, bi_size = 12288, bi_cur_bytes = 4096,
        bi_io_vec = [\<lparr>bv_buf = 0x1000, bv_len = 4096\<rparr>, \<lparr>bv_buf = 0x2000, bv_len = 4096\<rparr>,
          \<lparr>bv_buf = 0x5000, bv_len = 4096\<rparr>]\<rparr>]\<rparr>,
      \<lparr>rq_at = 200, rq_fs = False, rq_cur_bytes = 512, rq_bios = []\<rparr>]"

text \<open>A bio of 4608 bytes in two buffers of different lengths.\<close>

definition ex_short :: "request list" where
  "ex_short =
     [\<lparr>rq_at = 100, rq_fs = True, rq_cur_bytes = 4096, rq_bios = [\<lparr>bi_sector = 8, bi_write = True, bi_size = 4608,
        bi_cur_bytes = 4096, bi_io_vec = [\<lparr>bv_buf = 0x1000, bv_len = 4096\<rparr>, \<lparr>bv_buf = 0x3000, bv_len = 512\<rparr>]\<rparr>]\<rparr>]"

definition ex_wc :: ib_wc where
  "ex_wc = \<lparr>wc_wr_id = 0, wc_status = IB_WC_SUCCESS\<rparr>"

definition ex_polls :: "poll list" where
  "ex_polls = [Completions [ex_wc], Completions [], Completions [ex_wc], Completions [],
     Completions [ex_wc], Poll_Error]"

lemma ex_conf_sel [simp]:
  "MODE ex_conf = MODE_SYNC" "COPY_LESS ex_conf" "SIMPLE_MAKE_WR ex_conf" "MAX_REQ ex_conf = 2"
  "\<not> MERGE_REQ ex_conf" "\<not> MEASURE_LATENCY ex_conf"
  by (simp_all add: ex_conf_def)

lemma ex_ready: "sync_ready ex_conf ex_verbs ex_ctx 7 ex_dev"
  by (auto simp: sync_ready_def sync_conf_def copyless_dev_def ex_dev_def ex_ctx_def ctx_eq_def wr_ready_def
      ex_wr_def less_2_cases_iff accepting_def ex_verbs_def)

lemma ex_queue_fs: "filter rq_fs ex_queue = [hd ex_queue]" "filter (\<lambda>rq. \<not> rq_fs rq) ex_queue = tl ex_queue"
    "rq_at (hd ex_queue) = 100"
  by (simp_all add: ex_queue_def)

lemma ex_dma: "dma_reaches ex_verbs id"
  by (simp add: dma_reaches_def reaches_def ex_verbs_def)

lemma ex_queue_plain: "all_bios bio_plain ex_queue" "all_bios (bio_mapped ex_verbs) ex_queue"
  by (simp_all add: ex_queue_def bio_plain_def bio_mapped_def ex_verbs_def)

lemma ex_queue_xfers: "queue_xfers ex_verbs ex_queue =
    [Xfer IB_WR_RDMA_WRITE 0x1000 4096 4096, Xfer IB_WR_RDMA_WRITE 0x2000 8192 4096,
     Xfer IB_WR_RDMA_WRITE 0x5000 12288 4096]"
  by (simp add: queue_xfers_def req_xfers_def bi_segs_def ex_queue_def opcode_of_def bio_op_def rdma_map_address_def
      ex_verbs_def drop_bit_eq_div)

lemma ex_batches: "batches ex_conf (queue_xfers ex_verbs ex_queue) =
    [[Xfer IB_WR_RDMA_WRITE 0x1000 4096 4096, Xfer IB_WR_RDMA_WRITE 0x2000 8192 4096],
     [Xfer IB_WR_RDMA_WRITE 0x5000 12288 4096]]"
  by (simp add: ex_queue_xfers batches_def batch_join_def Let_def)

lemma ex_serves: "serves (map length (batches ex_conf (queue_xfers ex_verbs ex_queue))) ex_polls"
  by (simp add: ex_batches ex_polls_def)

section \<open>Properties\<close>

text \<open>
  C2. \<open>rmem_request_sync\<close> on a queue of at most \<open>MAX_REQ\<close> file system requests
  returns whenever the completion queue completes each batch. It posts exactly
  the batches of the queue's transfers, in order; when it starts to end the
  requests nothing is in flight any more and no file system request has been
  ended; it then ends each of them once with success, in order. The other
  requests have been ended with \<open>-EIO\<close>. The device is ready for the next call.
\<close>
theorem rmem_request_sync_correct:
  assumes "sync_ready C V ctx lkey dev"
    and "serves (map length (batches C (queue_xfers V rqs))) rs"
    and "length (filter rq_fs rqs) \<le> MAX_REQ C"
  shows "\<exists>dev' tr' rs'. rmem_request_sync C V rs dev rqs tr =
      Inr (dev', tr' @ map (\<lambda>rq. End_Request_All (rq_at rq) 0) (filter rq_fs rqs), rs') \<and>
    sync_ready C V ctx lkey dev' \<and>
    posts_of tr' = posts_of tr @ concat (map (sync_posts C ctx lkey) (batches C (queue_xfers V rqs))) \<and>
    in_flight tr' = in_flight tr \<and>
    filter is_end tr' = filter is_end tr @
      map (\<lambda>rq. End_Request (rq_at rq) (- EIO) (rq_cur_bytes rq)) (filter (\<lambda>rq. \<not> rq_fs rq) rqs)"
  using assms by (rule request_sync_run)

theorem rmem_request_sync_correct_witness:
  "\<exists>dev' tr' rs'. rmem_request_sync ex_conf ex_verbs ex_polls ex_dev ex_queue [] =
      Inr (dev', tr' @ [End_Request_All 100 0], rs') \<and> in_flight tr' = 0 \<and>
    map length (posts_of tr') = [2, 1] \<and> filter is_end tr' = [End_Request 200 (-5) 512]"
proof -
  have "length (filter rq_fs ex_queue) \<le> MAX_REQ ex_conf"
    by (simp add: ex_queue_fs)
  from rmem_request_sync_correct [OF ex_ready ex_serves this, of "[]"]
  obtain dev' tr' rs' where "rmem_request_sync ex_conf ex_verbs ex_polls ex_dev ex_queue [] =
      Inr (dev', tr' @ map (\<lambda>rq. End_Request_All (rq_at rq) 0) (filter rq_fs ex_queue), rs')"
      "posts_of tr' = concat (map (sync_posts ex_conf ex_ctx 7) (batches ex_conf (queue_xfers ex_verbs ex_queue)))"
      "in_flight tr' = 0"
      "filter is_end tr' =
        map (\<lambda>rq. End_Request (rq_at rq) (- EIO) (rq_cur_bytes rq)) (filter (\<lambda>rq. \<not> rq_fs rq) ex_queue)"
    by auto
  then show ?thesis
    by (intro exI [of _ dev'] exI [of _ tr'] exI [of _ rs'])
      (simp add: ex_queue_fs ex_batches sync_posts_def, simp add: ex_queue_def)
qed



lemma posts_in:
  assumes "all_bios (bio_in bytes) rqs" and "all_bios bio_plain rqs" and "bytes < 2 ^ 64"
    and "p \<in> set (concat (concat (map (sync_posts C ctx lkey) (batches C (queue_xfers V rqs)))))"
  shows "p_rkey p = rem_rkey ctx \<and> (\<exists>off. p_remote_addr p = rem_vaddr ctx + off \<and> unat off + unat (p_length p) \<le> bytes)"
proof -
  let ?bs = "batches C (queue_xfers V rqs)"
  have "\<forall>x \<in> set (concat ?bs). xfer_in bytes x"
    by (rule batches_all) (use xfer_in_join [OF _ _ _ assms(3)] queue_xfers_in [OF assms(1-3)] in blast)+
  moreover obtain x where x: "x \<in> set (concat ?bs)" "p = posted_xfer ctx lkey x"
    using assms(4) unfolding concat_sync_posts by auto
  ultimately have "unat (x_remote x) + x_bytes x \<le> bytes" "x_bytes x < 2 ^ 32"
    using batches_small [of C V rqs] by (auto simp: xfer_in_def)
  then show ?thesis
    using x(2) by (auto simp: posted_xfer_def unat_of_nat)
qed

lemma sync_in_bounds:
  assumes "sync_ready C V ctx lkey dev"
    and "serves (map length (batches C (queue_xfers V rqs))) rs"
    and "length (filter rq_fs rqs) \<le> MAX_REQ C"
    and "all_bios (bio_in bytes) rqs" and "all_bios bio_plain rqs" and "bytes < 2 ^ 64"
  shows "\<exists>dev' tr' rs'. rmem_request_sync C V rs dev rqs [] = Inr (dev', tr', rs') \<and>
    (\<forall>p \<in> set (concat (posts_of tr')). p_rkey p = rem_rkey ctx \<and>
      (\<exists>off. p_remote_addr p = rem_vaddr ctx + off \<and> unat off + unat (p_length p) \<le> bytes))"
proof -
  obtain dev' tr' rs' where "rmem_request_sync C V rs dev rqs [] = Inr (dev', tr', rs')"
      "posts_of tr' = concat (map (sync_posts C ctx lkey) (batches C (queue_xfers V rqs)))"
    by (rule request_sync_posted [OF assms(1-3)])
  then show ?thesis
    using posts_in [OF assms(4-6)] by metis
qed



lemma total_bytes_bio: "total_bytes (bio_xfers V w sector segs) = sum_list (map (\<lambda>sg. unat (seg_bytes sg)) segs)"
  by (induction V w sector segs rule: bio_xfers.induct) simp_all

text \<open>
  C0. The driver takes the length of every buffer of a bio from \<open>bio_cur_bytes\<close>, which is
  that of the current one. A bio whose later buffers are shorter makes it transfer more
  bytes than the bio covers: as many times the length of the current buffer as there are
  buffers. A read then overwrites memory behind the shorter buffers, a write sectors
  behind the bio.
\<close>
theorem rmem_request_sync_overshoots:
  assumes "sync_ready C V ctx lkey dev" and "\<not> MERGE_REQ C"
    and "rqs = [rq]" and "rq_fs rq" and "rq_bios rq = [b]" and "v \<in> set (bi_io_vec b)"
    and "\<forall>v \<in> set (bi_io_vec b). bv_len v \<le> bi_cur_bytes b" and "bv_len v < bi_cur_bytes b"
    and "unat (bi_size b) = sum_list (map (\<lambda>v. unat (bv_len v)) (bi_io_vec b))"
    and "serves (map length (batches C (queue_xfers V rqs))) rs"
  shows "\<exists>dev' tr' rs'. rmem_request_sync C V rs dev rqs [] = Inr (dev', tr', rs') \<and>
    sum_list (map (\<lambda>p. unat (p_length p)) (concat (posts_of tr'))) = length (bi_io_vec b) * unat (bi_cur_bytes b) \<and>
    unat (bi_size b) < length (bi_io_vec b) * unat (bi_cur_bytes b)"
proof -
  have "length (filter rq_fs rqs) \<le> MAX_REQ C"
    using assms(1,3,4) by (simp add: sync_ready_def sync_conf_def Suc_leI)
  then obtain dev' tr' rs' where run: "rmem_request_sync C V rs dev rqs [] = Inr (dev', tr', rs')"
      and p: "posts_of tr' = concat (map (sync_posts C ctx lkey) (batches C (queue_xfers V rqs)))"
    by (rule request_sync_posted [OF assms(1,10)])
  let ?xs = "bio_xfers V (bi_write b) (bi_sector b) (bi_segs b)"
  have x: "queue_xfers V rqs = ?xs"
    using assms(3-5) by (simp add: req_xfers_def)
  have "concat (posts_of tr') = map (posted_xfer ctx lkey) ?xs"
    unfolding p concat_sync_posts concat_batches [OF assms(2)] x ..
  moreover have "unat (p_length (posted_xfer ctx lkey y)) = x_bytes y" if "y \<in> set ?xs" for y
    using bio_xfers_small that by (simp add: posted_xfer_def unat_of_nat)
  ultimately have "sum_list (map (\<lambda>p. unat (p_length p)) (concat (posts_of tr'))) = total_bytes ?xs"
    by (simp add: comp_def cong: map_cong)
  then have "sum_list (map (\<lambda>p. unat (p_length p)) (concat (posts_of tr'))) = length (bi_io_vec b) * unat (bi_cur_bytes b)"
    by (simp add: total_bytes_bio bi_segs_def comp_def sum_list_triv)
  moreover have "sum_list (map (\<lambda>v. unat (bv_len v)) (bi_io_vec b)) < sum_list (map (\<lambda>v. unat (bi_cur_bytes b)) (bi_io_vec b))"
  proof (rule sum_list_strict)
    show "\<forall>v \<in> set (bi_io_vec b). unat (bv_len v) \<le> unat (bi_cur_bytes b)"
      using assms(7) by (simp add: word_le_nat_alt)
  qed (use assms(6,8) in \<open>simp_all add: word_less_nat_alt\<close>)
  ultimately show ?thesis
    using run assms(9) by (simp add: sum_list_triv)
qed

theorem rmem_request_sync_overshoots_witness:
  "\<exists>dev' tr' rs'. rmem_request_sync ex_conf ex_verbs [Completions [ex_wc, ex_wc], Completions []] ex_dev ex_short [] =
      Inr (dev', tr', rs') \<and>
    sum_list (map (\<lambda>p. unat (p_length p)) (concat (posts_of tr'))) = 8192 \<and> bi_size (hd (rq_bios (hd ex_short))) = 4608"
proof -
  have "serves (map length (batches ex_conf (queue_xfers ex_verbs ex_short))) [Completions [ex_wc, ex_wc], Completions []]"
    by (simp add: ex_short_def req_xfers_def bi_segs_def batches_def batch_join_def Let_def)
  from rmem_request_sync_overshoots [OF ex_ready _ _ _ _ _ _ _ _ this, of "hd ex_short" "hd (rq_bios (hd ex_short))"
      "\<lparr>bv_buf = 0x3000, bv_len = 512\<rparr>"]
  show ?thesis
    by (simp add: ex_short_def)
qed

text \<open>
  C8. The two variants of the inner loop are interchangeable. The one that chains
  prepared work requests and posts a batch at a time, and the one that collects
  requests in an array and posts them one by one through \<open>rdma_op\<close>, both return on the
  same answers of the card, post the same work requests in the same order, and end the
  same requests.
\<close>
theorem copyless_equals_array:
  assumes "sync_ready C V ctx lkey dev" and "COPY_LESS C" and "sync_ready C' V ctx lkey dev'" and "\<not> COPY_LESS C'"
    and "MAX_REQ C' = MAX_REQ C" and "MERGE_REQ C' = MERGE_REQ C"
    and "serves (map length (batches C (queue_xfers V rqs))) rs" and "length (filter rq_fs rqs) \<le> MAX_REQ C"
  shows "\<exists>d1 tr1 rs1 d2 tr2 rs2. rmem_request_sync C V rs dev rqs [] = Inr (d1, tr1, rs1) \<and>
    rmem_request_sync C' V rs dev' rqs [] = Inr (d2, tr2, rs2) \<and>
    concat (posts_of tr1) = concat (posts_of tr2) \<and> filter is_end tr1 = filter is_end tr2"
proof -
  let ?ends = "map (\<lambda>rq. End_Request_All (rq_at rq) 0) (filter rq_fs rqs)"
  let ?bs = "batches C (queue_xfers V rqs)"
  have b: "batches C' (queue_xfers V rqs) = ?bs"
    using batches_cong [of C' C] assms(5,6) by simp
  obtain d1 t1 rs1 where 1: "rmem_request_sync C V rs dev rqs [] = Inr (d1, t1 @ ?ends, rs1)"
      "posts_of t1 = concat (map (sync_posts C ctx lkey) ?bs)"
      "filter is_end t1 = map (\<lambda>rq. End_Request (rq_at rq) (- EIO) (rq_cur_bytes rq)) (filter (\<lambda>rq. \<not> rq_fs rq) rqs)"
    using request_sync_run [OF assms(1,7,8), of "[]"] by auto
  obtain d2 t2 rs2 where 2: "rmem_request_sync C' V rs dev' rqs [] = Inr (d2, t2 @ ?ends, rs2)"
      "posts_of t2 = concat (map (sync_posts C' ctx lkey) ?bs)"
      "filter is_end t2 = map (\<lambda>rq. End_Request (rq_at rq) (- EIO) (rq_cur_bytes rq)) (filter (\<lambda>rq. \<not> rq_fs rq) rqs)"
    using request_sync_run [OF assms(3), of rqs rs "[]"] assms(5,7,8) b by auto
  have "concat (posts_of (t1 @ ?ends)) = concat (posts_of (t2 @ ?ends))" "filter is_end (t1 @ ?ends) = filter is_end (t2 @ ?ends)"
    by (simp_all add: 1(2,3) 2(2,3) concat_sync_posts)
  then show ?thesis
    using 1(1) 2(1) by blast
qed

theorem copyless_equals_array_witness:
  "\<exists>d1 tr1 rs1 d2 tr2 rs2. rmem_request_sync ex_conf ex_verbs ex_polls ex_dev ex_queue [] = Inr (d1, tr1, rs1) \<and>
    rmem_request_sync (ex_conf\<lparr>COPY_LESS := False\<rparr>) ex_verbs ex_polls
      (ex_dev\<lparr>dev_rdma_req := replicate 2 \<lparr>rr_rw = RDMA_READ, rr_dma_addr = 0, rr_remote_offset = 0, rr_length = 0, rr_batch_req = 0\<rparr>\<rparr>)
      ex_queue [] = Inr (d2, tr2, rs2) \<and>
    concat (posts_of tr1) = concat (posts_of tr2)"
proof -
  let ?C = "ex_conf\<lparr>COPY_LESS := False\<rparr>"
  let ?dev = "ex_dev\<lparr>dev_rdma_req := replicate 2 \<lparr>rr_rw = RDMA_READ, rr_dma_addr = 0, rr_remote_offset = 0, rr_length = 0, rr_batch_req = 0\<rparr>\<rparr>"
  have "sync_ready ?C ex_verbs ex_ctx 7 ?dev"
    using ex_ready by (simp add: sync_ready_def sync_conf_def copyless_dev_def array_dev_def accepting_def ex_verbs_def)
  moreover have "length (filter rq_fs ex_queue) \<le> MAX_REQ ex_conf"
    by (simp add: ex_queue_fs)
  ultimately show ?thesis
    using copyless_equals_array [OF ex_ready, of ?C ?dev ex_queue ex_polls] ex_serves by fastforce
qed

text \<open>
  C33. \<open>blk_req\<close> has room for \<open>MAX_REQ\<close> requests and the loop never checks it: a call
  that finds more file system requests than that in the queue writes past the
  end of the array, however well the card behaves.
\<close>
theorem rmem_request_sync_overflow:
  assumes "sync_ready C V ctx lkey dev"
    and "serves (map length (batches C (queue_xfers V rqs))) rs"
    and "MAX_REQ C < length (filter rq_fs rqs)"
  shows "rmem_request_sync C V rs dev rqs tr = Inl Out_Of_Bounds"
proof -
  obtain pre rq post where rqs: "rqs = pre @ rq # post" "rq_fs rq" "length (filter rq_fs pre) = MAX_REQ C"
    using filter_split_at [OF assms(3)] by blast
  let ?s = "\<lparr>ss_dev = dev, ss_count = 0, ss_tr = tr, ss_polls = rs\<rparr>"
  have len: "length (blk_req dev) = MAX_REQ C"
    using assms(1) by (simp add: sync_ready_def)
  have "serves (map length (fst (batch_fold C (queue_xfers V pre) [])) @ []) (ss_polls ?s)"
    using serves_batches_prefix assms(2) rqs(1) by simp
  from sy.requests_ok [OF rel_sync_start [OF assms(1)] this, of 0] len rqs(3)
  obtain s' where s': "sync_requests (sync_step C V) pre 0 ?s = Inr (MAX_REQ C, s')"
    by auto
  have "arr_set (blk_req (ss_dev s')) (int (MAX_REQ C)) (rq_at rq) = Inl Out_Of_Bounds"
    using sync_requests_blk [OF keeps_blk_sync_step s'] len by simp
  then have "sync_requests (sync_step C V) rqs 0 ?s = Inl Out_Of_Bounds"
    unfolding rqs(1) sync_requests_append s' using rqs(2) by simp
  then show ?thesis
    unfolding rmem_request_sync_def Let_def by simp
qed

theorem rmem_request_sync_overflow_witness:
  "rmem_request_sync ex_conf ex_verbs [] ex_dev
     (replicate 3 \<lparr>rq_at = 100, rq_fs = True, rq_cur_bytes = 0, rq_bios = []\<rparr>) [] = Inl Out_Of_Bounds"
  by (rule rmem_request_sync_overflow [OF ex_ready])
    (simp_all add: batches_def queue_xfers_def req_xfers_def numeral_3_eq_3)

end
