(* ===== verification/Request_Array.thy ===== *)
theory Request_Array
  imports Block
begin

text \<open>
  The circular array of request arrays that a device keeps in the asynchronous
  modes: \<open>get_rdma_request_arr\<close> and \<open>return_rdma_request_arr\<close> of \<open>src/rmem.c\<close> (lines
  75 to 114), and its set-up and release in \<open>rmem_init\<close> (lines 692 to 700) and
  \<open>rmem_exit\<close> (lines 820 to 824). It is the second implementation of \<open>slot_ring\<close>;
  unlike the batch request pool it stops the kernel on every misuse.
\<close>

section \<open>The code\<close>

definition get_rdma_request_arr :: "conf \<Rightarrow> rmem_device \<Rightarrow> (ptr \<times> rmem_device) result" where
  "get_rdma_request_arr C d =
     bindR (spin_lock (arr_lock d)) (\<lambda>l.
     if dev_head d = dev_tail d then Inl Bug
     else
       bindR (arr_get (dev_req_arr d) (dev_head d)) (\<lambda>ret.
       bindR (assertR (ret \<noteq> NULL) Bug) (\<lambda>_.
       bindR (arr_set (dev_req_arr d) (dev_head d) NULL) (\<lambda>a.
       bindR (c_mod (dev_head d + 1) (int (REQ_ARR_SIZE C))) (\<lambda>h.
       Inr (ret, d\<lparr>dev_req_arr := a, dev_head := h, arr_lock := spin_unlock l\<rparr>))))))"

definition return_rdma_request_arr :: "conf \<Rightarrow> rmem_device \<Rightarrow> ptr \<Rightarrow> rmem_device result" where
  "return_rdma_request_arr C d req =
     bindR (assertR (req \<noteq> NULL) Bug) (\<lambda>_.
     bindR (spin_lock (arr_lock d)) (\<lambda>l.
     bindR (c_mod (dev_tail d + 1) (int (REQ_ARR_SIZE C))) (\<lambda>new_tail.
     if new_tail = dev_head d then Inl Bug
     else bindR (arr_get (dev_req_arr d) new_tail) (\<lambda>x.
       if x \<noteq> NULL then Inl Bug
       else bindR (arr_set (dev_req_arr d) new_tail req) (\<lambda>a.
         Inr (d\<lparr>dev_req_arr := a, dev_tail := new_tail, arr_lock := spin_unlock l\<rparr>))))))"

text \<open>
  \<open>rmem_init\<close>: head, tail and the arrays. \<open>vm i\<close> is the address that the \<open>i\<close>-th
  \<open>vmalloc\<close> returns, which the code stores unchecked; \<open>junk\<close> is what the fresh array
  holds.
\<close>

fun alloc_req_arrays :: "conf \<Rightarrow> (nat \<Rightarrow> ptr) \<Rightarrow> rdma_request \<Rightarrow> nat \<Rightarrow> nat \<Rightarrow> rmem_device \<Rightarrow> rmem_device" where
  "alloc_req_arrays C vm junk i 0 d = d"
| "alloc_req_arrays C vm junk i (Suc k) d =
     alloc_req_arrays C vm junk (Suc i) k
       (d\<lparr>dev_req_arr := dev_req_arr d @ [vm i],
         dev_req_heap := (if vm i = NULL then dev_req_heap d
                          else (dev_req_heap d)(vm i \<mapsto> replicate (MAX_REQ C) junk))\<rparr>)"

definition init_req_arrays :: "conf \<Rightarrow> (nat \<Rightarrow> ptr) \<Rightarrow> rdma_request \<Rightarrow> rmem_device \<Rightarrow> rmem_device" where
  "init_req_arrays C vm junk d =
     (let d' = d\<lparr>arr_lock := False, dev_head := 0, dev_tail := int (REQ_ARR_SIZE C) - 1\<rparr> in
      if MODE C = MODE_SYNC then d'
      else alloc_req_arrays C vm junk 0 (REQ_ARR_SIZE C) (d'\<lparr>dev_req_arr := [], dev_req_heap := Map.empty\<rparr>))"

text \<open>\<open>rmem_exit\<close>: the addresses given to \<open>vfree\<close>.\<close>

definition free_req_arrays :: "conf \<Rightarrow> rmem_device \<Rightarrow> ptr list" where
  "free_req_arrays C d = (if MODE C = MODE_SYNC then []
     else filter (\<lambda>p. p \<noteq> NULL) (take (REQ_ARR_SIZE C) (dev_req_arr d)))"

section \<open>The contract\<close>

definition arr_items :: "rmem_device \<Rightarrow> ptr list" where
  "arr_items d = ring_items (dev_req_arr d) (nat (dev_head d)) (nat (dev_tail d))"

definition arr_inv :: "conf \<Rightarrow> rmem_device \<Rightarrow> bool" where
  "arr_inv C d \<longleftrightarrow> \<not> arr_lock d \<and> length (dev_req_arr d) = REQ_ARR_SIZE C \<and>
     0 \<le> dev_head d \<and> 0 \<le> dev_tail d \<and>
     ring_ok (dev_req_arr d) (nat (dev_head d)) (nat (dev_tail d))"

lemma arr_invE:
  assumes "arr_inv C d"
  obtains h t where "dev_head d = int h" "dev_tail d = int t" "ring_ok (dev_req_arr d) h t"
    "length (dev_req_arr d) = REQ_ARR_SIZE C" "\<not> arr_lock d"
    "arr_items d = ring_items (dev_req_arr d) h t"
  using assms that [of "nat (dev_head d)" "nat (dev_tail d)"] by (simp add: arr_inv_def arr_items_def)

lemma get_rdma_request_arr_ok:
  assumes "arr_inv C d" and "1 < length (arr_items d)"
  shows "\<exists>a h. get_rdma_request_arr C d =
      Inr (hd (arr_items d), d\<lparr>dev_req_arr := a, dev_head := h, arr_lock := False\<rparr>) \<and>
    arr_inv C (d\<lparr>dev_req_arr := a, dev_head := h, arr_lock := False\<rparr>) \<and>
    arr_items (d\<lparr>dev_req_arr := a, dev_head := h, arr_lock := False\<rparr>) = tl (arr_items d)"
proof -
  from assms(1) obtain h t where ht: "dev_head d = int h" "dev_tail d = int t"
      and ok: "ring_ok (dev_req_arr d) h t" and sz: "length (dev_req_arr d) = REQ_ARR_SIZE C"
      and lk: "\<not> arr_lock d" and it: "arr_items d = ring_items (dev_req_arr d) h t"
    by (rule arr_invE)
  note bd = ring_ok_bounds [OF ok]
  have ne: "h \<noteq> t"
    using assms(2) bd it ring_count_one_iff [of h "length (dev_req_arr d)" t] by auto
  have hd: "hd (arr_items d) = dev_req_arr d ! h"
    using ring_items_Cons [OF ok] it by (metis list.sel(1))
  show ?thesis
    using bd ring_head_nonnull [OF ok] ht sz lk hd ne ring_ok_take [OF ok ne] ring_items_take [OF ok ne] it
    by (intro exI [of _ "(dev_req_arr d)[h := NULL]"] exI [of _ "int (Suc h mod length (dev_req_arr d))"])
      (simp add: get_rdma_request_arr_def arr_inv_def arr_items_def)
qed

lemma return_rdma_request_arr_ok:
  assumes "arr_inv C d" and "length (arr_items d) < REQ_ARR_SIZE C" and r: "r \<noteq> NULL"
  shows "\<exists>a t. return_rdma_request_arr C d r = Inr (d\<lparr>dev_req_arr := a, dev_tail := t, arr_lock := False\<rparr>) \<and>
    arr_inv C (d\<lparr>dev_req_arr := a, dev_tail := t, arr_lock := False\<rparr>) \<and>
    arr_items (d\<lparr>dev_req_arr := a, dev_tail := t, arr_lock := False\<rparr>) = arr_items d @ [r]"
proof -
  from assms(1) obtain h t where ht: "dev_head d = int h" "dev_tail d = int t"
      and ok: "ring_ok (dev_req_arr d) h t" and sz: "length (dev_req_arr d) = REQ_ARR_SIZE C"
      and lk: "\<not> arr_lock d" and it: "arr_items d = ring_items (dev_req_arr d) h t"
    by (rule arr_invE)
  note bd = ring_ok_bounds [OF ok]
  have ne: "Suc t mod length (dev_req_arr d) \<noteq> h"
    using ring_count_full_iff [OF bd(1,2)] assms(2) sz it by simp
  show ?thesis
    using bd ht sz lk r ring_give_slot_free [OF ok ne] ring_ok_give [OF ok ne r] ring_items_give [OF ok ne] ne it
    by (intro exI [of _ "(dev_req_arr d)[Suc t mod length (dev_req_arr d) := r]"]
        exI [of _ "int (Suc t mod length (dev_req_arr d))"])
      (simp add: return_rdma_request_arr_def arr_inv_def arr_items_def)
qed

interpretation ra: slot_ring "arr_inv C" arr_items "\<lambda>_. REQ_ARR_SIZE C" "get_rdma_request_arr C"
  "return_rdma_request_arr C" for C
proof (unfold_locales, goal_cases)
  case (1 d)
  then show ?case
    by (auto simp: arr_inv_def arr_items_def ring_ok_def dest: ring_count_bounds [of _ "length (dev_req_arr d)"])
next
  case (2 d)
  then show ?case by (auto simp: arr_inv_def arr_items_def dest: ring_items_nonnull)
next
  case (3 d)
  then show ?case using get_rdma_request_arr_ok [of C d] by auto
next
  case (4 d r)
  then show ?case using return_rdma_request_arr_ok [of C d r] by auto
qed

section \<open>Set-up\<close>

lemma alloc_req_arrays_arr:
  "dev_req_arr (alloc_req_arrays C vm junk i k d) = dev_req_arr d @ map vm [i..<i + k]"
  by (induction k arbitrary: i d) (simp_all add: upt_rec)

lemma alloc_req_arrays_frame [simp]:
  "arr_lock (alloc_req_arrays C vm junk i k d) = arr_lock d"
  "dev_head (alloc_req_arrays C vm junk i k d) = dev_head d"
  "dev_tail (alloc_req_arrays C vm junk i k d) = dev_tail d"
  by (induction k arbitrary: i d) simp_all

lemma init_req_arrays_ok:
  assumes "MODE C \<noteq> MODE_SYNC" and "0 < REQ_ARR_SIZE C" and "\<And>i. i < REQ_ARR_SIZE C \<Longrightarrow> vm i \<noteq> NULL"
  shows "arr_inv C (init_req_arrays C vm junk d)"
    and "arr_items (init_req_arrays C vm junk d) = map vm [0..<REQ_ARR_SIZE C]"
proof -
  let ?a = "map vm [0..<REQ_ARR_SIZE C]"
  have a: "dev_req_arr (init_req_arrays C vm junk d) = ?a"
    using assms(1) by (simp add: init_req_arrays_def Let_def alloc_req_arrays_arr)
  have "?a \<noteq> []" "NULL \<notin> set ?a"
    using assms(2,3) by auto
  from ring_ok_full [OF this] ring_items_full [OF this(1)]
  show "arr_inv C (init_req_arrays C vm junk d)" "arr_items (init_req_arrays C vm junk d) = ?a"
    using assms(1,2) a by (simp_all add: arr_inv_def arr_items_def init_req_arrays_def Let_def
        nat_diff_distrib)
qed

section \<open>Properties\<close>

text \<open>
  C19. The request arrays of a device set up by \<open>rmem_init\<close> are a bounded queue: along
  every schedule of gets and returns that keeps one array in place and gives back
  only held arrays, no call stops the kernel, no array is lost, and no array is
  held twice.
\<close>
theorem request_arrays_exclusive:
  assumes "MODE C \<noteq> MODE_SYNC" and "0 < REQ_ARR_SIZE C" and "\<And>i. i < REQ_ARR_SIZE C \<Longrightarrow> vm i \<noteq> NULL"
    and "inj_on vm {0..<REQ_ARR_SIZE C}"
    and "queue_run (REQ_ARR_SIZE C) ss (map vm [0..<REQ_ARR_SIZE C], []) = Some (q, held)"
  shows "\<exists>d'. ring_run (get_rdma_request_arr C) (return_rdma_request_arr C) ss
      (init_req_arrays C vm junk d, []) = Inr (d', held) \<and>
    arr_items d' = q \<and> distinct (q @ held) \<and> mset (q @ held) = mset (map vm [0..<REQ_ARR_SIZE C])"
proof -
  have init: "arr_inv C (init_req_arrays C vm junk d)"
      "arr_items (init_req_arrays C vm junk d) = map vm [0..<REQ_ARR_SIZE C]"
    by (rule init_req_arrays_ok; use assms(1-3) in auto)+
  have run: "queue_run (REQ_ARR_SIZE C) ss (arr_items (init_req_arrays C vm junk d), []) = Some (q, held)"
    using assms(5) init(2) by simp
  have "distinct (arr_items (init_req_arrays C vm junk d))"
    using assms(4) init(2) by (simp add: distinct_map)
  then have "distinct (q @ held)"
    using queue_run_distinct [OF run] by simp
  moreover have "mset (q @ held) = mset (arr_items (init_req_arrays C vm junk d))"
    using queue_run_conserves [OF run] by simp
  ultimately show ?thesis
    using ra.ring_run_refines [OF run init(1)] unfolding init(2) by (metis empty_iff list.set(1))
qed

theorem request_arrays_exclusive_witness:
  "\<forall>junk d. \<exists>d'. ring_run (get_rdma_request_arr (conf_h\<lparr>MODE := MODE_ONE\<rparr>))
      (return_rdma_request_arr (conf_h\<lparr>MODE := MODE_ONE\<rparr>))
      [Acquire, Release 1, Acquire] (init_req_arrays (conf_h\<lparr>MODE := MODE_ONE\<rparr>)
        (\<lambda>i. word_of_nat (Suc i)) junk d, []) = Inr (d', [2]) \<and> arr_items d' = [3, 4, 5, 6, 7, 8, 9, 10, 1]"
proof (intro allI)
  fix junk d
  let ?C = "conf_h\<lparr>MODE := MODE_ONE\<rparr>" and ?vm = "\<lambda>i. word_of_nat (Suc i) :: ptr"
  have range: "{0..<10} = {0, 1, 2, 3, 4, 5, 6, 7, 8, 9 :: nat}" by auto
  have "?vm i \<noteq> NULL" if "i < 10" for i
    using that by (auto simp: word_of_nat_eq_0_iff simp del: of_nat_Suc dest: dvd_imp_le)
  moreover have "inj_on ?vm {0..<10}"
    unfolding range by simp
  moreover have "queue_run 10 [Acquire, Release 1, Acquire] (map ?vm [0..<10], []) =
      Some ([3, 4, 5, 6, 7, 8, 9, 10, 1], [2])"
    by (simp add: upt_rec)
  ultimately show "\<exists>d'. ring_run (get_rdma_request_arr ?C) (return_rdma_request_arr ?C)
      [Acquire, Release 1, Acquire] (init_req_arrays ?C ?vm junk d, []) = Inr (d', [2]) \<and>
      arr_items d' = [3, 4, 5, 6, 7, 8, 9, 10, 1]"
    using request_arrays_exclusive [where C = ?C and vm = ?vm and ss = "[Acquire, Release 1, Acquire]"
        and q = "[3, 4, 5, 6, 7, 8, 9, 10, 1]" and held = "[2]" and junk = junk and d = d]
    by (simp del: of_nat_Suc) blast
qed

end
