(* ===== verification/Request_Async.thy ===== *)
theory Request_Async
  imports Sync_Correct Request_Array
begin

text \<open>
  The asynchronous mode: \<open>rmem_request_async\<close> of \<open>src/rmem.c\<close> (lines 118 to 214) and
  the completion handler \<open>comp_handler_send\<close> of \<open>src/rdma_library.c\<close> (lines 561 to
  629). A batch request follows each block request; a block request whose
  segments were all merged into its predecessor's work requests is chained behind
  it; the handler ends a block request and the chain behind it when the last of
  its work requests completes.

  The array of requests a call works on is read from and written back to the
  device's storage at its two ends, since no one else holds it in between.
\<close>

section \<open>Batch requests of a device\<close>

definition with_pool :: "rmem_device \<Rightarrow> batch_request_pool \<Rightarrow> rmem_device" where
  "with_pool d p = d\<lparr>dev_ctx := (dev_ctx d)\<lparr>ctx_pool := Some p\<rparr>\<rparr>"

definition dev_pool :: "rmem_device \<Rightarrow> batch_request_pool result" where
  "dev_pool d = (case ctx_pool (dev_ctx d) of None \<Rightarrow> Inl Null_Deref | Some p \<Rightarrow> Inr p)"

definition read_batch :: "rmem_device \<Rightarrow> ptr \<Rightarrow> batch_request result" where
  "read_batch d b = bindR (dev_pool d) (\<lambda>p. deref (pool_heap p) b)"

definition write_batch :: "rmem_device \<Rightarrow> ptr \<Rightarrow> (batch_request \<Rightarrow> batch_request) \<Rightarrow> rmem_device result" where
  "write_batch d b f =
     bindR (dev_pool d) (\<lambda>p.
     bindR (deref (pool_heap p) b) (\<lambda>x.
     Inr (with_pool d (p\<lparr>pool_heap := (pool_heap p)(b \<mapsto> f x)\<rparr>))))"

section \<open>The request function\<close>

record async_state =
  as_dev :: rmem_device
  as_arr :: "rdma_request list"
  as_count :: nat
  as_tr :: "io_event list"

text \<open>One segment (lines 165 to 195).\<close>

definition async_segment :: "conf \<Rightarrow> verbs \<Rightarrow> ptr \<Rightarrow> bool \<Rightarrow> u64 \<Rightarrow> bio_seg \<Rightarrow> async_state \<Rightarrow>
    async_state result" where
  "async_segment C V batch_req w sector seg s =
     (let n = as_count s; len = drop_bit 9 (seg_bytes seg) * 512 in
      bindR (arr_get (as_arr s) (int n)) (\<lambda>r0.
      let cur = r0\<lparr>rr_rw := bio_op w, rr_length := len,
                   rr_dma_addr := rdma_map_address V (seg_buf seg) len,
                   rr_remote_offset := sector * 512, rr_batch_req := batch_req\<rparr>;
          rq = (as_arr s)[n := cur]; prev = rq ! (n - 1) in
      bindR (if MERGE_REQ C \<and> n > 0 \<and> mergeable prev cur
             then Inr (s\<lparr>as_arr := rq[n - 1 := prev\<lparr>rr_length := rr_length prev + rr_length cur\<rparr>]\<rparr>)
             else bindR (write_batch (as_dev s) batch_req
                           (\<lambda>b. b\<lparr>br_outstanding_reqs := br_outstanding_reqs b + 1\<rparr>)) (\<lambda>d.
                  Inr (s\<lparr>as_dev := d, as_arr := rq, as_count := n + 1\<rparr>))) (\<lambda>s'.
      bindR (assertR (\<not> MAX_REQ C \<le> as_count s') Bug) (\<lambda>_. Inr s'))))"

fun async_segs :: "conf \<Rightarrow> verbs \<Rightarrow> ptr \<Rightarrow> bool \<Rightarrow> u64 \<Rightarrow> bio_seg list \<Rightarrow> async_state \<Rightarrow>
    async_state result" where
  "async_segs C V batch_req w sector [] s = Inr s"
| "async_segs C V batch_req w sector (seg # segs) s =
     bindR (async_segment C V batch_req w sector seg s) (\<lambda>s'.
     async_segs C V batch_req w (sector + drop_bit 9 (ucast (seg_bytes seg))) segs s')"

fun async_bios :: "conf \<Rightarrow> verbs \<Rightarrow> ptr \<Rightarrow> bio list \<Rightarrow> async_state \<Rightarrow> async_state result" where
  "async_bios C V batch_req [] s = Inr s"
| "async_bios C V batch_req (b # bs) s =
     bindR (async_segs C V batch_req (bi_write b) (bi_sector b) (bi_segs b) s) (\<lambda>s'.
     bindR (write_batch (as_dev s') batch_req
              (\<lambda>x. x\<lparr>br_nsec := br_nsec x + int (unat (bi_size b div 512))\<rparr>)) (\<lambda>d.
     async_bios C V batch_req bs (s'\<lparr>as_dev := d\<rparr>)))"

text \<open>
  One file system request (lines 146 to 205): the batch request of the previous
  one, its own, and whether it is the first of the call.
\<close>

definition async_start :: "conf \<Rightarrow> verbs \<Rightarrow> request \<Rightarrow> bool \<Rightarrow> async_state \<Rightarrow> (ptr \<times> async_state) result" where
  "async_start C V rq first_req s =
     bindR (dev_pool (as_dev s)) (\<lambda>p0.
     bindR (if DEBUG_OUT_REQ C then debug_pool_insert p0 (rq_at rq) else Inr p0) (\<lambda>p1.
     bindR (get_batch_request C (rdtsc V (as_tr s)) p1) (\<lambda>(batch_req, p2).
     bindR (write_batch (with_pool (as_dev s) p2) batch_req (\<lambda>b.
              let b' = b\<lparr>br_req := rq_at rq, br_outstanding_reqs := 0, br_next := NULL, br_nsec := 0\<rparr> in
              if MEASURE_LATENCY C then b'\<lparr>br_first := first_req\<rparr> else b')) (\<lambda>d.
     Inr (batch_req, s\<lparr>as_dev := d\<rparr>)))))"

definition async_request :: "conf \<Rightarrow> verbs \<Rightarrow> request \<Rightarrow> ptr \<Rightarrow> bool \<Rightarrow> async_state \<Rightarrow>
    (ptr \<times> async_state) result" where
  "async_request C V rq last_batch_req first_req s =
     bindR (async_start C V rq first_req s) (\<lambda>(batch_req, s1).
     bindR (async_bios C V batch_req (rq_bios rq) s1) (\<lambda>s2.
     bindR (read_batch (as_dev s2) batch_req) (\<lambda>b.
     if br_outstanding_reqs b = 0
     then bindR (write_batch (as_dev s2) last_batch_req (\<lambda>x. x\<lparr>br_next := batch_req\<rparr>)) (\<lambda>d.
          Inr (batch_req, s2\<lparr>as_dev := d\<rparr>))
     else Inr (batch_req, s2))))"

fun async_requests :: "conf \<Rightarrow> verbs \<Rightarrow> request list \<Rightarrow> ptr \<Rightarrow> bool \<Rightarrow> async_state \<Rightarrow> async_state result" where
  "async_requests C V [] batch_req first_req s = Inr s"
| "async_requests C V (rq # rqs) batch_req first_req s =
     (if \<not> rq_fs rq
      then async_requests C V rqs batch_req first_req
             (s\<lparr>as_tr := as_tr s @ [End_Request (rq_at rq) (- EIO) (rq_cur_bytes rq)]\<rparr>)
      else bindR (async_request C V rq batch_req first_req s) (\<lambda>(b, s').
           async_requests C V rqs b False s'))"

definition rmem_request_async :: "conf \<Rightarrow> verbs \<Rightarrow> rmem_device \<Rightarrow> request list \<Rightarrow> io_event list \<Rightarrow>
    (rmem_device \<times> io_event list) result" where
  "rmem_request_async C V dev rqs tr =
     bindR (get_rdma_request_arr C dev) (\<lambda>(rdma_req, d).
     bindR (deref (dev_req_heap d) rdma_req) (\<lambda>arr.
     bindR (async_requests C V rqs NULL True
              \<lparr>as_dev = d, as_arr = arr, as_count = 0, as_tr = tr\<rparr>) (\<lambda>s.
     bindR (if as_count s > 0
            then bindR (rdma_op C V [] (dev_ctx (as_dev s)) (as_tr s) (as_arr s) (as_count s))
                   (\<lambda>(ret, ctx, tr', rs). Inr ((as_dev s)\<lparr>dev_ctx := ctx\<rparr>, tr'))
            else Inr (as_dev s, as_tr s)) (\<lambda>(d', tr').
     bindR (return_rdma_request_arr C
              (d'\<lparr>dev_req_heap := (dev_req_heap d')(rdma_req \<mapsto> as_arr s)\<rparr>) rdma_req) (\<lambda>d2.
     Inr (d2, tr'))))))"

section \<open>The completion handler\<close>

text \<open>
  Ending a batch request and the chain behind it (lines 595 to 608). The chain is
  followed at most as often as there are batch requests.
\<close>

fun end_batches :: "conf \<Rightarrow> verbs \<Rightarrow> nat \<Rightarrow> ptr \<Rightarrow> rmem_device \<Rightarrow> io_event list \<Rightarrow>
    (rmem_device \<times> io_event list) result" where
  "end_batches C V 0 cur d tr = (if cur = NULL then Inr (d, tr) else Inl Spinning)"
| "end_batches C V (Suc fuel) cur d tr =
     (if cur = NULL then Inr (d, tr)
      else bindR (read_batch d cur) (\<lambda>b.
           bindR (dev_pool d) (\<lambda>p.
           bindR (if DEBUG_OUT_REQ C then debug_pool_remove p (br_req b) else Inr p) (\<lambda>p1.
           let tr' = tr @ [End_Request_All (br_req b) 0] in
           bindR (return_batch_request C (rdtsc V tr') (cpu_khz V) p1 cur) (\<lambda>p2.
           bindR (deref (pool_heap p2) cur) (\<lambda>b'.
           end_batches C V fuel (br_next b') (with_pool d p2) tr'))))))"

text \<open>One completion (lines 573 to 614).\<close>

definition comp_one :: "conf \<Rightarrow> verbs \<Rightarrow> ib_wc \<Rightarrow> rmem_device \<Rightarrow> io_event list \<Rightarrow>
    (rmem_device \<times> io_event list) result" where
  "comp_one C V wc d tr =
     (let tr' = tr @ [Polled [wc]] in
      if wc_status wc \<noteq> IB_WC_SUCCESS then Inl Bug
      else
        bindR (write_batch d (wc_wr_id wc) (\<lambda>b.
                 if MODE C = MODE_ONE then b\<lparr>br_comp_reqs := br_comp_reqs b + 1\<rparr>
                 else b\<lparr>br_outstanding_reqs := br_outstanding_reqs b - 1\<rparr>)) (\<lambda>d1.
        bindR (read_batch d1 (wc_wr_id wc)) (\<lambda>b.
        bindR (dev_pool d1) (\<lambda>p.
        if (if MODE C = MODE_ONE
            then br_outstanding_reqs b = br_comp_reqs b \<and> br_all_request_sent b
            else br_outstanding_reqs b = 0)
        then end_batches C V (nat (pool_size p)) (wc_wr_id wc) d1 tr'
        else Inr (d1, tr')))))"

fun comp_each :: "conf \<Rightarrow> verbs \<Rightarrow> ib_wc list \<Rightarrow> rmem_device \<Rightarrow> io_event list \<Rightarrow>
    (rmem_device \<times> io_event list) result" where
  "comp_each C V [] d tr = Inr (d, tr)"
| "comp_each C V (wc # wcs) d tr = bindR (comp_one C V wc d tr) (\<lambda>(d', tr'). comp_each C V wcs d' tr')"

text \<open>
  The handler: in each round it drains the completion queue and asks for the next
  notification; a positive answer starts another round. A round is the
  completions it finds and that answer.
\<close>

fun comp_handler_send :: "conf \<Rightarrow> verbs \<Rightarrow> (ib_wc list \<times> int) list \<Rightarrow> rmem_device \<Rightarrow> io_event list \<Rightarrow>
    (rmem_device \<times> io_event list) result" where
  "comp_handler_send C V [] d tr = Inl Spinning"
| "comp_handler_send C V ((wcs, ret) # rounds) d tr =
     (if MODE C = MODE_SYNC then Inr (d, tr)
      else bindR (comp_each C V wcs d tr) (\<lambda>(d', tr').
           if ret > 0 then comp_handler_send C V rounds d' tr' else Inr (d', tr')))"

end
