(* ===== verification/Async_Correct.thy ===== *)
theory Async_Correct
  imports Request_Async
begin

text \<open>
  What the asynchronous mode guarantees. The block requests in flight form a
  queue of groups, each with the number of its work requests still out; the batch
  requests on the heap are a linked representation of that queue. Submitting a
  call appends to it, a completion takes from its front, and every file system
  request is ended exactly once, in the order of submission.
\<close>

section \<open>Batch requests on the heap\<close>

lemma dev_pool_with [simp]: "dev_pool (with_pool d p) = Inr p"
  by (simp add: dev_pool_def with_pool_def)

lemma with_pool_with [simp]: "with_pool (with_pool d p) q = with_pool d q"
  by (simp add: with_pool_def)

lemma read_batch_with [simp]: "read_batch (with_pool d p) b = deref (pool_heap p) b"
  by (simp add: read_batch_def)

lemma write_batch_with [simp]:
  "pool_heap p b = Some x \<Longrightarrow>
     write_batch (with_pool d p) b f = Inr (with_pool d (p\<lparr>pool_heap := (pool_heap p)(b \<mapsto> f x)\<rparr>))"
  by (simp add: write_batch_def)

lemma pool_heap_update [simp]:
  "pool_inv (p\<lparr>pool_heap := h\<rparr>) = pool_inv p" "pool_items (p\<lparr>pool_heap := h\<rparr>) = pool_items p"
  "pool_cap (p\<lparr>pool_heap := h\<rparr>) = pool_cap p"
  by (simp_all add: pool_inv_def pool_items_def pool_cap_def)

text \<open>
  A group is a batch request, its block request and the number of its work
  requests in flight. A group with none is chained behind its predecessor.
\<close>

type_synonym group = "ptr \<times> ptr \<times> nat"

fun next_of :: "group list \<Rightarrow> ptr" where
  "next_of [] = NULL"
| "next_of ((b, r, n) # gs) = (if n = 0 then b else NULL)"

definition batch_is :: "(ptr \<rightharpoonup> batch_request) \<Rightarrow> ptr \<Rightarrow> ptr \<Rightarrow> nat \<Rightarrow> ptr \<Rightarrow> bool" where
  "batch_is hp b r n nxt \<longleftrightarrow> (\<exists>x. hp b = Some x \<and> br_req x = r \<and> br_outstanding_reqs x = int n \<and> br_next x = nxt)"

fun chained :: "(ptr \<rightharpoonup> batch_request) \<Rightarrow> group list \<Rightarrow> bool" where
  "chained hp [] = True"
| "chained hp ((b, r, n) # gs) = (batch_is hp b r n (next_of gs) \<and> chained hp gs)"

lemma batch_is_upd [simp]: "b \<noteq> c \<Longrightarrow> batch_is (hp(c \<mapsto> x)) b r n nxt = batch_is hp b r n nxt"
  by (simp add: batch_is_def)

lemma chained_upd [simp]: "c \<notin> fst ` set gs \<Longrightarrow> chained (hp(c \<mapsto> x)) gs = chained hp gs"
  by (induction hp gs rule: chained.induct) auto

lemma chained_snoc_pos:
  assumes "0 < n"
  shows "chained hp (gs @ [(b, r, n)]) \<longleftrightarrow> chained hp gs \<and> batch_is hp b r n NULL"
  using assms
proof (induction hp gs rule: chained.induct)
  case (2 hp b' r' n' gs)
  then show ?case by (cases gs) auto
qed simp

lemma chained_snoc_zero:
  assumes "chained hp (gs @ [(l, rl, nl)])" and "batch_is hp b r 0 NULL" and "hp l = Some x"
    and "distinct (b # l # map fst gs)"
  shows "chained (hp(l \<mapsto> x\<lparr>br_next := b\<rparr>)) (gs @ [(l, rl, nl), (b, r, 0)])"
  using assms
proof (induction gs)
  case Nil
  then show ?case by (simp add: batch_is_def)
next
  case (Cons g gs)
  obtain b' r' n' where "g = (b', r', n')"
    by (cases g)
  then show ?case
    using Cons by (cases gs) (auto simp del: fun_upd_apply)
qed

definition pool_ok :: "nat \<Rightarrow> batch_request_pool \<Rightarrow> group list \<Rightarrow> bool" where
  "pool_ok cap p gs \<longleftrightarrow> pool_inv p \<and> pool_cap p = cap \<and> distinct (pool_items p @ map fst gs) \<and>
     length (pool_items p) + length gs = cap \<and> set (pool_items p) \<subseteq> dom (pool_heap p) \<and>
     NULL \<notin> fst ` set gs \<and> chained (pool_heap p) gs"

text \<open>The same with a batch request under construction.\<close>

definition pool_build :: "nat \<Rightarrow> batch_request_pool \<Rightarrow> group list \<Rightarrow> ptr \<Rightarrow> ptr \<Rightarrow> nat \<Rightarrow> bool" where
  "pool_build cap p gs b r n \<longleftrightarrow> pool_inv p \<and> pool_cap p = cap \<and>
     distinct (pool_items p @ b # map fst gs) \<and> length (pool_items p) + Suc (length gs) = cap \<and>
     set (pool_items p) \<subseteq> dom (pool_heap p) \<and> NULL \<notin> fst ` set gs \<and> b \<noteq> NULL \<and>
     chained (pool_heap p) gs \<and> batch_is (pool_heap p) b r n NULL"

lemma pool_build_write:
  assumes "pool_build cap p gs b r n"
    and "\<And>x. br_req x = r \<Longrightarrow> br_outstanding_reqs x = int n \<Longrightarrow> br_next x = NULL \<Longrightarrow>
      br_req (f x) = r \<and> br_outstanding_reqs (f x) = int m \<and> br_next (f x) = NULL"
  shows "\<exists>p'. write_batch (with_pool d p) b f = Inr (with_pool d p') \<and> pool_build cap p' gs b r m"
proof -
  obtain x where x: "pool_heap p b = Some x" "br_req x = r" "br_outstanding_reqs x = int n" "br_next x = NULL"
    using assms(1) by (auto simp: pool_build_def batch_is_def)
  have b: "b \<notin> fst ` set gs"
    using assms(1) by (auto simp: pool_build_def)
  have "pool_build cap (p\<lparr>pool_heap := (pool_heap p)(b \<mapsto> f x)\<rparr>) gs b r m"
    using assms(1) assms(2) [OF x(2-4)] b by (auto simp: pool_build_def batch_is_def simp del: fun_upd_apply)
      (auto simp: batch_is_def)
  then show ?thesis
    using x(1) by auto
qed

lemma get_batch_request_keeps:
  assumes inv: "pool_inv p" and len: "1 < length (pool_items p)" and lat: "\<not> MEASURE_LATENCY C"
  shows "\<exists>p'. get_batch_request C now p = Inr (hd (pool_items p), p') \<and> pool_inv p' \<and>
    pool_items p' = tl (pool_items p) \<and> pool_cap p' = pool_cap p \<and> pool_heap p' = pool_heap p"
proof -
  obtain p' where p': "get_batch_request C now p = Inr (hd (pool_items p), p')" "pool_inv p'"
      "pool_items p' = tl (pool_items p)" "pool_cap p' = pool_cap p"
    using get_batch_request_some [OF inv, of C now] pool_head_tail_iff [OF inv] len lat by auto
  moreover have "pool_heap p' = pool_heap p"
    using p'(1) lat by (auto simp: get_batch_request_def result_simps split: if_splits)
  ultimately show ?thesis by blast
qed

lemma async_start_ok:
  assumes ok: "pool_ok cap p gs" and len: "Suc (length gs) < cap"
    and C: "\<not> MEASURE_LATENCY C" "\<not> DEBUG_OUT_REQ C" and s: "as_dev s = with_pool d p"
  shows "\<exists>b p'. async_start C V rq first s = Inr (b, s\<lparr>as_dev := with_pool d p'\<rparr>) \<and>
    pool_build cap p' gs b (rq_at rq) 0 \<and> pool_heap p' NULL = pool_heap p NULL"
proof -
  have inv: "pool_inv p" and one: "1 < length (pool_items p)"
    using ok len by (simp_all add: pool_ok_def)
  then obtain b q where items: "pool_items p = b # q"
    by (cases "pool_items p") auto
  obtain p1 where p1: "get_batch_request C (rdtsc V (as_tr s)) p = Inr (b, p1)" "pool_inv p1"
      "pool_items p1 = q" "pool_cap p1 = pool_cap p" "pool_heap p1 = pool_heap p"
    using get_batch_request_keeps [OF inv one C(1), of "rdtsc V (as_tr s)"] items by auto
  have facts: "b \<noteq> NULL" "distinct (q @ b # map fst gs)" "b \<notin> fst ` set gs"
    using pool_items_nonnull [OF inv] ok items by (auto simp: pool_ok_def)
  obtain x where x: "pool_heap p b = Some x"
    using ok items by (auto simp: pool_ok_def)
  let ?x = "x\<lparr>br_req := rq_at rq, br_outstanding_reqs := 0, br_next := NULL, br_nsec := 0\<rparr>"
  let ?p = "p1\<lparr>pool_heap := (pool_heap p1)(b \<mapsto> ?x)\<rparr>"
  have "async_start C V rq first s = Inr (b, s\<lparr>as_dev := with_pool d ?p\<rparr>)"
    using C p1 x s by (simp add: async_start_def Let_def)
  moreover have "chained (pool_heap ?p) gs" "batch_is (pool_heap ?p) b (rq_at rq) 0 NULL"
    using ok facts(3) p1 by (simp_all add: pool_ok_def batch_is_def del: fun_upd_apply) simp
  moreover have "set (pool_items ?p) \<subseteq> dom (pool_heap ?p)"
    using ok items p1 by (auto simp: pool_ok_def)
  ultimately show ?thesis
    using ok p1 facts items by (intro exI [of _ b] exI [of _ ?p]) (simp add: pool_ok_def pool_build_def)
qed

section \<open>The array of requests\<close>

text \<open>
  The asynchronous mode cuts the length of a segment down to whole sectors, which
  changes nothing for the segments a block layer hands out.
\<close>

definition whole_seg :: "bio_seg \<Rightarrow> bio_seg" where
  "whole_seg sg = sg\<lparr>seg_bytes := drop_bit 9 (seg_bytes sg) * 512\<rparr>"

definition whole_bio :: "bio \<Rightarrow> bio" where
  "whole_bio b = b\<lparr>bi_cur_bytes := drop_bit 9 (bi_cur_bytes b) * 512\<rparr>"

lemma whole_bio_sel [simp]:
  "bi_segs (whole_bio b) = map whole_seg (bi_segs b)" "bi_write (whole_bio b) = bi_write b" "bi_sector (whole_bio b) = bi_sector b"
  by (simp_all add: whole_bio_def whole_seg_def bi_segs_def)

definition whole_req :: "request \<Rightarrow> request" where
  "whole_req rq = rq\<lparr>rq_bios := map whole_bio (rq_bios rq)\<rparr>"

lemma unat_whole: "unat (drop_bit 9 (n :: u32) * 512) = unat n div 512 * 512"
proof -
  have d: "unat (drop_bit 9 n) = unat n div 512"
    by (simp only: unat_drop_bit_eq) (simp add: drop_bit_eq_div)
  have "unat n div 512 * 512 < 2 ^ 32"
    using unat_u32_bound [of n] by (meson div_times_less_eq_dividend le_less_trans)
  then show ?thesis
    by (simp add: unat_word_ariths d)
qed

lemma whole_seg_sector:
  "drop_bit 9 (ucast (seg_bytes (whole_seg sg)) :: u64) = drop_bit 9 (ucast (seg_bytes sg))"
proof (rule word_unat_eq_iff [THEN iffD2])
  have "unat (seg_bytes (whole_seg sg)) = unat (seg_bytes sg) div 512 * 512"
    using unat_whole by (simp add: whole_seg_def)
  then show "unat (drop_bit 9 (ucast (seg_bytes (whole_seg sg)) :: u64)) =
      unat (drop_bit 9 (ucast (seg_bytes sg) :: u64))"
    by (simp only: unat_drop_bit_eq unat_ucast_32_64) (simp add: drop_bit_eq_div)
qed

definition arr_ok :: "conf \<Rightarrow> rdma_request list \<Rightarrow> xfer list \<Rightarrow> ptr list \<Rightarrow> bool" where
  "arr_ok C arr xs ids \<longleftrightarrow> length arr = MAX_REQ C \<and> length xs < MAX_REQ C \<and>
     list_all2 req_of xs (take (length xs) arr) \<and> map rr_batch_req (take (length xs) arr) = ids"

lemma arr_ok_append:
  assumes "arr_ok C arr xs ids" and "req_of x r" and "Suc (length xs) < MAX_REQ C"
  shows "arr_ok C (arr[length xs := r]) (xs @ [x]) (ids @ [rr_batch_req r])"
proof -
  have "take (Suc (length xs)) (arr[length xs := r]) = take (length xs) arr @ [r]"
    using assms by (simp add: arr_ok_def take_Suc_conv_app_nth)
  then show ?thesis
    using assms by (auto simp: arr_ok_def intro!: list_all2_appendI)
qed

lemma arr_ok_last:
  assumes "arr_ok C arr (zs @ [z]) ids"
  shows "req_of z (arr ! length zs)"
    and "req_of y r' \<Longrightarrow> rr_batch_req r' = rr_batch_req (arr ! length zs) \<Longrightarrow>
      arr_ok C (arr[Suc (length zs) := r, length zs := r']) (zs @ [y]) ids"
proof -
  have split: "take (Suc (length zs)) arr = take (length zs) arr @ [arr ! length zs]"
    using assms by (simp add: arr_ok_def take_Suc_conv_app_nth)
  then have all: "list_all2 req_of zs (take (length zs) arr)" "req_of z (arr ! length zs)"
    using assms by (auto simp: arr_ok_def list_all2_append)
  then show "req_of z (arr ! length zs)" by simp
  assume r': "req_of y r'" "rr_batch_req r' = rr_batch_req (arr ! length zs)"
  have "take (Suc (length zs)) (arr[Suc (length zs) := r, length zs := r']) = take (length zs) arr @ [r']"
    using assms by (simp add: arr_ok_def take_Suc_conv_app_nth)
  then show "arr_ok C (arr[Suc (length zs) := r, length zs := r']) (zs @ [y]) ids"
    using assms all r' split by (auto simp: arr_ok_def intro!: list_all2_appendI)
qed

text \<open>One segment grows the batch request by the work requests it adds.\<close>

abbreviation built :: "rmem_device \<Rightarrow> batch_request_pool \<Rightarrow> rdma_request list \<Rightarrow> nat \<Rightarrow> io_event list \<Rightarrow> async_state" where
  "built d p arr n tr \<equiv> \<lparr>as_dev = with_pool d p, as_arr = arr, as_count = n, as_tr = tr\<rparr>"

lemma async_segment_ok:
  assumes build: "pool_build cap p gs b r n" and arr: "arr_ok C arr xs ids"
    and c: "c = batch_join C xs (seg_xfer V w sector (whole_seg seg))" and len: "length c < MAX_REQ C"
  shows "\<exists>p' arr'. async_segment C V b w sector seg (built d p arr (length xs) tr) =
      Inr (built d p' arr' (length c) tr) \<and>
    pool_build cap p' gs b r (n + (length c - length xs)) \<and>
    arr_ok C arr' c (ids @ replicate (length c - length xs) b)"
proof -
  let ?x = "seg_xfer V w sector (whole_seg seg)" and ?n = "length xs"
  define cur where "cur = (arr ! ?n)\<lparr>rr_rw := bio_op w, rr_length := drop_bit 9 (seg_bytes seg) * 512,
    rr_dma_addr := rdma_map_address V (seg_buf seg) (drop_bit 9 (seg_bytes seg) * 512),
    rr_remote_offset := sector * 512, rr_batch_req := b\<rparr>"
  have cur: "req_of ?x cur" "rr_batch_req cur = b"
    using unat_u32_bound by (simp_all add: req_of_def valid_op_def bio_op_def cur_def whole_seg_def)
  define prev where "prev = arr[?n := cur] ! (?n - 1)"
  have get: "arr_get arr (int ?n) = Inr (arr ! ?n)"
    using arr by (simp add: arr_ok_def)
  have run: "async_segment C V b w sector seg (built d p arr ?n tr) =
      bindR (if MERGE_REQ C \<and> ?n > 0 \<and> mergeable prev cur
             then Inr (built d p (arr[?n := cur, ?n - 1 := prev\<lparr>rr_length := rr_length prev + rr_length cur\<rparr>]) ?n tr)
             else bindR (write_batch (with_pool d p) b
                     (\<lambda>b. b\<lparr>br_outstanding_reqs := br_outstanding_reqs b + 1\<rparr>)) (\<lambda>d.
                  Inr \<lparr>as_dev = d, as_arr = arr[?n := cur], as_count = ?n + 1, as_tr = tr\<rparr>)) (\<lambda>s'.
      bindR (assertR (\<not> MAX_REQ C \<le> as_count s') Bug) (\<lambda>_. Inr s'))"
    unfolding async_segment_def Let_def prev_def cur_def async_state.simps get bindR.simps by (rule refl)
  show ?thesis
  proof (cases "MERGE_REQ C \<and> xs \<noteq> [] \<and> adjacent (last xs) ?x")
    case True
    then obtain zs z where zs: "xs = zs @ [z]"
      by (cases xs rule: rev_cases) auto
    have prev: "prev = arr ! length zs"
      by (simp add: prev_def zs)
    have z: "req_of z prev"
      using arr_ok_last(1) arr unfolding zs prev by blast
    have "mergeable prev cur"
      using mergeable_adjacent(1) [OF z cur(1)] True zs by simp
    moreover have "c = zs @ [join z ?x]"
      using True zs by (simp add: c batch_join_def)
    moreover have "arr_ok C (arr[?n := cur, ?n - 1 := prev\<lparr>rr_length := rr_length prev + rr_length cur\<rparr>])
        (zs @ [join z ?x]) ids"
      using arr_ok_last(2) [of C arr zs z ids "join z ?x"] arr mergeable_adjacent(2) [OF z cur(1)]
      by (simp add: zs prev)
    ultimately show ?thesis
      using run True build len zs by auto
  next
    case False
    then have c': "c = xs @ [?x]"
      unfolding c batch_join_def by (rule if_not_P)
    have nm: "\<not> (MERGE_REQ C \<and> ?n > 0 \<and> mergeable prev cur)"
    proof
      assume m: "MERGE_REQ C \<and> ?n > 0 \<and> mergeable prev cur"
      then obtain zs z where zs: "xs = zs @ [z]"
        by (cases xs rule: rev_cases) auto
      have "req_of z prev"
        using arr_ok_last(1) arr by (simp add: zs prev_def)
      then show False
        using mergeable_adjacent(1) [OF _ cur(1)] m False zs by simp
    qed
    obtain p' where p': "write_batch (with_pool d p) b (\<lambda>b. b\<lparr>br_outstanding_reqs := br_outstanding_reqs b + 1\<rparr>) =
        Inr (with_pool d p')" "pool_build cap p' gs b r (n + 1)"
      using pool_build_write [OF build, of "\<lambda>b. b\<lparr>br_outstanding_reqs := br_outstanding_reqs b + 1\<rparr>" "n + 1"] by auto
    have "arr_ok C (arr[?n := cur]) c (ids @ [b])"
      using arr_ok_append [OF arr cur(1)] len cur(2) c' by simp
    then show ?thesis
      using run nm p' len c' by (intro exI [of _ p'] exI [of _ "arr[?n := cur]"]) simp
  qed
qed

section \<open>Bios and requests\<close>

lemma length_batch_join_ge: "length cur \<le> length (batch_join C cur x)"
  by (auto simp: batch_join_def)

lemma length_join_all_ge: "length xs \<le> length (foldl (batch_join C) xs ys)"
  by (induction ys arbitrary: xs) (auto intro: order_trans [OF length_batch_join_ge])

lemma async_segs_ok:
  assumes "pool_build cap p gs b r n" and "arr_ok C arr xs ids"
    and "length (foldl (batch_join C) xs (bio_xfers V w sector (map whole_seg segs))) < MAX_REQ C"
  shows "\<exists>p' arr' k. async_segs C V b w sector segs (built d p arr (length xs) tr) =
      Inr (built d p' arr' (length xs + k) tr) \<and>
    length (foldl (batch_join C) xs (bio_xfers V w sector (map whole_seg segs))) = length xs + k \<and>
    pool_build cap p' gs b r (n + k) \<and>
    arr_ok C arr' (foldl (batch_join C) xs (bio_xfers V w sector (map whole_seg segs))) (ids @ replicate k b)"
  using assms
proof (induction segs arbitrary: p arr xs ids sector n)
  case Nil
  then show ?case by (intro exI [of _ p] exI [of _ arr] exI [of _ 0]) simp
next
  case (Cons seg segs)
  let ?c = "batch_join C xs (seg_xfer V w sector (whole_seg seg))"
  let ?sector = "sector + drop_bit 9 (ucast (seg_bytes seg))"
  let ?f = "foldl (batch_join C) ?c (bio_xfers V w ?sector (map whole_seg segs))"
  have f: "foldl (batch_join C) xs (bio_xfers V w sector (map whole_seg (seg # segs))) = ?f"
    by (simp add: whole_seg_sector)
  have len: "length ?f < MAX_REQ C"
    using Cons.prems(3) f by simp
  then have "length ?c < MAX_REQ C"
    using length_join_all_ge le_less_trans by blast
  from async_segment_ok [OF Cons.prems(1,2) refl this] obtain p1 arr1 where s1:
      "async_segment C V b w sector seg (built d p arr (length xs) tr) = Inr (built d p1 arr1 (length ?c) tr)"
      "pool_build cap p1 gs b r (n + (length ?c - length xs))"
      "arr_ok C arr1 ?c (ids @ replicate (length ?c - length xs) b)"
    by blast
  from Cons.IH [OF s1(2,3) len] obtain p2 arr2 k where s2:
      "async_segs C V b w ?sector segs (built d p1 arr1 (length ?c) tr) = Inr (built d p2 arr2 (length ?c + k) tr)"
      "length ?f = length ?c + k" "pool_build cap p2 gs b r (n + (length ?c - length xs) + k)"
      "arr_ok C arr2 ?f ((ids @ replicate (length ?c - length xs) b) @ replicate k b)"
    by blast
  obtain j where j: "length ?c = length xs + j"
    using length_batch_join_ge le_Suc_ex by blast
  then show ?case
    using s1(1) s2 unfolding f
    by (intro exI [of _ p2] exI [of _ arr2] exI [of _ "j + k"]) (simp add: replicate_add add.assoc)
qed

abbreviation bio_list_xfers :: "verbs \<Rightarrow> bio list \<Rightarrow> xfer list" where
  "bio_list_xfers V bs \<equiv> concat (map (\<lambda>b. bio_xfers V (bi_write b) (bi_sector b) (bi_segs b)) bs)"

lemma async_bios_ok:
  assumes "pool_build cap p gs b r n" and "arr_ok C arr xs ids"
    and "length (foldl (batch_join C) xs (bio_list_xfers V (map whole_bio bs))) < MAX_REQ C"
  shows "\<exists>p' arr' k. async_bios C V b bs (built d p arr (length xs) tr) =
      Inr (built d p' arr' (length xs + k) tr) \<and>
    length (foldl (batch_join C) xs (bio_list_xfers V (map whole_bio bs))) = length xs + k \<and>
    pool_build cap p' gs b r (n + k) \<and>
    arr_ok C arr' (foldl (batch_join C) xs (bio_list_xfers V (map whole_bio bs))) (ids @ replicate k b)"
  using assms
proof (induction bs arbitrary: p arr xs ids n)
  case Nil
  then show ?case by (intro exI [of _ p] exI [of _ arr] exI [of _ 0]) simp
next
  case (Cons bio bs)
  let ?x = "bio_xfers V (bi_write bio) (bi_sector bio) (map whole_seg (bi_segs bio))"
  let ?c = "foldl (batch_join C) xs ?x"
  let ?f = "foldl (batch_join C) ?c (bio_list_xfers V (map whole_bio bs))"
  have f: "foldl (batch_join C) xs (bio_list_xfers V (map whole_bio (bio # bs))) = ?f"
    by simp
  have len: "length ?f < MAX_REQ C"
    using Cons.prems(3) f by simp
  then have "length ?c < MAX_REQ C"
    using length_join_all_ge le_less_trans by blast
  from async_segs_ok [OF Cons.prems(1,2) this] obtain p1 arr1 k1 where s1:
      "async_segs C V b (bi_write bio) (bi_sector bio) (bi_segs bio) (built d p arr (length xs) tr) =
        Inr (built d p1 arr1 (length xs + k1) tr)"
      "length ?c = length xs + k1" "pool_build cap p1 gs b r (n + k1)" "arr_ok C arr1 ?c (ids @ replicate k1 b)"
    by blast
  let ?g = "\<lambda>x. x\<lparr>br_nsec := br_nsec x + int (unat (bi_size bio div 512))\<rparr>"
  obtain p2 where p2: "write_batch (with_pool d p1) b ?g = Inr (with_pool d p2)" "pool_build cap p2 gs b r (n + k1)"
    using pool_build_write [OF s1(3), of ?g "n + k1" d] by auto
  from Cons.IH [OF p2(2) s1(4) len] obtain p3 arr3 k2 where s3:
      "async_bios C V b bs (built d p2 arr1 (length ?c) tr) = Inr (built d p3 arr3 (length ?c + k2) tr)"
      "length ?f = length ?c + k2" "pool_build cap p3 gs b r (n + k1 + k2)"
      "arr_ok C arr3 ?f ((ids @ replicate k1 b) @ replicate k2 b)"
    by blast
  then show ?case
    using s1(1,2) p2(1) unfolding f
    by (intro exI [of _ p3] exI [of _ arr3] exI [of _ "k1 + k2"]) (simp add: replicate_add add.assoc)
qed

lemma pool_build_done:
  assumes "pool_build cap p gs b r n"
  shows "0 < n \<Longrightarrow> pool_ok cap p (gs @ [(b, r, n)])"
    and "n = 0 \<Longrightarrow> gs \<noteq> [] \<Longrightarrow> \<exists>p'. write_batch (with_pool d p) (fst (last gs)) (\<lambda>x. x\<lparr>br_next := b\<rparr>) =
      Inr (with_pool d p') \<and> pool_ok cap p' (gs @ [(b, r, n)])"
proof -
  have d: "distinct (pool_items p @ map fst (gs @ [(b, r, n)]))"
    using assms by (auto simp: pool_build_def)
  then show "pool_ok cap p (gs @ [(b, r, n)])" if "0 < n"
    using assms that by (auto simp: pool_ok_def pool_build_def chained_snoc_pos)
  assume n: "n = 0" and "gs \<noteq> []"
  then obtain zs l rl nl where gs: "gs = zs @ [(l, rl, nl)]"
    by (cases gs rule: rev_cases) auto
  have bi: "batch_is (pool_heap p) b r 0 NULL" and ch: "chained (pool_heap p) (zs @ [(l, rl, nl)])"
    using assms n gs by (auto simp: pool_build_def)
  then obtain x where x: "pool_heap p l = Some x"
    by (induction zs) (auto simp: batch_is_def)
  have "distinct (b # l # map fst zs)"
    using d gs by auto
  from chained_snoc_zero [OF ch bi x this]
  have "pool_ok cap (p\<lparr>pool_heap := (pool_heap p)(l \<mapsto> x\<lparr>br_next := b\<rparr>)\<rparr>) (gs @ [(b, r, n)])"
    using assms d by (auto simp: pool_ok_def pool_build_def gs n simp del: fun_upd_apply)
  then show "\<exists>p'. write_batch (with_pool d p) (fst (last gs)) (\<lambda>x. x\<lparr>br_next := b\<rparr>) =
      Inr (with_pool d p') \<and> pool_ok cap p' (gs @ [(b, r, n)])" for d
    using x by (auto simp: gs)
qed

lemma async_request_ok:
  assumes ok: "pool_ok cap p gs" and cap: "Suc (length gs) < cap" and arr: "arr_ok C arr xs ids"
    and c: "c = foldl (batch_join C) xs (req_xfers V (whole_req rq))" and len: "length c < MAX_REQ C"
    and C: "\<not> MEASURE_LATENCY C" "\<not> DEBUG_OUT_REQ C"
    and last: "length xs < length c \<or> gs \<noteq> [] \<and> lb = fst (last gs)"
  shows "\<exists>b p' arr'. async_request C V rq lb first (built d p arr (length xs) tr) =
      Inr (b, built d p' arr' (length c) tr) \<and>
    pool_ok cap p' (gs @ [(b, rq_at rq, length c - length xs)]) \<and>
    arr_ok C arr' c (ids @ replicate (length c - length xs) b)"
proof -
  obtain b p1 where s1: "async_start C V rq first (built d p arr (length xs) tr) = Inr (b, built d p1 arr (length xs) tr)"
      "pool_build cap p1 gs b (rq_at rq) 0"
    using async_start_ok [OF ok cap C, of "built d p arr (length xs) tr" d V rq first] by auto
  have c': "c = foldl (batch_join C) xs (bio_list_xfers V (map whole_bio (rq_bios rq)))"
    by (simp add: c req_xfers_def whole_req_def)
  obtain p2 arr2 k where s2: "async_bios C V b (rq_bios rq) (built d p1 arr (length xs) tr) =
        Inr (built d p2 arr2 (length c) tr)" "length c = length xs + k"
      "pool_build cap p2 gs b (rq_at rq) k" "arr_ok C arr2 c (ids @ replicate k b)"
    using async_bios_ok [OF s1(2) arr, of V "rq_bios rq" d tr] len unfolding c' by auto
  obtain x where x: "pool_heap p2 b = Some x" "br_outstanding_reqs x = int k"
    using s2(3) by (auto simp: pool_build_def batch_is_def)
  show ?thesis
  proof (cases "k = 0")
    case True
    then obtain p3 where "write_batch (with_pool d p2) lb (\<lambda>x. x\<lparr>br_next := b\<rparr>) = Inr (with_pool d p3)"
        "pool_ok cap p3 (gs @ [(b, rq_at rq, k)])"
      using pool_build_done(2) [OF s2(3) True] last s2(2) by auto
    then show ?thesis
      using s1(1) s2 x True by (intro exI [of _ b] exI [of _ p3] exI [of _ arr2]) (simp add: async_request_def)
  next
    case False
    then have "pool_ok cap p2 (gs @ [(b, rq_at rq, k)])"
      using pool_build_done(1) [OF s2(3)] by simp
    then show ?thesis
      using s1(1) s2 x False by (intro exI [of _ b] exI [of _ p2] exI [of _ arr2]) (simp add: async_request_def)
  qed
qed

section \<open>The request function\<close>

text \<open>
  The groups a queue of requests adds: each file system request with the number of
  work requests that are its own after merging.
\<close>

fun req_groups :: "conf \<Rightarrow> verbs \<Rightarrow> xfer list \<Rightarrow> request list \<Rightarrow> (ptr \<times> nat) list" where
  "req_groups C V xs [] = []"
| "req_groups C V xs (rq # rqs) =
     (if rq_fs rq
      then let c = foldl (batch_join C) xs (req_xfers V (whole_req rq)) in
           (rq_at rq, length c - length xs) # req_groups C V c rqs
      else req_groups C V xs rqs)"

definition queue_wrs :: "conf \<Rightarrow> verbs \<Rightarrow> request list \<Rightarrow> xfer list" where
  "queue_wrs C V rqs = foldl (batch_join C) [] (queue_xfers V (map whole_req rqs))"

definition group_ids :: "group list \<Rightarrow> ptr list" where
  "group_ids gs = concat (map (\<lambda>(b, r, n). replicate n b) gs)"

lemma group_ids_simps [simp]:
  "group_ids [] = []" "group_ids ((b, r, n) # gs) = replicate n b @ group_ids gs"
  "group_ids (gs @ hs) = group_ids gs @ group_ids hs"
  by (simp_all add: group_ids_def)

lemma whole_req_sel [simp]: "rq_fs (whole_req rq) = rq_fs rq" "rq_at (whole_req rq) = rq_at rq"
  by (simp_all add: whole_req_def)

abbreviation skip_ends :: "request list \<Rightarrow> io_event list" where
  "skip_ends rqs \<equiv> map (\<lambda>rq. End_Request (rq_at rq) (- EIO) (rq_cur_bytes rq)) (filter (\<lambda>rq. \<not> rq_fs rq) rqs)"

fun starts :: "(ptr \<times> nat) list \<Rightarrow> bool" where
  "starts [] = True"
| "starts ((r, n) # gs) = (0 < n)"

lemma async_requests_ok:
  assumes "pool_ok cap p gs" and "length gs + length (req_groups C V xs rqs) < cap" and "arr_ok C arr xs ids"
    and "length (foldl (batch_join C) xs (queue_xfers V (map whole_req rqs))) < MAX_REQ C"
    and "\<not> MEASURE_LATENCY C" "\<not> DEBUG_OUT_REQ C"
    and "starts (req_groups C V xs rqs) \<or> gs \<noteq> [] \<and> lb = fst (last gs)"
  shows "\<exists>bs p' arr'. async_requests C V rqs lb first (built d p arr (length xs) tr) =
      Inr (built d p' arr' (length (foldl (batch_join C) xs (queue_xfers V (map whole_req rqs)))) (tr @ skip_ends rqs)) \<and>
    length bs = length (req_groups C V xs rqs) \<and> pool_ok cap p' (gs @ zip bs (req_groups C V xs rqs)) \<and>
    arr_ok C arr' (foldl (batch_join C) xs (queue_xfers V (map whole_req rqs)))
      (ids @ group_ids (zip bs (req_groups C V xs rqs)))"
  using assms
proof (induction rqs arbitrary: p gs arr xs ids lb first tr)
  case Nil
  then show ?case by (intro exI [of _ "[]"] exI [of _ p] exI [of _ arr]) simp
next
  case (Cons rq rqs)
  show ?case
  proof (cases "rq_fs rq")
    case False
    then show ?thesis
      using Cons.IH [OF Cons.prems(1) _ Cons.prems(3) _ Cons.prems(5,6), where lb = lb
          and tr = "tr @ [End_Request (rq_at rq) (- EIO) (rq_cur_bytes rq)]" and first = first] Cons.prems
      by simp
  next
    case True
    let ?c = "foldl (batch_join C) xs (req_xfers V (whole_req rq))"
    let ?f = "foldl (batch_join C) ?c (queue_xfers V (map whole_req rqs))"
    let ?n = "length ?c - length xs" and ?rest = "req_groups C V ?c rqs"
    have f: "foldl (batch_join C) xs (queue_xfers V (map whole_req (rq # rqs))) = ?f"
      and g: "req_groups C V xs (rq # rqs) = (rq_at rq, ?n) # ?rest"
      using True by (simp_all add: Let_def)
    have len: "length ?f < MAX_REQ C"
      using Cons.prems(4) f by simp
    then have "length ?c < MAX_REQ C"
      using length_join_all_ge le_less_trans by blast
    moreover have "Suc (length gs) < cap" "length xs < length ?c \<or> gs \<noteq> [] \<and> lb = fst (last gs)"
      using Cons.prems(2,7) g by auto
    ultimately obtain b p1 arr1 where s1: "async_request C V rq lb first (built d p arr (length xs) tr) =
          Inr (b, built d p1 arr1 (length ?c) tr)"
        "pool_ok cap p1 (gs @ [(b, rq_at rq, ?n)])" "arr_ok C arr1 ?c (ids @ replicate ?n b)"
      using async_request_ok [OF Cons.prems(1) _ Cons.prems(3) refl _ Cons.prems(5,6)] by blast
    have "length (gs @ [(b, rq_at rq, ?n)]) + length ?rest < cap"
      using Cons.prems(2) g by simp
    from Cons.IH [OF s1(2) this s1(3) len Cons.prems(5,6), of b False tr]
    obtain bs p2 arr2 where s2: "async_requests C V rqs b False (built d p1 arr1 (length ?c) tr) =
          Inr (built d p2 arr2 (length ?f) (tr @ skip_ends rqs))"
        "length bs = length ?rest" "pool_ok cap p2 ((gs @ [(b, rq_at rq, ?n)]) @ zip bs ?rest)"
        "arr_ok C arr2 ?f ((ids @ replicate ?n b) @ group_ids (zip bs ?rest))"
      by auto
    show ?thesis
      unfolding f g using s1(1) s2 True
      by (intro exI [of _ "b # bs"] exI [of _ p2] exI [of _ arr2]) simp
  qed
qed

text \<open>
  A device ready for the asynchronous mode with the groups \<open>gs\<close> in flight: all
  request arrays are home, and the first group waits for a work request.
\<close>

definition async_conf :: "conf \<Rightarrow> bool" where
  "async_conf C \<longleftrightarrow> MODE C = MODE_ASYNC \<and> \<not> MEASURE_LATENCY C \<and> \<not> DEBUG_OUT_REQ C \<and> 1 < REQ_ARR_SIZE C"

definition arrays_home :: "conf \<Rightarrow> rmem_device \<Rightarrow> bool" where
  "arrays_home C d \<longleftrightarrow> arr_inv C d \<and> length (arr_items d) = REQ_ARR_SIZE C \<and>
     (\<forall>a \<in> set (arr_items d). \<exists>arr. dev_req_heap d a = Some arr \<and> length arr = MAX_REQ C)"

definition async_ready :: "conf \<Rightarrow> verbs \<Rightarrow> nat \<Rightarrow> rdma_ctx \<Rightarrow> u32 \<Rightarrow> rmem_device \<Rightarrow> group list \<Rightarrow> bool" where
  "async_ready C V cap ctx lkey d gs \<longleftrightarrow> async_conf C \<and> accepting V \<and> arrays_home C d \<and>
     rem_vaddr (dev_ctx d) = rem_vaddr ctx \<and> rem_rkey (dev_ctx d) = rem_rkey ctx \<and>
     map_option mr_lkey (ctx_mr (dev_ctx d)) = Some lkey \<and>
     (\<exists>p. ctx_pool (dev_ctx d) = Some p \<and> pool_ok cap p gs) \<and> (gs \<noteq> [] \<longrightarrow> 0 < snd (snd (hd gs)))"

definition async_post :: "rdma_ctx \<Rightarrow> u32 \<Rightarrow> xfer \<times> ptr \<Rightarrow> posted" where
  "async_post ctx lkey = (\<lambda>(x, b). (posted_xfer ctx lkey x)\<lparr>p_wr_id := b\<rparr>)"

lemma posted_of_async:
  assumes "MODE C = MODE_ASYNC" and "rem_vaddr c = rem_vaddr ctx" and "rem_rkey c = rem_rkey ctx" and "req_of x r"
  shows "posted_of C c lkey r = async_post ctx lkey (x, rr_batch_req r)"
  using assms by (simp add: posted_of_def posted_xfer_def async_post_def req_of_def wr_id_of_def)

lemma map_posted_async:
  assumes "list_all2 req_of xs rs" and "MODE C = MODE_ASYNC" "rem_vaddr c = rem_vaddr ctx" "rem_rkey c = rem_rkey ctx"
  shows "map (\<lambda>r. Post [posted_of C c lkey r] 0) rs =
    map (\<lambda>y. Post [async_post ctx lkey y] 0) (zip xs (map rr_batch_req rs))"
  using assms(1)
  by (induction rule: list_all2_induct) (auto simp: posted_of_async [OF assms(2-4)])

lemma arr_frame [simp]:
  "arr_inv C (d\<lparr>dev_ctx := c\<rparr>) = arr_inv C d" "arr_items (d\<lparr>dev_ctx := c\<rparr>) = arr_items d"
  "arr_inv C (d\<lparr>dev_req_heap := h\<rparr>) = arr_inv C d" "arr_items (d\<lparr>dev_req_heap := h\<rparr>) = arr_items d"
  by (simp_all add: arr_inv_def arr_items_def)

lemma with_pool_same: "ctx_pool (dev_ctx d) = Some p \<Longrightarrow> with_pool d p = d"
  by (cases "dev_ctx d", cases d) (simp add: with_pool_def)

lemma ring_hd_NULL: "arr_inv C d \<Longrightarrow> hd (arr_items d) \<noteq> NULL"
  using ra.items_nonnull ra.items_bounds by (metis list.set_sel(1) list.size(3) not_one_le_zero)

text \<open>Posting the array: each entry becomes one post with its batch request.\<close>

lemma rdma_op_async:
  assumes arr: "arr_ok C arr xs ids" and C: "MODE C = MODE_ASYNC" and V: "accepting V"
    and c: "rem_vaddr c = rem_vaddr ctx" "rem_rkey c = rem_rkey ctx" "map_option mr_lkey (ctx_mr c) = Some lkey"
  shows "rdma_op C V [] c tr arr (length xs) =
    Inr (0, c\<lparr>outstanding_requests := of_nat (length xs)\<rparr>,
      tr @ map (\<lambda>y. Post [async_post ctx lkey y] 0) (zip xs ids), [])"
proof -
  let ?c = "c\<lparr>outstanding_requests := of_nat (length xs)\<rparr>" and ?R = "take (length xs) arr"
  obtain mr where mr: "ctx_mr ?c = Some mr" "mr_lkey mr = lkey"
    using c(3) by auto
  have all: "list_all2 req_of xs ?R" and ids: "map rr_batch_req ?R = ids" and len: "length xs \<le> length arr"
    using arr by (auto simp: arr_ok_def)
  have "\<forall>r \<in> set ?R. valid_op r"
    using all by (auto simp: list_all2_conv_all_nth in_set_conv_nth req_of_def)
  then have "send_each C V ?c arr 0 (length xs) tr =
      Inr (True, tr @ map (\<lambda>r. Post [posted_of C ?c lkey r] 0) ?R)"
    using send_each_ok [OF mr(1) V, of "length xs" 0 arr C tr] len mr(2) by simp
  moreover have "map (\<lambda>r. Post [posted_of C ?c lkey r] 0) ?R =
      map (\<lambda>y. Post [async_post ctx lkey y] 0) (zip xs ids)"
    using map_posted_async [OF all C, of ?c ctx lkey] c ids by simp
  ultimately show ?thesis
    using C by (simp add: rdma_op_def)
qed

lemma arr_ok_lengths: "arr_ok C arr xs ids \<Longrightarrow> length arr = MAX_REQ C \<and> length ids = length xs"
  by (auto simp: arr_ok_def)

lemma zip_hd_starts:
  "length bs = length gs \<Longrightarrow> gs \<noteq> [] \<Longrightarrow> starts gs \<Longrightarrow> 0 < snd (snd (hd (zip bs gs)))"
  by (cases gs; cases bs) (auto elim: starts.elims)

text \<open>The end of the function: what was built is posted, one by one.\<close>

lemma post_built:
  assumes "arr_ok C arr xs ids" and "MODE C = MODE_ASYNC" and "accepting V"
    and "rem_vaddr (dev_ctx d) = rem_vaddr ctx" "rem_rkey (dev_ctx d) = rem_rkey ctx"
      "map_option mr_lkey (ctx_mr (dev_ctx d)) = Some lkey"
  obtains c where "(if length xs > 0 then bindR (rdma_op C V [] (dev_ctx d) tr arr (length xs))
        (\<lambda>(ret, ctx, tr', rs). Inr (d\<lparr>dev_ctx := ctx\<rparr>, tr')) else Inr (d, tr)) =
      Inr (d\<lparr>dev_ctx := c\<rparr>, tr @ map (\<lambda>y. Post [async_post ctx lkey y] 0) (zip xs ids))"
    "rem_vaddr c = rem_vaddr ctx" "rem_rkey c = rem_rkey ctx" "map_option mr_lkey (ctx_mr c) = Some lkey"
    "ctx_pool c = ctx_pool (dev_ctx d)"
proof (cases "length xs > 0")
  case True
  then show thesis
    using rdma_op_async [OF assms] assms(4-6)
    by (intro that [of "(dev_ctx d)\<lparr>outstanding_requests := of_nat (length xs)\<rparr>"]) simp_all
next
  case False
  then show thesis
    using assms(4-6) by (intro that [of "dev_ctx d"]) simp_all
qed

lemma request_async_run:
  assumes ready: "async_ready C V cap ctx lkey d gs"
    and cap: "length gs + length (req_groups C V [] rqs) < cap"
    and len: "length (queue_wrs C V rqs) < MAX_REQ C" and start: "starts (req_groups C V [] rqs)"
  shows "\<exists>d' bs. rmem_request_async C V d rqs tr =
      Inr (d', tr @ skip_ends rqs @ map (\<lambda>y. Post [async_post ctx lkey y] 0)
        (zip (queue_wrs C V rqs) (group_ids (zip bs (req_groups C V [] rqs))))) \<and>
    length bs = length (req_groups C V [] rqs) \<and>
    length (group_ids (zip bs (req_groups C V [] rqs))) = length (queue_wrs C V rqs) \<and>
    async_ready C V cap ctx lkey d' (gs @ zip bs (req_groups C V [] rqs))"
proof -
  let ?G = "req_groups C V [] rqs" and ?X = "queue_wrs C V rqs"
  have C: "MODE C = MODE_ASYNC" "\<not> MEASURE_LATENCY C" "\<not> DEBUG_OUT_REQ C" "1 < REQ_ARR_SIZE C"
      and V: "accepting V" and home: "arrays_home C d"
      and ctx: "rem_vaddr (dev_ctx d) = rem_vaddr ctx" "rem_rkey (dev_ctx d) = rem_rkey ctx"
        "map_option mr_lkey (ctx_mr (dev_ctx d)) = Some lkey"
    using ready by (auto simp: async_ready_def async_conf_def)
  obtain p where p: "ctx_pool (dev_ctx d) = Some p" "pool_ok cap p gs"
    using ready by (auto simp: async_ready_def)
  let ?a = "hd (arr_items d)"
  have one: "1 < length (arr_items d)"
    using home C(4) by (simp add: arrays_home_def)
  obtain a h where get: "get_rdma_request_arr C d = Inr (?a, d\<lparr>dev_req_arr := a, dev_head := h, arr_lock := False\<rparr>)"
      "arr_inv C (d\<lparr>dev_req_arr := a, dev_head := h, arr_lock := False\<rparr>)"
      "arr_items (d\<lparr>dev_req_arr := a, dev_head := h, arr_lock := False\<rparr>) = tl (arr_items d)"
    using get_rdma_request_arr_ok [OF _ one, of C] home by (auto simp: arrays_home_def)
  define d1 where "d1 = d\<lparr>dev_req_arr := a, dev_head := h, arr_lock := False\<rparr>"
  have mem: "?a \<in> set (arr_items d)" "arr_items d = ?a # tl (arr_items d)"
    using one by (cases "arr_items d"; simp)+
  obtain arr where arr: "dev_req_heap d ?a = Some arr" "length arr = MAX_REQ C"
    using home mem(1) by (auto simp: arrays_home_def)
  have "arr_ok C arr [] []"
    using arr len by (auto simp: arr_ok_def)
  from async_requests_ok [OF p(2) cap this, of "NULL" True d1 tr] len start C
  obtain bs p' arr' where run: "async_requests C V rqs NULL True (built d1 p arr 0 tr) =
        Inr (built d1 p' arr' (length ?X) (tr @ skip_ends rqs))"
      "length bs = length ?G" "pool_ok cap p' (gs @ zip bs ?G)" "arr_ok C arr' ?X (group_ids (zip bs ?G))"
    by (auto simp: queue_wrs_def)
  let ?tr = "tr @ skip_ends rqs" and ?posts = "map (\<lambda>y. Post [async_post ctx lkey y] 0) (zip ?X (group_ids (zip bs ?G)))"
  have d1: "with_pool d1 p = d1" "dev_ctx (with_pool d1 p') = (dev_ctx d)\<lparr>ctx_pool := Some p'\<rparr>"
    using p(1) by (simp_all add: with_pool_same d1_def with_pool_def)
  have keys: "rem_vaddr (dev_ctx (with_pool d1 p')) = rem_vaddr ctx" "rem_rkey (dev_ctx (with_pool d1 p')) = rem_rkey ctx"
      "map_option mr_lkey (ctx_mr (dev_ctx (with_pool d1 p'))) = Some lkey" and pool: "ctx_pool (dev_ctx (with_pool d1 p')) = Some p'"
    using ctx d1(2) by simp_all
  obtain c where c: "(if length ?X > 0 then
        bindR (rdma_op C V [] (dev_ctx (with_pool d1 p')) ?tr arr' (length ?X))
          (\<lambda>(ret, ctx, tr', rs). Inr ((with_pool d1 p')\<lparr>dev_ctx := ctx\<rparr>, tr'))
        else Inr (with_pool d1 p', ?tr)) = Inr ((with_pool d1 p')\<lparr>dev_ctx := c\<rparr>, ?tr @ ?posts)"
      "rem_vaddr c = rem_vaddr ctx" "rem_rkey c = rem_rkey ctx" "map_option mr_lkey (ctx_mr c) = Some lkey"
      "ctx_pool c = Some p'"
    by (rule post_built [OF run(4) C(1) V keys, unfolded pool])
  let ?d2 = "(with_pool d1 p')\<lparr>dev_ctx := c\<rparr>"
  let ?d3 = "?d2\<lparr>dev_req_heap := (dev_req_heap ?d2)(?a \<mapsto> arr')\<rparr>"
  have inv3: "arr_inv C ?d3" "arr_items ?d3 = tl (arr_items d)"
    using get(2,3) by (simp_all add: d1_def with_pool_def)
  have "length (arr_items ?d3) < REQ_ARR_SIZE C"
    using inv3(2) home one by (simp add: arrays_home_def)
  from return_rdma_request_arr_ok [OF inv3(1) this, of ?a] ring_hd_NULL home
  obtain a' t' where ret: "return_rdma_request_arr C ?d3 ?a = Inr (?d3\<lparr>dev_req_arr := a', dev_tail := t', arr_lock := False\<rparr>)"
      "arr_inv C (?d3\<lparr>dev_req_arr := a', dev_tail := t', arr_lock := False\<rparr>)"
      "arr_items (?d3\<lparr>dev_req_arr := a', dev_tail := t', arr_lock := False\<rparr>) = tl (arr_items d) @ [?a]"
    using inv3(2) by (auto simp: arrays_home_def)
  let ?d4 = "?d3\<lparr>dev_req_arr := a', dev_tail := t', arr_lock := False\<rparr>"
  have deref: "deref (dev_req_heap d1) ?a = Inr arr"
    using arr(1) by (simp add: d1_def)
  have res: "rmem_request_async C V d rqs tr = Inr (?d4, tr @ skip_ends rqs @ ?posts)"
    unfolding rmem_request_async_def get(1) d1_def [symmetric] bindR.simps case_prod_conv deref
    by (simp only: run(1) [unfolded d1(1)] bindR.simps async_state.simps c(1) case_prod_conv ret(1) append_assoc)
  have lens: "length arr' = MAX_REQ C" "length (group_ids (zip bs ?G)) = length ?X"
    using arr_ok_lengths [OF run(4)] by simp_all
  have "set (tl (arr_items d)) \<subseteq> set (arr_items d)"
    by (cases "arr_items d") auto
  then have "arrays_home C ?d4"
    using ret(2,3) home one mem lens(1) by (auto simp: arrays_home_def d1_def with_pool_def)
  moreover have "gs @ zip bs ?G \<noteq> [] \<longrightarrow> 0 < snd (snd (hd (gs @ zip bs ?G)))"
    using ready start zip_hd_starts [OF run(2)] run(2) by (cases gs; cases ?G) (auto simp: async_ready_def)
  ultimately have "async_ready C V cap ctx lkey ?d4 (gs @ zip bs ?G)"
    using ready V c run(3) by (simp add: async_ready_def)
  then show ?thesis
    using res run(2) lens(2) by auto
qed

section \<open>The completion handler\<close>

text \<open>
  The specification of a completion on the queue of groups without their batch
  requests: the block requests it ends and the groups that stay.
\<close>

fun complete :: "(ptr \<times> nat) list \<Rightarrow> ptr list \<times> (ptr \<times> nat) list" where
  "complete [] = ([], [])"
| "complete ((r, n) # gs) =
     (if n \<le> 1
      then (r # map fst (takeWhile (\<lambda>g. snd g = 0) gs), dropWhile (\<lambda>g. snd g = 0) gs)
      else ([], (r, n - 1) # gs))"

abbreviation ends :: "ptr list \<Rightarrow> io_event list" where
  "ends rs \<equiv> map (\<lambda>r. End_Request_All r 0) rs"

lemma pool_ok_return:
  assumes ok: "pool_ok cap p ((b, r, n) # gs)" and C: "\<not> MEASURE_LATENCY C"
  shows "\<exists>p'. return_batch_request C now khz p b = Inr p' \<and> pool_heap p' = pool_heap p \<and> pool_ok cap p' gs"
proof -
  have "length (pool_items p) < pool_cap p" "b \<noteq> NULL" "pool_inv p"
    using ok by (auto simp: pool_ok_def)
  then obtain p' where p': "return_batch_request C now khz p b = Inr p'" "pool_inv p'"
      "pool_items p' = pool_items p @ [b]" "pool_cap p' = pool_cap p" "pool_heap p' = pool_heap p"
    using return_batch_request_ok [OF _ _ _ C] by blast
  moreover have "pool_ok cap p' gs"
    using ok p' by (auto simp: pool_ok_def batch_is_def)
  ultimately show ?thesis by blast
qed

lemma end_batches_ok:
  assumes "pool_ok cap p ((b, r, 0) # gs)" and "length gs < fuel"
    and C: "\<not> MEASURE_LATENCY C" "\<not> DEBUG_OUT_REQ C"
  shows "\<exists>p'. end_batches C V fuel b (with_pool d p) tr =
      Inr (with_pool d p', tr @ ends (r # map (\<lambda>g. fst (snd g)) (takeWhile (\<lambda>g. snd (snd g) = 0) gs))) \<and>
    pool_ok cap p' (dropWhile (\<lambda>g. snd (snd g) = 0) gs)"
  using assms(1,2)
proof (induction gs arbitrary: p b r fuel tr)
  case Nil
  then obtain f where f: "fuel = Suc f" by (cases fuel) auto
  obtain x where x: "pool_heap p b = Some x" "br_req x = r" "br_next x = NULL" "b \<noteq> NULL"
    using Nil.prems(1) by (auto simp: pool_ok_def batch_is_def)
  obtain p1 where "return_batch_request C (rdtsc V (tr @ [End_Request_All r 0])) (cpu_khz V) p b = Inr p1"
      "pool_heap p1 = pool_heap p" "pool_ok cap p1 []"
    using pool_ok_return [OF Nil.prems(1) C(1)] by blast
  moreover have "end_batches C V f NULL D T = Inr (D, T)" for D T
    by (cases f) simp_all
  ultimately show ?case
    using x C f by (auto simp: Let_def)
next
  case (Cons g gs)
  then obtain f where f: "fuel = Suc f" by (cases fuel) auto
  obtain b' r' n' where g: "g = (b', r', n')" by (cases g)
  obtain x where x: "pool_heap p b = Some x" "br_req x = r" "br_next x = next_of (g # gs)" "b \<noteq> NULL"
    using Cons.prems(1) by (auto simp: pool_ok_def batch_is_def)
  obtain p1 where p1: "return_batch_request C (rdtsc V (tr @ [End_Request_All r 0])) (cpu_khz V) p b = Inr p1"
      "pool_heap p1 = pool_heap p" "pool_ok cap p1 (g # gs)"
    using pool_ok_return [OF Cons.prems(1) C(1)] by blast
  have step: "end_batches C V fuel b (with_pool d p) tr =
      end_batches C V f (next_of (g # gs)) (with_pool d p1) (tr @ [End_Request_All r 0])"
    using x p1 C f by (simp add: Let_def)
  show ?case
  proof (cases "n' = 0")
    case True
    then obtain p2 where "end_batches C V f b' (with_pool d p1) (tr @ [End_Request_All r 0]) =
        Inr (with_pool d p2, (tr @ [End_Request_All r 0]) @
          ends (r' # map (\<lambda>g. fst (snd g)) (takeWhile (\<lambda>g. snd (snd g) = 0) gs)))"
        "pool_ok cap p2 (dropWhile (\<lambda>g. snd (snd g) = 0) gs)"
      using Cons.IH [of p1 b' r' f "tr @ [End_Request_All r 0]"] p1(3) Cons.prems(2) f g by auto
    then show ?thesis
      using step g True by auto
  next
    case False
    have "end_batches C V f NULL D T = Inr (D, T)" for D T
      by (cases f) simp_all
    then show ?thesis
      using step g False p1(3) by auto
  qed
qed

lemma pool_ok_dec:
  assumes "pool_ok cap p ((b, r, Suc n) # gs)"
  shows "\<exists>p'. write_batch (with_pool d p) b (\<lambda>x. x\<lparr>br_outstanding_reqs := br_outstanding_reqs x - 1\<rparr>) =
      Inr (with_pool d p') \<and> pool_ok cap p' ((b, r, n) # gs) \<and> pool_size p' = pool_size p \<and>
    (\<exists>x. pool_heap p' b = Some x \<and> br_outstanding_reqs x = int n)"
proof -
  obtain x where x: "pool_heap p b = Some x" "br_req x = r" "br_outstanding_reqs x = int (Suc n)" "br_next x = next_of gs"
    using assms by (auto simp: pool_ok_def batch_is_def)
  let ?h = "(pool_heap p)(b \<mapsto> x\<lparr>br_outstanding_reqs := br_outstanding_reqs x - 1\<rparr>)"
  have "b \<notin> fst ` set gs" and ch: "chained (pool_heap p) gs"
    using assms by (auto simp: pool_ok_def)
  then have "chained ?h gs" "batch_is ?h b r n (next_of gs)" "set (pool_items p) \<subseteq> dom ?h"
    using x assms by (simp_all add: batch_is_def pool_ok_def subset_insertI2 del: fun_upd_apply) simp
  then have "pool_ok cap (p\<lparr>pool_heap := ?h\<rparr>) ((b, r, n) # gs)"
    using assms by (simp add: pool_ok_def del: fun_upd_apply)
  then show ?thesis
    using x by auto
qed

definition good_wc :: "ptr \<Rightarrow> ib_wc" where
  "good_wc b = \<lparr>wc_wr_id = b, wc_status = IB_WC_SUCCESS\<rparr>"

lemma takeWhile_snd: "map fst (takeWhile (\<lambda>g. snd g = 0) (map snd gs)) = map (\<lambda>g. fst (snd g)) (takeWhile (\<lambda>g. snd (snd g) = (0 :: nat)) gs)"
  by (induction gs) auto

lemma dropWhile_snd: "dropWhile (\<lambda>g. snd g = (0 :: nat)) (map snd gs) = map snd (dropWhile (\<lambda>g. snd (snd g) = 0) gs)"
  by (induction gs) auto

lemma group_ids_dropWhile [simp]: "group_ids (dropWhile (\<lambda>g. snd (snd g) = 0) gs) = group_ids gs"
  by (induction gs) auto

lemma comp_one_ok:
  assumes ready: "async_ready C V cap ctx lkey d gs" and gs: "gs \<noteq> []" and es: "complete (map snd gs) = (es, gs')"
  shows "\<exists>d' hs. comp_one C V (good_wc (hd (group_ids gs))) d tr =
      Inr (d', tr @ Polled [good_wc (hd (group_ids gs))] # ends es) \<and>
    async_ready C V cap ctx lkey d' hs \<and> map snd hs = gs' \<and> group_ids hs = tl (group_ids gs)"
proof -
  obtain b r n rest where g: "gs = (b, r, Suc n) # rest"
    using ready gs by (cases gs; cases "snd (snd (hd gs))") (auto simp: async_ready_def)
  obtain p where p: "ctx_pool (dev_ctx d) = Some p" "pool_ok cap p gs"
    using ready unfolding async_ready_def by blast
  note pd = with_pool_same [OF p(1)]
  have C: "MODE C = MODE_ASYNC" "\<not> MEASURE_LATENCY C" "\<not> DEBUG_OUT_REQ C"
    using ready by (auto simp: async_ready_def async_conf_def)
  have id: "hd (group_ids gs) = b"
    by (simp add: g)
  obtain p1 where p1: "write_batch d b (\<lambda>x. x\<lparr>br_outstanding_reqs := br_outstanding_reqs x - 1\<rparr>) = Inr (with_pool d p1)"
      "pool_ok cap p1 ((b, r, n) # rest)" "pool_size p1 = pool_size p"
      "\<exists>x. pool_heap p1 b = Some x \<and> br_outstanding_reqs x = int n"
    using pool_ok_dec [of cap p b r n rest d] p(2) unfolding g pd by blast
  have step: "comp_one C V (good_wc b) d tr =
      (if n = 0 then end_batches C V (nat (pool_size p1)) b (with_pool d p1) (tr @ [Polled [good_wc b]])
       else Inr (with_pool d p1, tr @ [Polled [good_wc b]]))"
    using p1 C by (auto simp: comp_one_def Let_def good_wc_def)
  have rdy: "async_ready C V cap ctx lkey (with_pool d p2) hs"
    if "pool_ok cap p2 hs" "hs \<noteq> [] \<longrightarrow> 0 < snd (snd (hd hs))" for p2 hs
    using ready that by (simp add: async_ready_def arrays_home_def with_pool_def)
  show ?thesis
  proof (cases "n = 0")
    case True
    have "1 \<le> length (pool_items p1)" "length (pool_items p1) + Suc (length rest) = cap" "nat (pool_size p1) = cap"
      using p1(2) pool_items_bounds [of p1] by (auto simp: pool_ok_def pool_inv_def pool_cap_def)
    then have "length rest < nat (pool_size p1)"
      by linarith
    from end_batches_ok [OF _ this C(2,3)] p1(2) True obtain p2 where p2:
        "end_batches C V (nat (pool_size p1)) b (with_pool d p1) (tr @ [Polled [good_wc b]]) =
          Inr (with_pool d p2, (tr @ [Polled [good_wc b]]) @
            ends (r # map (\<lambda>g. fst (snd g)) (takeWhile (\<lambda>g. snd (snd g) = 0) rest)))"
        "pool_ok cap p2 (dropWhile (\<lambda>g. snd (snd g) = 0) rest)"
      by metis
    have "dropWhile (\<lambda>g. snd (snd g) = 0) rest \<noteq> [] \<longrightarrow>
        0 < snd (snd (hd (dropWhile (\<lambda>g. snd (snd g) = (0 :: nat)) rest)))"
      using hd_dropWhile [of "\<lambda>g. snd (snd g) = 0" rest] by auto
    moreover have "es = r # map (\<lambda>g. fst (snd g)) (takeWhile (\<lambda>g. snd (snd g) = 0) rest)"
        "gs' = map snd (dropWhile (\<lambda>g. snd (snd g) = 0) rest)"
      using es by (auto simp: g True takeWhile_snd dropWhile_snd)
    ultimately show ?thesis
      unfolding id using step True p2 rdy [OF p2(2)] g
      by (intro exI [of _ "with_pool d p2"] exI [of _ "dropWhile (\<lambda>g. snd (snd g) = 0) rest"]) simp
  next
    case False
    moreover have "es = []" "gs' = map snd ((b, r, n) # rest)"
      using es False by (auto simp: g)
    ultimately show ?thesis
      unfolding id using step rdy [OF p1(2)] g
      by (intro exI [of _ "with_pool d p1"] exI [of _ "(b, r, n) # rest"]) simp
  qed
qed

section \<open>Schedules of calls and completions\<close>

text \<open>
  The driver over time: calls of the request function and rounds of the completion
  handler in any order. A reliable connection completes work requests in the order
  in which they were posted, so the next completion is that of the oldest one.
  \<open>spec_run\<close> is the same schedule on the queue of groups; it gives \<open>None\<close> when a call
  exceeds what the pool or a request array holds, or begins with a request that has
  no segments.
\<close>

datatype async_op = Submit "request list" | Complete

definition wr_ids :: "io_event list \<Rightarrow> ptr list" where
  "wr_ids tr = map p_wr_id (concat (posts_of tr))"

definition done_count :: "io_event list \<Rightarrow> nat" where
  "done_count tr = sum_list (map (\<lambda>e. case e of Polled ws \<Rightarrow> length ws | _ \<Rightarrow> 0) tr)"

definition oldest :: "io_event list \<Rightarrow> ptr list" where
  "oldest tr = take 1 (drop (done_count tr) (wr_ids tr))"

fun async_run :: "conf \<Rightarrow> verbs \<Rightarrow> async_op list \<Rightarrow> rmem_device \<Rightarrow> io_event list \<Rightarrow>
    (rmem_device \<times> io_event list) result" where
  "async_run C V [] d tr = Inr (d, tr)"
| "async_run C V (Submit rqs # ops) d tr =
     bindR (rmem_request_async C V d rqs tr) (\<lambda>(d', tr'). async_run C V ops d' tr')"
| "async_run C V (Complete # ops) d tr =
     bindR (comp_handler_send C V [(map good_wc (oldest tr), 0)] d tr) (\<lambda>(d', tr'). async_run C V ops d' tr')"

fun spec_run :: "conf \<Rightarrow> verbs \<Rightarrow> nat \<Rightarrow> async_op list \<Rightarrow> (ptr \<times> nat) list \<Rightarrow>
    (ptr list \<times> (ptr \<times> nat) list) option" where
  "spec_run C V cap [] gs = Some ([], gs)"
| "spec_run C V cap (Submit rqs # ops) gs =
     (let new = req_groups C V [] rqs in
      if length gs + length new < cap \<and> length (queue_wrs C V rqs) < MAX_REQ C \<and> starts new
      then spec_run C V cap ops (gs @ new) else None)"
| "spec_run C V cap (Complete # ops) gs =
     (case complete gs of (es, gs') \<Rightarrow> map_option (\<lambda>(fs, hs). (es @ fs, hs)) (spec_run C V cap ops gs'))"

fun submitted :: "async_op list \<Rightarrow> ptr list" where
  "submitted [] = []"
| "submitted (Submit rqs # ops) = map rq_at (filter rq_fs rqs) @ submitted ops"
| "submitted (Complete # ops) = submitted ops"

definition ended :: "io_event list \<Rightarrow> ptr list" where
  "ended tr = concat (map (\<lambda>e. case e of End_Request_All r err \<Rightarrow> [r] | _ \<Rightarrow> []) tr)"

lemma wr_ids_append [simp]: "wr_ids (tr @ tr') = wr_ids tr @ wr_ids tr'"
  by (simp add: wr_ids_def)

lemma done_count_append [simp]: "done_count (tr @ tr') = done_count tr + done_count tr'"
  by (simp add: done_count_def)

lemma ended_append [simp]: "ended (tr @ tr') = ended tr @ ended tr'"
  by (simp add: ended_def)

lemma skip_ends_counts [simp]:
  "wr_ids (skip_ends rqs) = []" "done_count (skip_ends rqs) = 0" "ended (skip_ends rqs) = []"
  by (induction rqs) (simp_all add: wr_ids_def done_count_def ended_def)

lemma ends_counts [simp]: "wr_ids (ends rs) = []" "done_count (ends rs) = 0" "ended (ends rs) = rs"
  by (induction rs) (simp_all add: wr_ids_def done_count_def ended_def)

lemma posts_counts [simp]:
  "done_count (map (\<lambda>y. Post [f y] 0) ys) = 0" "ended (map (\<lambda>y. Post [f y] 0) ys) = []"
  "wr_ids (map (\<lambda>y. Post [f y] 0) ys) = map (\<lambda>y. p_wr_id (f y)) ys"
  by (induction ys) (simp_all add: wr_ids_def done_count_def ended_def)

lemma polled_counts [simp]:
  "wr_ids (Polled ws # tr) = wr_ids tr" "done_count (Polled ws # tr) = length ws + done_count tr"
  "ended (Polled ws # tr) = ended tr"
  by (simp_all add: wr_ids_def done_count_def ended_def)

lemma map_wr_id_posts:
  "length xs = length ids \<Longrightarrow> map (\<lambda>y. p_wr_id (async_post ctx lkey y)) (zip xs ids) = ids"
  by (induction xs ids rule: list_induct2) (simp_all add: async_post_def)

lemma group_ids_empty:
  "async_ready C V cap ctx lkey d gs \<Longrightarrow> group_ids gs = [] \<Longrightarrow> gs = []"
  by (cases gs) (auto simp: async_ready_def)

text \<open>The device follows the specification, whatever the schedule.\<close>

definition async_rel :: "conf \<Rightarrow> verbs \<Rightarrow> nat \<Rightarrow> rdma_ctx \<Rightarrow> u32 \<Rightarrow> rmem_device \<Rightarrow> io_event list \<Rightarrow>
    (ptr \<times> nat) list \<Rightarrow> bool" where
  "async_rel C V cap ctx lkey d tr hs \<longleftrightarrow> (\<exists>gs. async_ready C V cap ctx lkey d gs \<and> map snd gs = hs \<and>
     group_ids gs = drop (done_count tr) (wr_ids tr) \<and> done_count tr \<le> length (wr_ids tr))"

lemma submit_step:
  assumes rel: "async_rel C V cap ctx lkey d tr hs" and new: "new = req_groups C V [] rqs"
    and c: "length hs + length new < cap" "length (queue_wrs C V rqs) < MAX_REQ C" "starts new"
  shows "\<exists>d' tr'. rmem_request_async C V d rqs tr = Inr (d', tr') \<and>
    async_rel C V cap ctx lkey d' tr' (hs @ new) \<and> ended tr' = ended tr"
proof -
  obtain gs where gs: "async_ready C V cap ctx lkey d gs" "map snd gs = hs"
      "group_ids gs = drop (done_count tr) (wr_ids tr)" "done_count tr \<le> length (wr_ids tr)"
    using rel by (auto simp: async_rel_def)
  have "length gs = length hs"
    using gs(2) by auto
  then obtain d1 bs where run: "rmem_request_async C V d rqs tr =
        Inr (d1, tr @ skip_ends rqs @ map (\<lambda>y. Post [async_post ctx lkey y] 0)
          (zip (queue_wrs C V rqs) (group_ids (zip bs new))))" (is "_ = Inr (d1, ?tr)")
      "length bs = length new" "length (group_ids (zip bs new)) = length (queue_wrs C V rqs)"
      "async_ready C V cap ctx lkey d1 (gs @ zip bs new)"
    using request_async_run [OF gs(1), of rqs tr] c unfolding new by auto
  have "wr_ids ?tr = wr_ids tr @ group_ids (zip bs new)" "done_count ?tr = done_count tr" "ended ?tr = ended tr"
    using run(3) by (simp_all add: map_wr_id_posts)
  moreover have "map snd (gs @ zip bs new) = hs @ new"
    using run(2) gs(2) by simp
  ultimately have "async_rel C V cap ctx lkey d1 ?tr (hs @ new)"
    unfolding async_rel_def using run(4) gs(3,4) by (intro exI [of _ "gs @ zip bs new"]) simp
  then show ?thesis
    using run(1) \<open>ended ?tr = ended tr\<close> by blast
qed

lemma take_one: "xs \<noteq> [] \<Longrightarrow> take 1 xs = [hd xs]"
  by (cases xs) auto

lemma complete_step:
  assumes rel: "async_rel C V cap ctx lkey d tr hs" and es: "complete hs = (es, hs')"
  shows "\<exists>d' tr'. comp_handler_send C V [(map good_wc (oldest tr), 0)] d tr = Inr (d', tr') \<and>
    async_rel C V cap ctx lkey d' tr' hs' \<and> ended tr' = ended tr @ es"
proof -
  obtain gs where gs: "async_ready C V cap ctx lkey d gs" "map snd gs = hs"
      "group_ids gs = drop (done_count tr) (wr_ids tr)" "done_count tr \<le> length (wr_ids tr)"
    using rel by (auto simp: async_rel_def)
  have mode: "MODE C \<noteq> MODE_SYNC"
    using gs(1) by (auto simp: async_ready_def async_conf_def)
  show ?thesis
  proof (cases "gs = []")
    case True
    then have "oldest tr = []" "hs = []"
      using gs(2,3) by (auto simp: oldest_def)
    then show ?thesis
      using rel es mode by auto
  next
    case False
    let ?b = "hd (group_ids gs)"
    have ne: "drop (done_count tr) (wr_ids tr) \<noteq> []"
      using group_ids_empty [OF gs(1)] False gs(3) by auto
    then have old: "oldest tr = [?b]" and lt: "done_count tr < length (wr_ids tr)"
      unfolding oldest_def gs(3) by (rule take_one) (use ne in simp)
    obtain d1 hs1 where one: "comp_one C V (good_wc ?b) d tr = Inr (d1, tr @ Polled [good_wc ?b] # ends es)" (is "_ = Inr (d1, ?tr)")
        "async_ready C V cap ctx lkey d1 hs1" "map snd hs1 = hs'" "group_ids hs1 = tl (group_ids gs)"
      using comp_one_ok [OF gs(1) False] es gs(2) by blast
    have "group_ids hs1 = drop (Suc (done_count tr)) (wr_ids tr)"
      unfolding one(4) gs(3) by (simp add: drop_Suc tl_drop)
    then have "async_rel C V cap ctx lkey d1 ?tr hs'"
      unfolding async_rel_def using one(2,3) lt by (intro exI [of _ hs1]) simp
    moreover have "ended ?tr = ended tr @ es"
      by simp
    ultimately show ?thesis
      using one(1) old mode by (intro exI [of _ d1] exI [of _ ?tr]) simp
  qed
qed

lemma async_run_refines:
  assumes "async_rel C V cap ctx lkey d tr gs" and "spec_run C V cap ops gs = Some (fs, hs)"
  shows "\<exists>d' tr'. async_run C V ops d tr = Inr (d', tr') \<and> async_rel C V cap ctx lkey d' tr' hs \<and>
    ended tr' = ended tr @ fs"
  using assms
proof (induction ops arbitrary: d gs tr fs)
  case Nil
  then show ?case by auto
next
  case (Cons op ops)
  show ?case
  proof (cases op)
    case (Submit rqs)
    have c: "length gs + length (req_groups C V [] rqs) < cap" "length (queue_wrs C V rqs) < MAX_REQ C"
        "starts (req_groups C V [] rqs)"
        and spec: "spec_run C V cap ops (gs @ req_groups C V [] rqs) = Some (fs, hs)"
      using Cons.prems(2) Submit by (auto simp: Let_def split: if_splits)
    from submit_step [OF Cons.prems(1) refl c] obtain d1 tr1 where
        "rmem_request_async C V d rqs tr = Inr (d1, tr1)"
        "async_rel C V cap ctx lkey d1 tr1 (gs @ req_groups C V [] rqs)" "ended tr1 = ended tr"
      by blast
    then show ?thesis
      using Cons.IH [OF _ spec] Submit by fastforce
  next
    case Complete
    then obtain es gs1 fs1 where spec: "complete gs = (es, gs1)" "spec_run C V cap ops gs1 = Some (fs1, hs)"
        "fs = es @ fs1"
      using Cons.prems(2) by (auto split: prod.splits)
    from complete_step [OF Cons.prems(1) spec(1)] obtain d1 tr1 where
        "comp_handler_send C V [(map good_wc (oldest tr), 0)] d tr = Inr (d1, tr1)"
        "async_rel C V cap ctx lkey d1 tr1 gs1" "ended tr1 = ended tr @ es"
      by blast
    then show ?thesis
      using Cons.IH [OF _ spec(2)] spec(3) Complete by fastforce
  qed
qed

lemma complete_conserves: "complete gs = (es, gs') \<Longrightarrow> es @ map fst gs' = map fst gs"
  by (cases gs rule: complete.cases) (auto simp: map_append [symmetric] simp del: map_append split: if_splits)

lemma map_fst_req_groups: "map fst (req_groups C V xs rqs) = map rq_at (filter rq_fs rqs)"
  by (induction rqs arbitrary: xs) (auto simp: Let_def)

lemma spec_run_conserves:
  "spec_run C V cap ops gs = Some (fs, hs) \<Longrightarrow> fs @ map fst hs = map fst gs @ submitted ops"
proof (induction ops arbitrary: gs fs)
  case (Cons op ops)
  then show ?case
    by (cases op) (auto simp: Let_def map_fst_req_groups split: if_splits prod.splits dest: complete_conserves)
qed simp

section \<open>The transfers of a call\<close>

lemma coalesce_join_all:
  assumes "coalesce zs cur" and "total_bytes (zs @ xs) < 2 ^ 32"
  shows "coalesce (zs @ xs) (foldl (batch_join C) cur xs)"
  using assms
proof (induction xs arbitrary: zs cur)
  case (Cons x xs)
  have "coalesce (zs @ [x]) (batch_join C cur x)"
    using coalesce_batch_join [of zs "[]" cur x C] Cons.prems by simp
  from Cons.IH [OF this] Cons.prems(2) show ?case by simp
qed simp

lemma join_all_plain: "\<not> MERGE_REQ C \<Longrightarrow> foldl (batch_join C) cur xs = cur @ xs"
  by (induction xs arbitrary: cur) (simp_all add: batch_join_def)

lemma join_all_all:
  assumes "\<And>x y. P x \<Longrightarrow> P y \<Longrightarrow> adjacent x y \<Longrightarrow> P (join x y)" and "\<forall>x \<in> set xs. P x" and "\<forall>x \<in> set cur. P x"
  shows "\<forall>x \<in> set (foldl (batch_join C) cur xs). P x"
  using assms(2,3)
proof (induction xs arbitrary: cur)
  case (Cons x xs)
  have "\<forall>y \<in> set (batch_join C cur x). P y"
    by (rule batch_join_all [of P]) (use assms(1) Cons.prems in auto)
  then show ?case
    using Cons by simp
qed simp

lemma run_queue_wrs:
  assumes "MERGE_REQ C \<longrightarrow> total_bytes (queue_xfers V (map whole_req rqs)) < 2 ^ 32"
  shows "run_xfers (card_exec io) (queue_wrs C V rqs) m = run_xfers (card_exec io) (queue_xfers V (map whole_req rqs)) m"
proof (cases "MERGE_REQ C")
  case True
  then show ?thesis
    using assms card.run_coalesce coalesce_join_all [OF coalesce_refl, of "[]"] by (simp add: queue_wrs_def)
qed (simp add: queue_wrs_def join_all_plain)

lemma queue_wrs_small: "\<forall>x \<in> set (queue_wrs C V rqs). x_bytes x < 2 ^ 32"
  unfolding queue_wrs_def by (rule join_all_all) (simp add: join_def, rule queue_xfers_small, simp)

lemma whole_bio_plain: "bio_plain b \<Longrightarrow> whole_bio b = b"
proof -
  assume "bio_plain b"
  then have "drop_bit 9 (bi_cur_bytes b) * 512 = bi_cur_bytes b"
    by (intro word_unat_eq_iff [THEN iffD2]) (simp add: unat_whole bio_plain_def)
  then show ?thesis by (simp add: whole_bio_def)
qed

lemma whole_queue_plain: "all_bios bio_plain rqs \<Longrightarrow> queue_xfers V (map whole_req rqs) = queue_xfers V rqs"
proof (induction rqs)
  case (Cons rq rqs)
  have "whole_req rq = rq" if "rq_fs rq"
    using Cons.prems that map_idI [of "rq_bios rq" whole_bio] by (simp add: whole_req_def whole_bio_plain)
  then show ?case
    using Cons by (cases "rq_fs rq") simp_all
qed simp

lemma async_posts_disk:
  assumes "length ids = length (queue_wrs C V rqs)"
    and "MERGE_REQ C \<longrightarrow> total_bytes (queue_xfers V rqs) < 2 ^ 32"
    and "dma_reaches V io" and "all_bios bio_plain rqs" and "all_bios (bio_mapped V) rqs"
  shows "disk_view (rem_vaddr ctx) (run_xfers (card_exec io) (map (\<lambda>y. xfer_of (async_post ctx lkey y))
      (zip (queue_wrs C V rqs) ids)) m) = disk_queue rqs (disk_view (rem_vaddr ctx) m)"
proof -
  have "map (\<lambda>y. xfer_of (async_post ctx lkey y)) (zip xs ids) = map (rebase (rem_vaddr ctx)) xs"
    if "length xs = length ids" "\<forall>x \<in> set xs. x_bytes x < 2 ^ 32" for xs
    using that
  proof (induction xs ids rule: list_induct2)
    case (Cons x xs y ys)
    then show ?case
      using xfer_of_posted_xfer [of x ctx lkey] by (simp add: async_post_def xfer_of_def)
  qed simp
  then have "map (\<lambda>y. xfer_of (async_post ctx lkey y)) (zip (queue_wrs C V rqs) ids) =
      map (rebase (rem_vaddr ctx)) (queue_wrs C V rqs)"
    using assms(1) queue_wrs_small by simp
  moreover have "MERGE_REQ C \<longrightarrow> total_bytes (queue_xfers V (map whole_req rqs)) < 2 ^ 32"
    using assms(2) whole_queue_plain [OF assms(4)] by simp
  ultimately show ?thesis
    by (simp only: run_xfers_disk_view run_queue_wrs whole_queue_plain [OF assms(4)] queue_disk [OF assms(3-5)])
qed

section \<open>An example device for the asynchronous mode\<close>

definition ex_aconf :: conf where
  "ex_aconf = conf_h\<lparr>MODE := MODE_ASYNC, COPY_LESS := False, SIMPLE_MAKE_WR := False, MERGE_REQ := True,
     MAX_REQ := 8, REQ_ARR_SIZE := 2\<rparr>"

definition ex_batch :: batch_request where
  "ex_batch = \<lparr>br_id = 0, br_req = 0, br_nsec = 0, br_outstanding_reqs = 0, br_next = 0,
     br_all_request_sent = False, br_comp_reqs = 0, br_start_time = 0, br_first = False\<rparr>"

definition ex_pool :: batch_request_pool where
  "ex_pool = \<lparr>io_req = replicate IO_REQ_SIZE NULL, all_reqs = [11, 12, 13, 14], pool_data = [11, 12, 13, 14], pool_size = 4,
     pool_head = 0, pool_tail = 3, pool_lock = False, latency_dist = [], pool_at = 1, io_req_at = 2, all_at = 3,
     data_at = 4, pool_heap = [11 \<mapsto> ex_batch, 12 \<mapsto> ex_batch, 13 \<mapsto> ex_batch, 14 \<mapsto> ex_batch]\<rparr>"

definition ex_rreq :: rdma_request where
  "ex_rreq = \<lparr>rr_rw = RDMA_READ, rr_dma_addr = 0, rr_remote_offset = 0, rr_length = 0, rr_batch_req = 0\<rparr>"

definition ex_adev :: rmem_device where
  "ex_adev = ex_dev\<lparr>dev_ctx := ex_ctx\<lparr>ctx_pool := Some ex_pool\<rparr>, dev_req_arr := [50, 60],
     dev_req_heap := [50 \<mapsto> replicate 8 ex_rreq, 60 \<mapsto> replicate 8 ex_rreq], dev_head := 0, dev_tail := 1\<rparr>"

text \<open>A request of three segments, and one that continues its last segment and is merged into it.\<close>

definition ex_calls :: "request list" where
  "ex_calls = ex_queue @ [\<lparr>rq_at = 300, rq_fs = True, rq_cur_bytes = 4096, rq_bios = [\<lparr>bi_sector = 32, bi_write = True,
     bi_size = 4096, bi_cur_bytes = 4096, bi_io_vec = [\<lparr>bv_buf = 0x6000, bv_len = 4096\<rparr>]\<rparr>]\<rparr>]"

lemma ex_aconf_sel [simp]:
  "MODE ex_aconf = MODE_ASYNC" "MERGE_REQ ex_aconf" "MAX_REQ ex_aconf = 8" "REQ_ARR_SIZE ex_aconf = 2"
  "\<not> MEASURE_LATENCY ex_aconf" "\<not> DEBUG_OUT_REQ ex_aconf"
  by (simp_all add: ex_aconf_def)

lemma ex_pool_ok: "pool_ok 4 ex_pool []"
proof -
  have "ring_ok [11, 12, 13, 14] 0 3"
    using ring_ok_full [of "[11, 12, 13, 14]"] by (simp add: numeral_3_eq_3)
  moreover have "ring_items [11, 12, 13, 14] 0 3 = [11, 12, 13, 14]"
    using ring_items_full [of "[11, 12, 13, 14]"] by (simp add: numeral_3_eq_3)
  ultimately show ?thesis
    by (simp add: pool_ok_def pool_inv_def pool_items_def pool_cap_def ex_pool_def ring_count_def)
qed

lemma ex_async_ready: "async_ready ex_aconf ex_verbs 4 ex_ctx 7 ex_adev []"
proof -
  have "ring_ok [50, 60] 0 (length [50, 60 :: ptr] - 1)"
    by (rule ring_ok_full) simp_all
  moreover have "ring_items [50, 60] 0 (length [50, 60 :: ptr] - 1) = [50, 60]"
    by (rule ring_items_full) simp
  ultimately show ?thesis
    using ex_pool_ok
    by (simp add: async_ready_def async_conf_def arrays_home_def arr_inv_def arr_items_def ex_adev_def accepting_def
        ex_verbs_def ex_ctx_def ex_dev_def)
qed

lemma ex_calls_xfers: "queue_xfers ex_verbs (map whole_req ex_calls) =
    [Xfer IB_WR_RDMA_WRITE 0x1000 4096 4096, Xfer IB_WR_RDMA_WRITE 0x2000 8192 4096,
     Xfer IB_WR_RDMA_WRITE 0x5000 12288 4096, Xfer IB_WR_RDMA_WRITE 0x6000 16384 4096]"
  by (simp add: queue_xfers_def req_xfers_def ex_calls_def ex_queue_def whole_req_def whole_bio_def bi_segs_def
      opcode_of_def bio_op_def rdma_map_address_def ex_verbs_def drop_bit_eq_div)

lemma ex_calls_plain: "all_bios bio_plain ex_calls" "all_bios (bio_mapped ex_verbs) ex_calls"
  by (simp_all add: ex_calls_def ex_queue_def bio_plain_def bio_mapped_def ex_verbs_def)

lemma ex_calls_groups: "req_groups ex_aconf ex_verbs [] ex_calls = [(100, 2), (300, 0)]"
  by (simp add: req_xfers_def ex_calls_def ex_queue_def whole_req_def whole_bio_def bi_segs_def
      opcode_of_def bio_op_def rdma_map_address_def ex_verbs_def drop_bit_eq_div batch_join_def adjacent_def join_def)

lemma ex_calls_wrs: "queue_wrs ex_aconf ex_verbs ex_calls =
    [Xfer IB_WR_RDMA_WRITE 0x1000 4096 8192, Xfer IB_WR_RDMA_WRITE 0x5000 12288 8192]"
  by (simp add: queue_wrs_def ex_calls_xfers batch_join_def adjacent_def join_def)

lemma async_enter:
  assumes "async_ready C V cap ctx lkey d gs"
  obtains p d1 arr k where "ctx_pool (dev_ctx d) = Some p" "pool_ok cap p gs" "with_pool d1 p = d1"
    "ctx_pool (dev_ctx d1) = Some p"
    "rmem_request_async C V d rqs tr =
      bindR (async_requests C V rqs NULL True \<lparr>as_dev = d1, as_arr = arr, as_count = 0, as_tr = tr\<rparr>) k"
proof -
  have home: "arrays_home C d" and one: "1 < length (arr_items d)"
    using assms by (auto simp: async_ready_def async_conf_def arrays_home_def)
  obtain p where p: "ctx_pool (dev_ctx d) = Some p" "pool_ok cap p gs"
    using assms by (auto simp: async_ready_def)
  let ?a = "hd (arr_items d)"
  obtain a h where get: "get_rdma_request_arr C d = Inr (?a, d\<lparr>dev_req_arr := a, dev_head := h, arr_lock := False\<rparr>)"
    using get_rdma_request_arr_ok [OF _ one, of C] home by (auto simp: arrays_home_def)
  define d1 where "d1 = d\<lparr>dev_req_arr := a, dev_head := h, arr_lock := False\<rparr>"
  have "?a \<in> set (arr_items d)"
    using one by (cases "arr_items d") simp_all
  then obtain arr where arr: "deref (dev_req_heap d1) ?a = Inr arr"
    using home by (auto simp: arrays_home_def d1_def)
  have pool: "ctx_pool (dev_ctx d1) = Some p"
    using p(1) by (simp add: d1_def)
  show thesis
    by (rule that [OF p with_pool_same [OF pool] pool])
      (simp only: rmem_request_async_def get d1_def [symmetric] bindR.simps case_prod_conv arr)
qed

section \<open>Properties\<close>

text \<open>
  C4. Along every schedule of calls of \<open>rmem_request_async\<close> and completions in posting
  order that stays within the pool and the request arrays, no call faults, the
  file system requests are ended in the order in which they were submitted, each
  at most once, and when no work request is in flight every submitted request has
  been ended, also those that were merged into the work requests of others.
\<close>
theorem async_exactly_once:
  assumes "async_ready C V cap ctx lkey d []" and "spec_run C V cap ops [] = Some (fs, hs)"
  shows "\<exists>d' tr'. async_run C V ops d [] = Inr (d', tr') \<and> ended tr' = fs \<and>
    fs @ map fst hs = submitted ops \<and>
    (drop (done_count tr') (wr_ids tr') = [] \<longrightarrow> ended tr' = submitted ops)"
proof -
  have "async_rel C V cap ctx lkey d [] []"
    unfolding async_rel_def using assms(1) by (intro exI [of _ "[]"]) (simp add: wr_ids_def done_count_def)
  from async_run_refines [OF this assms(2)] obtain d' tr' where run: "async_run C V ops d [] = Inr (d', tr')"
      "async_rel C V cap ctx lkey d' tr' hs" "ended tr' = fs"
    by (auto simp: ended_def)
  have sub: "fs @ map fst hs = submitted ops"
    using spec_run_conserves [OF assms(2)] by simp
  have "hs = []" if "drop (done_count tr') (wr_ids tr') = []"
    using run(2) that group_ids_empty unfolding async_rel_def by (metis list.simps(8))
  then show ?thesis
    using run sub by auto
qed

theorem async_exactly_once_witness:
  "\<exists>d' tr'. async_run ex_aconf ex_verbs [Submit ex_calls, Complete, Complete, Submit ex_calls, Complete] ex_adev [] =
      Inr (d', tr') \<and> ended tr' = [100, 300]"
proof -
  have spec: "spec_run ex_aconf ex_verbs 4 [Submit ex_calls, Complete, Complete, Submit ex_calls, Complete] [] =
      Some ([100, 300], [(100, 1), (300, 0)])"
    by (simp add: Let_def ex_calls_groups ex_calls_wrs)
  show ?thesis
    using async_exactly_once [OF ex_async_ready spec] by blast
qed



text \<open>
  C35. A call of \<open>rmem_request_async\<close> whose first file system request has no segments
  dereferences the null pointer: there is no earlier batch request to chain it to.
\<close>
theorem rmem_request_async_empty_first:
  assumes "async_ready C V cap ctx lkey d gs" and "Suc (length gs) < cap" and "rq_fs rq" and "rq_bios rq = []"
    and "\<forall>p. ctx_pool (dev_ctx d) = Some p \<longrightarrow> pool_heap p NULL = None"
  shows "rmem_request_async C V d (rq # rqs) tr = Inl Null_Deref"
proof -
  have C: "\<not> MEASURE_LATENCY C" "\<not> DEBUG_OUT_REQ C"
    using assms(1) by (auto simp: async_ready_def async_conf_def)
  obtain p d1 arr k where p: "ctx_pool (dev_ctx d) = Some p" "pool_ok cap p gs" and d1: "with_pool d1 p = d1"
      and run: "rmem_request_async C V d (rq # rqs) tr = bindR (async_requests C V (rq # rqs) NULL True
        \<lparr>as_dev = d1, as_arr = arr, as_count = 0, as_tr = tr\<rparr>) k"
    by (rule async_enter [OF assms(1), where rqs = "rq # rqs" and tr = tr])
  obtain b p1 where s1: "async_start C V rq True (built d1 p arr 0 tr) = Inr (b, built d1 p1 arr 0 tr)"
      "pool_build cap p1 gs b (rq_at rq) 0" "pool_heap p1 NULL = None"
    using async_start_ok [OF p(2) assms(2) C, of "built d1 p arr 0 tr" d1 V rq True] assms(5) p(1) by auto
  obtain x where "pool_heap p1 b = Some x" "br_outstanding_reqs x = 0"
    using s1(2) by (auto simp: pool_build_def batch_is_def)
  then have "async_request C V rq NULL True (built d1 p arr 0 tr) = Inl Null_Deref"
    using s1 assms(4) by (simp add: async_request_def write_batch_def)
  then show ?thesis
    unfolding run using assms(3) by (simp add: d1)
qed

theorem rmem_request_async_empty_first_witness:
  "rmem_request_async ex_aconf ex_verbs ex_adev [\<lparr>rq_at = 100, rq_fs = True, rq_cur_bytes = 0, rq_bios = []\<rparr>] [] =
     Inl Null_Deref"
  by (rule rmem_request_async_empty_first [OF ex_async_ready]) (simp_all add: ex_adev_def ex_pool_def)

text \<open>
  C37. A call of \<open>rmem_request_async\<close> that needs a batch request when the pool has only
  one left gets \<open>NULL\<close> and writes through it.
\<close>
theorem rmem_request_async_exhausted:
  assumes "async_ready C V cap ctx lkey d gs" and "Suc (length gs) = cap" and "rq_fs rq"
    and "\<forall>p. ctx_pool (dev_ctx d) = Some p \<longrightarrow> pool_heap p NULL = None"
  shows "rmem_request_async C V d (rq # rqs) tr = Inl Null_Deref"
proof -
  have C: "\<not> DEBUG_OUT_REQ C"
    using assms(1) by (auto simp: async_ready_def async_conf_def)
  obtain p d1 arr k where p: "ctx_pool (dev_ctx d) = Some p" "pool_ok cap p gs" "ctx_pool (dev_ctx d1) = Some p"
      and run: "rmem_request_async C V d (rq # rqs) tr = bindR (async_requests C V (rq # rqs) NULL True
        \<lparr>as_dev = d1, as_arr = arr, as_count = 0, as_tr = tr\<rparr>) k"
    by (rule async_enter [OF assms(1), where rqs = "rq # rqs" and tr = tr])
  have "pool_head p = pool_tail p" "pool_inv p"
    using p(2) assms(2) pool_head_tail_iff [of p] by (auto simp: pool_ok_def)
  then have "get_batch_request C now p = Inr (NULL, p)" for now
    by (simp add: get_batch_request_none)
  moreover have "dev_pool d1 = Inr p" "deref (pool_heap p) NULL = Inl Null_Deref"
    using p assms(4) by (simp_all add: dev_pool_def)
  ultimately have "async_request C V rq NULL True \<lparr>as_dev = d1, as_arr = arr, as_count = 0, as_tr = tr\<rparr> =
      Inl Null_Deref"
    using C by (simp add: async_request_def async_start_def write_batch_def)
  then show ?thesis
    unfolding run using assms(3) by simp
qed

theorem rmem_request_async_exhausted_witness:
  "\<exists>d. async_ready ex_aconf ex_verbs 1 ex_ctx 7 d [] \<and>
    rmem_request_async ex_aconf ex_verbs d ex_calls [] = Inl Null_Deref"
proof -
  let ?p = "ex_pool\<lparr>pool_data := [11], pool_size := 1, pool_tail := 0\<rparr>"
  let ?d = "with_pool ex_adev ?p"
  have "ring_ok [11] 0 0" "ring_items [11] 0 0 = [11]"
    using ring_ok_full [of "[11]"] ring_items_full [of "[11]"] by simp_all
  then have "pool_ok 1 ?p []"
    by (simp add: pool_ok_def pool_inv_def pool_items_def pool_cap_def ex_pool_def ring_count_def)
  then have ready: "async_ready ex_aconf ex_verbs 1 ex_ctx 7 ?d []"
    using ex_async_ready by (simp add: async_ready_def with_pool_def arrays_home_def)
  have "rmem_request_async ex_aconf ex_verbs ?d (hd ex_calls # tl ex_calls) [] = Inl Null_Deref"
    by (rule rmem_request_async_exhausted [OF ready])
      (simp_all add: ex_calls_def ex_queue_def with_pool_def ex_pool_def)
  moreover have "hd ex_calls # tl ex_calls = ex_calls"
    by (simp add: ex_calls_def ex_queue_def)
  ultimately show ?thesis
    using ready by auto
qed

end
