(* ===== verification/Request_One.thy ===== *)
theory Request_One
  imports Async_Correct
begin

text \<open>
  The mode that posts work requests one by one: \<open>rmem_request_one\<close> of \<open>src/rmem.c\<close>
  (lines 364 to 463), with the completion handler running in between. A batch
  request counts the work requests it announced and the completions it saw, and
  the handler ends it when the two agree and all of them have been sent.

  The handler runs on another processor. \<open>intr\<close> marks the places where the request
  function has just changed what the handler reads; a schedule, one number per
  place, says how many completions the handler processes there. All theorems hold
  for every schedule.
\<close>

section \<open>The code\<close>

record one_state =
  os_dev :: rmem_device
  os_cur :: rdma_request
  os_has :: bool
  os_tr :: "io_event list"
  os_sched :: "nat list"

definition in_flight_ids :: "io_event list \<Rightarrow> ptr list" where
  "in_flight_ids tr = drop (done_count tr) (wr_ids tr)"

definition intr :: "conf \<Rightarrow> verbs \<Rightarrow> one_state \<Rightarrow> one_state result" where
  "intr C V s = (case os_sched s of [] \<Rightarrow> Inr s
     | k # ks \<Rightarrow>
         bindR (comp_handler_send C V [(map good_wc (take k (in_flight_ids (os_tr s))), 0)] (os_dev s) (os_tr s))
           (\<lambda>(d, tr). Inr (s\<lparr>os_dev := d, os_tr := tr, os_sched := ks\<rparr>)))"

text \<open>A change to the batch request, and a post of the current request.\<close>

definition one_write :: "conf \<Rightarrow> verbs \<Rightarrow> ptr \<Rightarrow> (batch_request \<Rightarrow> batch_request) \<Rightarrow> one_state \<Rightarrow> one_state result" where
  "one_write C V batch_req f s =
     bindR (write_batch (os_dev s) batch_req f) (\<lambda>d. intr C V (s\<lparr>os_dev := d\<rparr>))"

definition one_post :: "conf \<Rightarrow> verbs \<Rightarrow> one_state \<Rightarrow> one_state result" where
  "one_post C V s =
     bindR (rdma_op C V [] (dev_ctx (os_dev s)) (os_tr s) [os_cur s] 1) (\<lambda>(ret, ctx, tr, rs).
     intr C V (s\<lparr>os_dev := (os_dev s)\<lparr>dev_ctx := ctx\<rparr>, os_tr := tr\<rparr>))"

text \<open>
  One segment (lines 411 to 447). The buffer of a segment that follows another one
  is mapped with the length of the current request, as in the code.
\<close>

definition seg_request :: "verbs \<Rightarrow> ptr \<Rightarrow> bool \<Rightarrow> u64 \<Rightarrow> bio_seg \<Rightarrow> u32 \<Rightarrow> rdma_request" where
  "seg_request V batch_req w sector seg map_len =
     \<lparr>rr_rw = bio_op w, rr_dma_addr = rdma_map_address V (seg_buf seg) map_len,
      rr_remote_offset = sector * 512, rr_length = drop_bit 9 (seg_bytes seg) * 512,
      rr_batch_req = batch_req\<rparr>"

definition one_segment :: "conf \<Rightarrow> verbs \<Rightarrow> ptr \<Rightarrow> bool \<Rightarrow> u64 \<Rightarrow> bio_seg \<Rightarrow> one_state \<Rightarrow> one_state result" where
  "one_segment C V batch_req w sector seg s =
     (let announce = (\<lambda>b. b\<lparr>br_outstanding_reqs := br_outstanding_reqs b + 1\<rparr>) in
      if os_has s
      then let temp = seg_request V batch_req w sector seg (rr_length (os_cur s)) in
           if mergeable (os_cur s) temp
           then Inr (s\<lparr>os_cur := (os_cur s)\<lparr>rr_length := rr_length (os_cur s) + rr_length temp\<rparr>\<rparr>)
           else bindR (one_write C V batch_req announce s) (\<lambda>s1.
                bindR (one_post C V s1) (\<lambda>s2.
                Inr (s2\<lparr>os_cur := temp\<rparr>)))
      else one_write C V batch_req announce
             (s\<lparr>os_cur := seg_request V batch_req w sector seg (drop_bit 9 (seg_bytes seg) * 512), os_has := True\<rparr>))"

fun one_segs :: "conf \<Rightarrow> verbs \<Rightarrow> ptr \<Rightarrow> bool \<Rightarrow> u64 \<Rightarrow> bio_seg list \<Rightarrow> one_state \<Rightarrow> one_state result" where
  "one_segs C V batch_req w sector [] s = Inr s"
| "one_segs C V batch_req w sector (seg # segs) s =
     bindR (one_segment C V batch_req w sector seg s) (\<lambda>s'.
     one_segs C V batch_req w (sector + drop_bit 9 (ucast (seg_bytes seg))) segs s')"

fun one_bios :: "conf \<Rightarrow> verbs \<Rightarrow> ptr \<Rightarrow> bio list \<Rightarrow> one_state \<Rightarrow> one_state result" where
  "one_bios C V batch_req [] s = Inr s"
| "one_bios C V batch_req (b # bs) s =
     bindR (one_segs C V batch_req (bi_write b) (bi_sector b) (bi_segs b) s) (\<lambda>s'.
     bindR (one_write C V batch_req
              (\<lambda>x. x\<lparr>br_nsec := br_nsec x + int (unat (bi_size b div 512))\<rparr>) s') (\<lambda>s2.
     one_bios C V batch_req bs s2))"

text \<open>One file system request (lines 390 to 459).\<close>

definition one_start :: "conf \<Rightarrow> verbs \<Rightarrow> request \<Rightarrow> bool \<Rightarrow> one_state \<Rightarrow> (ptr \<times> one_state) result" where
  "one_start C V rq first_req s =
     bindR (dev_pool (os_dev s)) (\<lambda>p0.
     bindR (if DEBUG_OUT_REQ C then debug_pool_insert p0 (rq_at rq) else Inr p0) (\<lambda>p1.
     bindR (get_batch_request C (rdtsc V (os_tr s)) p1) (\<lambda>(batch_req, p2).
     bindR (one_write C V batch_req (\<lambda>b.
              let b' = b\<lparr>br_req := rq_at rq, br_outstanding_reqs := 0, br_comp_reqs := 0, br_next := NULL,
                         br_nsec := 0, br_all_request_sent := False\<rparr> in
              if MEASURE_LATENCY C then b'\<lparr>br_first := first_req\<rparr> else b')
              (s\<lparr>os_dev := with_pool (os_dev s) p2\<rparr>)) (\<lambda>s'.
     Inr (batch_req, s')))))"

definition one_request :: "conf \<Rightarrow> verbs \<Rightarrow> request \<Rightarrow> bool \<Rightarrow> one_state \<Rightarrow> one_state result" where
  "one_request C V rq first_req s =
     bindR (one_start C V rq first_req s) (\<lambda>(batch_req, s1).
     bindR (one_bios C V batch_req (rq_bios rq) s1) (\<lambda>s2.
     bindR (one_write C V batch_req (\<lambda>b. b\<lparr>br_all_request_sent := True\<rparr>) s2) (\<lambda>s3.
     bindR (one_post C V s3) (\<lambda>s4.
     Inr (s4\<lparr>os_has := False\<rparr>)))))"

fun one_requests :: "conf \<Rightarrow> verbs \<Rightarrow> request list \<Rightarrow> bool \<Rightarrow> one_state \<Rightarrow> one_state result" where
  "one_requests C V [] first_req s = Inr s"
| "one_requests C V (rq # rqs) first_req s =
     (if \<not> rq_fs rq
      then one_requests C V rqs first_req
             (s\<lparr>os_tr := os_tr s @ [End_Request (rq_at rq) (- EIO) (rq_cur_bytes rq)]\<rparr>)
      else bindR (one_request C V rq first_req s) (one_requests C V rqs False))"

text \<open>
  The whole function; \<open>junk\<close> is what the uninitialised local \<open>cur_rdma_req\<close> holds.
\<close>

definition rmem_request_one :: "conf \<Rightarrow> verbs \<Rightarrow> rdma_request \<Rightarrow> nat list \<Rightarrow> rmem_device \<Rightarrow> request list \<Rightarrow>
    io_event list \<Rightarrow> (rmem_device \<times> io_event list) result" where
  "rmem_request_one C V junk sched dev rqs tr =
     bindR (one_requests C V rqs True
              \<lparr>os_dev = dev, os_cur = junk, os_has = False, os_tr = tr, os_sched = sched\<rparr>) (\<lambda>s.
     Inr (os_dev s, os_tr s))"

section \<open>Batch requests in flight\<close>

text \<open>
  A group: batch request, block request, work requests in flight, work requests
  announced but not posted, and whether all have been sent.
\<close>

type_synonym ogroup = "ptr \<times> ptr \<times> nat \<times> nat \<times> bool"

definition one_is :: "(ptr \<rightharpoonup> batch_request) \<Rightarrow> ogroup \<Rightarrow> bool" where
  "one_is hp = (\<lambda>(b, r, n, e, sent). \<exists>x. hp b = Some x \<and> br_req x = r \<and> br_next x = NULL \<and>
     br_outstanding_reqs x - br_comp_reqs x = int (n + e) \<and> br_all_request_sent x = sent)"

definition one_ids :: "ogroup list \<Rightarrow> ptr list" where
  "one_ids gs = concat (map (\<lambda>(b, r, n, e, sent). replicate n b) gs)"

abbreviation rq_of :: "ogroup \<Rightarrow> ptr" where
  "rq_of g \<equiv> fst (snd g)"

definition finished :: "ogroup \<Rightarrow> bool" where
  "finished = (\<lambda>(b, r, n, e, sent). 0 < n \<and> e = 0 \<and> sent)"

definition live :: "ogroup \<Rightarrow> bool" where
  "live = (\<lambda>(b, r, n, e, sent). sent \<longrightarrow> 0 < n + e)"

definition one_pool :: "nat \<Rightarrow> batch_request_pool \<Rightarrow> ogroup list \<Rightarrow> bool" where
  "one_pool cap p gs \<longleftrightarrow> pool_inv p \<and> pool_cap p = cap \<and> distinct (pool_items p @ map fst gs) \<and>
     length (pool_items p) + length gs = cap \<and> set (pool_items p) \<subseteq> dom (pool_heap p) \<and>
     NULL \<notin> fst ` set gs \<and> (\<forall>g \<in> set gs. one_is (pool_heap p) g) \<and>
     (\<forall>g \<in> set (butlast gs). finished g) \<and> (\<forall>g \<in> set gs. live g)"

definition one_conf :: "conf \<Rightarrow> bool" where
  "one_conf C \<longleftrightarrow> MODE C = MODE_ONE \<and> \<not> MEASURE_LATENCY C \<and> \<not> DEBUG_OUT_REQ C"

definition one_rel :: "conf \<Rightarrow> verbs \<Rightarrow> nat \<Rightarrow> rmem_device \<Rightarrow> io_event list \<Rightarrow> ogroup list \<Rightarrow> bool" where
  "one_rel C V cap d tr gs \<longleftrightarrow> one_conf C \<and> accepting V \<and>
     (\<exists>p. ctx_pool (dev_ctx d) = Some p \<and> one_pool cap p gs) \<and> ctx_mr (dev_ctx d) \<noteq> None \<and>
     one_ids gs = in_flight_ids tr \<and> done_count tr \<le> length (wr_ids tr)"

section \<open>The handler\<close>

lemma one_is_upd [simp]: "fst g \<noteq> b \<Longrightarrow> one_is (hp(b \<mapsto> x)) g = one_is hp g"
  by (auto simp: one_is_def split: prod.splits)

lemma one_ids_simps [simp]:
  "one_ids [] = []" "one_ids ((b, r, n, e, s) # gs) = replicate n b @ one_ids gs"
  "one_ids (gs @ hs) = one_ids gs @ one_ids hs"
  by (simp_all add: one_ids_def)

lemma ended_simps [simp]: "ended [] = []" "ended (End_Request_All r err # tr) = r # ended tr"
  by (simp_all add: ended_def)

text \<open>A write to the batch request of one group.\<close>

lemma one_pool_write:
  assumes pool: "one_pool cap p (gs @ (b, r, n, e, s) # hs)"
    and f: "\<And>x. br_req x = r \<Longrightarrow> br_next x = NULL \<Longrightarrow> br_outstanding_reqs x - br_comp_reqs x = int (n + e) \<Longrightarrow>
      br_all_request_sent x = s \<Longrightarrow> br_req (f x) = r \<and> br_next (f x) = NULL \<and>
      br_outstanding_reqs (f x) - br_comp_reqs (f x) = int (n' + e') \<and> br_all_request_sent (f x) = s'"
    and ok: "hs \<noteq> [] \<Longrightarrow> finished (b, r, n', e', s')" "live (b, r, n', e', s')"
  shows "\<exists>x. pool_heap p b = Some x \<and>
    one_pool cap (p\<lparr>pool_heap := (pool_heap p)(b \<mapsto> f x)\<rparr>) (gs @ (b, r, n', e', s') # hs)"
proof -
  obtain x where x: "pool_heap p b = Some x" "br_req x = r" "br_next x = NULL"
      "br_outstanding_reqs x - br_comp_reqs x = int (n + e)" "br_all_request_sent x = s"
    using pool by (auto simp: one_pool_def one_is_def)
  let ?h = "(pool_heap p)(b \<mapsto> f x)"
  have ne: "fst g \<noteq> b" if "g \<in> set gs \<union> set hs" for g
    using pool that by (auto simp: one_pool_def)
  have "one_is ?h (b, r, n', e', s')"
    using f [OF x(2-5)] by (simp add: one_is_def)
  moreover have "one_is ?h g" if "g \<in> set gs \<union> set hs" for g
    using pool that ne [OF that] by (auto simp: one_pool_def simp del: fun_upd_apply)
  ultimately have "\<forall>g \<in> set (gs @ (b, r, n', e', s') # hs). one_is ?h g"
    by auto
  moreover have "\<forall>g \<in> set (butlast (gs @ (b, r, n', e', s') # hs)). finished g"
    using pool ok(1) by (cases "hs = []") (auto simp: one_pool_def butlast_append)
  moreover have "\<forall>g \<in> set (gs @ (b, r, n', e', s') # hs). live g"
    using pool ok(2) by (auto simp: one_pool_def)
  moreover have "set (pool_items p) \<subseteq> dom ?h"
    using pool by (auto simp: one_pool_def)
  ultimately have "one_pool cap (p\<lparr>pool_heap := ?h\<rparr>) (gs @ (b, r, n', e', s') # hs)"
    using pool unfolding one_pool_def by simp
  then show ?thesis
    using x(1) by blast
qed

lemma one_pool_return:
  assumes pool: "one_pool cap p ((b, r, g) # gs)" and C: "\<not> MEASURE_LATENCY C"
    and p': "p' = p\<lparr>pool_heap := (pool_heap p)(b \<mapsto> y)\<rparr>"
  shows "\<exists>q. return_batch_request C now khz p' b = Inr q \<and> pool_heap q = pool_heap p' \<and> one_pool cap q gs"
proof -
  have "length (pool_items p') < pool_cap p'" "b \<noteq> NULL" "pool_inv p'"
    using pool by (auto simp: one_pool_def p')
  then obtain q where q: "return_batch_request C now khz p' b = Inr q" "pool_inv q"
      "pool_items q = pool_items p @ [b]" "pool_cap q = pool_cap p" "pool_heap q = pool_heap p'"
    using return_batch_request_ok [of p' b C now khz] C by (auto simp: p')
  have ne: "fst g \<noteq> b" if "g \<in> set gs" for g
    using pool that by (auto simp: one_pool_def)
  then have is_p': "one_is (pool_heap p') g" if "g \<in> set gs" for g
    using pool that by (simp add: one_pool_def p' del: fun_upd_apply)
  have "\<forall>g \<in> set (butlast gs). finished g"
    using pool by (cases "gs = []") (auto simp: one_pool_def)
  moreover have "set (pool_items q) \<subseteq> dom (pool_heap q)"
    using pool q(3,5) by (auto simp: one_pool_def p')
  moreover have "distinct (pool_items q @ map fst gs)"
    using pool q(3) by (auto simp: one_pool_def)
  ultimately have "one_pool cap q gs"
    using pool q is_p' unfolding one_pool_def by simp
  then show ?thesis using q by blast
qed

definition inc_comp :: "batch_request \<Rightarrow> batch_request" where
  "inc_comp b = b\<lparr>br_comp_reqs := br_comp_reqs b + 1\<rparr>"

lemma comp_one_step:
  assumes rel: "one_rel C V cap d tr ((b, r, Suc n, e, s) # gs)" (is "one_rel _ _ _ _ _ (?g # gs)")
  shows "\<exists>d' tr'. comp_one C V (good_wc b) d tr = Inr (d', tr') \<and>
    one_rel C V cap d' tr' (if n + e = 0 \<and> s then gs else (b, r, n, e, s) # gs) \<and>
    ended tr' = ended tr @ (if n + e = 0 \<and> s then [r] else [])"
proof -
  obtain p where p: "ctx_pool (dev_ctx d) = Some p" "one_pool cap p (?g # gs)"
    using rel by (auto simp: one_rel_def)
  note pd = with_pool_same [OF p(1)]
  have C: "MODE C = MODE_ONE" "\<not> MEASURE_LATENCY C" "\<not> DEBUG_OUT_REQ C"
    using rel by (auto simp: one_rel_def one_conf_def)
  have ids: "replicate (Suc n) b @ one_ids gs = in_flight_ids tr"
    using rel by (simp add: one_rel_def)
  then have lt: "done_count tr < length (wr_ids tr)"
    by (intro not_le_imp_less notI) (simp add: in_flight_ids_def)
  have tl: "replicate n b @ one_ids gs = in_flight_ids (tr @ Polled [good_wc b] # ends es)" for es
    using arg_cong [OF ids, of tl] by (simp add: in_flight_ids_def drop_Suc tl_drop)
  obtain x where x: "pool_heap p b = Some x" "br_req x = r" "br_next x = NULL"
      "br_outstanding_reqs x - br_comp_reqs x = int (Suc n + e)" "br_all_request_sent x = s"
    using p(2) by (auto simp: one_pool_def one_is_def)
  let ?p = "p\<lparr>pool_heap := (pool_heap p)(b \<mapsto> inc_comp x)\<rparr>"
  have wr: "write_batch d b (\<lambda>b. b\<lparr>br_comp_reqs := br_comp_reqs b + 1\<rparr>) = Inr (with_pool d ?p)"
    using write_batch_with [OF x(1), of d] pd by (simp add: inc_comp_def)
  have eq: "br_outstanding_reqs (inc_comp x) = br_comp_reqs (inc_comp x) \<and> br_all_request_sent (inc_comp x) \<longleftrightarrow>
      n + e = 0 \<and> s"
    using x(4,5) by (auto simp: inc_comp_def)
  have step: "comp_one C V (good_wc b) d tr =
      (if n + e = 0 \<and> s then end_batches C V (nat (pool_size p)) b (with_pool d ?p) (tr @ [Polled [good_wc b]])
       else Inr (with_pool d ?p, tr @ [Polled [good_wc b]]))"
    using C(1) eq by (simp add: comp_one_def good_wc_def wr Let_def)
  have rel': "one_rel C V cap (with_pool d q) (tr @ Polled [good_wc b] # ends es) hs"
    if "one_pool cap q hs" "one_ids hs = replicate n b @ one_ids gs" for q hs es
    using rel that tl [of es] lt by (simp add: one_rel_def with_pool_def)
  show ?thesis
  proof (cases "n + e = 0 \<and> s")
    case True
    obtain q where q: "return_batch_request C (rdtsc V (tr @ [Polled [good_wc b]] @ [End_Request_All r 0])) (cpu_khz V) ?p b =
        Inr q" "pool_heap q = pool_heap ?p" "one_pool cap q gs"
      using one_pool_return [OF p(2) C(2) refl] by blast
    have "0 < nat (pool_size p)"
      using p(2) by (auto simp: one_pool_def pool_inv_def pool_cap_def)
    then obtain f where f: "nat (pool_size p) = Suc f"
      by (cases "nat (pool_size p)") auto
    have null: "end_batches C V f NULL D T = Inr (D, T)" for D T
      by (cases f) simp_all
    have "b \<noteq> NULL"
      using p(2) by (auto simp: one_pool_def)
    then have "comp_one C V (good_wc b) d tr =
        Inr (with_pool d q, tr @ Polled [good_wc b] # ends [r])"
      using step True f x C q(1,2) null by (simp add: inc_comp_def Let_def)
    then show ?thesis
      using rel' [OF q(3), of "[r]"] True by simp
  next
    case False
    have "finished ?g" if "gs \<noteq> []"
      using p(2) that by (simp add: one_pool_def)
    then have "gs \<noteq> [] \<Longrightarrow> finished (b, r, n, e, s)" "live (b, r, n, e, s)"
      using False by (auto simp: finished_def live_def)
    then have "one_pool cap ?p ((b, r, n, e, s) # gs)"
      using one_pool_write [of cap p "[]" b r "Suc n" e s gs inc_comp n e s] p(2) x(1)
      by (simp add: inc_comp_def)
    from rel' [OF this, of "[]"] show ?thesis
      unfolding step if_not_P [OF False] by simp
  qed
qed

text \<open>
  The handler at any point: it takes completions from the front, ends the groups
  that are finished, and never ends a group with unposted or unsent work.
\<close>

definition unsent :: "nat \<Rightarrow> bool \<Rightarrow> bool" where
  "unsent e sent \<longleftrightarrow> 0 < e \<or> \<not> sent"

definition closed :: "ogroup \<Rightarrow> bool" where
  "closed = (\<lambda>(b, r, n, e, sent). e = 0 \<and> sent)"

definition follows :: "io_event list \<Rightarrow> ogroup list \<Rightarrow> io_event list \<Rightarrow> ogroup list \<Rightarrow> bool" where
  "follows tr gs tr' gs' \<longleftrightarrow> ended tr' @ map rq_of gs' = ended tr @ map rq_of gs \<and> length gs' \<le> length gs \<and>
     (\<forall>hs b r n e sent. gs = hs @ [(b, r, n, e, sent)] \<and> unsent e sent \<longrightarrow>
        (\<exists>hs' n'. gs' = hs' @ [(b, r, n', e, sent)])) \<and>
     ((\<forall>g \<in> set gs. closed g) \<longrightarrow> (\<forall>g \<in> set gs'. closed g))"

lemma follows_refl [simp]: "follows tr gs tr gs"
  by (simp add: follows_def)

lemma follows_trans: "follows tr gs tr1 gs1 \<Longrightarrow> follows tr1 gs1 tr2 gs2 \<Longrightarrow> follows tr gs tr2 gs2"
  by (auto simp: follows_def)

lemma one_rel_head:
  assumes "one_rel C V cap d tr gs" and "in_flight_ids tr \<noteq> []"
  obtains b r n e sent hs where "gs = (b, r, Suc n, e, sent) # hs" "hd (in_flight_ids tr) = b"
proof -
  have ids: "one_ids gs = in_flight_ids tr"
    using assms(1) by (simp add: one_rel_def)
  then obtain b r n e sent hs where gs: "gs = (b, r, n, e, sent) # hs"
    using assms(2) by (cases gs) auto
  have "n \<noteq> 0"
  proof
    assume "n = 0"
    then have "hs = []"
      using assms(1) gs by (auto simp: one_rel_def one_pool_def finished_def split: if_splits)
    then show False
      using ids assms(2) gs \<open>n = 0\<close> by simp
  qed
  then obtain m where "n = Suc m"
    using not0_implies_Suc by blast
  then show thesis
    using that gs ids by (metis append_Cons list.sel(1) one_ids_simps(2) replicate_Suc)
qed

lemma comp_one_follows:
  assumes "one_rel C V cap d tr gs" and "in_flight_ids tr \<noteq> []"
  shows "\<exists>d' tr' gs'. comp_one C V (good_wc (hd (in_flight_ids tr))) d tr = Inr (d', tr') \<and>
    one_rel C V cap d' tr' gs' \<and> follows tr gs tr' gs' \<and> in_flight_ids tr' = tl (in_flight_ids tr)"
proof -
  obtain b r n e sent hs where gs: "gs = (b, r, Suc n, e, sent) # hs" and b: "hd (in_flight_ids tr) = b"
    by (rule one_rel_head [OF assms])
  let ?gs = "if n + e = 0 \<and> sent then hs else (b, r, n, e, sent) # hs"
  obtain d' tr' where st: "comp_one C V (good_wc b) d tr = Inr (d', tr')" "one_rel C V cap d' tr' ?gs"
      "ended tr' = ended tr @ (if n + e = 0 \<and> sent then [r] else [])"
    using comp_one_step assms(1) unfolding gs by blast
  have "follows tr gs tr' ?gs"
    using st(3) gs by (auto simp: follows_def unsent_def closed_def Cons_eq_append_conv)
  moreover have "one_ids ?gs = tl (one_ids gs)"
    by (simp add: gs)
  then have "in_flight_ids tr' = tl (in_flight_ids tr)"
    using st(2) assms(1) by (simp add: one_rel_def)
  ultimately show ?thesis
    using st b by blast
qed

lemma comp_each_follows:
  assumes "one_rel C V cap d tr gs"
  shows "\<exists>d' tr' gs'. comp_each C V (map good_wc (take k (in_flight_ids tr))) d tr = Inr (d', tr') \<and>
    one_rel C V cap d' tr' gs' \<and> follows tr gs tr' gs' \<and> in_flight_ids tr' = drop k (in_flight_ids tr)"
  using assms
proof (induction k arbitrary: d tr gs)
  case 0
  then show ?case by auto
next
  case (Suc k)
  show ?case
  proof (cases "in_flight_ids tr = []")
    case True
    then show ?thesis using Suc.prems by auto
  next
    case False
    obtain d1 tr1 gs1 where one: "comp_one C V (good_wc (hd (in_flight_ids tr))) d tr = Inr (d1, tr1)"
        "one_rel C V cap d1 tr1 gs1" "follows tr gs tr1 gs1" "in_flight_ids tr1 = tl (in_flight_ids tr)"
      using comp_one_follows [OF Suc.prems False] by blast
    obtain d2 tr2 gs2 where rest: "comp_each C V (map good_wc (take k (in_flight_ids tr1))) d1 tr1 = Inr (d2, tr2)"
        "one_rel C V cap d2 tr2 gs2" "follows tr1 gs1 tr2 gs2" "in_flight_ids tr2 = drop k (in_flight_ids tr1)"
      using Suc.IH [OF one(2)] by blast
    have "take (Suc k) (in_flight_ids tr) = hd (in_flight_ids tr) # take k (tl (in_flight_ids tr))"
      using False by (cases "in_flight_ids tr") auto
    then show ?thesis
      using one rest follows_trans [OF one(3) rest(3)] by (auto simp: drop_Suc)
  qed
qed

lemma intr_ok:
  assumes "one_rel C V cap (os_dev s) (os_tr s) gs"
  shows "\<exists>s' gs'. intr C V s = Inr s' \<and> one_rel C V cap (os_dev s') (os_tr s') gs' \<and>
    follows (os_tr s) gs (os_tr s') gs' \<and> os_cur s' = os_cur s \<and> os_has s' = os_has s"
proof (cases "os_sched s")
  case Nil
  then show ?thesis using assms by (auto simp: intr_def)
next
  case (Cons k ks)
  have "MODE C \<noteq> MODE_SYNC"
    using assms by (auto simp: one_rel_def one_conf_def)
  then show ?thesis
    using comp_each_follows [OF assms, of k] Cons by (auto simp: intr_def)
qed

section \<open>The request function\<close>

text \<open>A state in which the groups \<open>hs\<close> and then the one under construction are live.\<close>

definition one_now :: "conf \<Rightarrow> verbs \<Rightarrow> nat \<Rightarrow> one_state \<Rightarrow> ogroup list \<Rightarrow> bool" where
  "one_now C V cap s gs \<longleftrightarrow> one_rel C V cap (os_dev s) (os_tr s) gs"

definition same_locals :: "one_state \<Rightarrow> one_state \<Rightarrow> bool" where
  "same_locals s s' \<longleftrightarrow> os_cur s' = os_cur s \<and> os_has s' = os_has s"

abbreviation tally :: "one_state \<Rightarrow> ogroup list \<Rightarrow> ptr list" where
  "tally s hs \<equiv> ended (os_tr s) @ map rq_of hs"

definition kept :: "one_state \<Rightarrow> ogroup list \<Rightarrow> one_state \<Rightarrow> ogroup list \<Rightarrow> bool" where
  "kept s hs s' hs' \<longleftrightarrow> tally s' hs' = tally s hs \<and> length hs' \<le> length hs"

lemma kept_refl [simp]: "kept s hs s hs"
  by (simp add: kept_def)

lemma kept_trans: "kept s hs s1 hs1 \<Longrightarrow> kept s1 hs1 s2 hs2 \<Longrightarrow> kept s hs s2 hs2"
  by (simp add: kept_def)

lemma one_write_ok:
  assumes now: "one_now C V cap s (hs @ [(b, r, n, e, sent)])"
    and f: "\<And>x. br_req x = r \<Longrightarrow> br_next x = NULL \<Longrightarrow> br_outstanding_reqs x - br_comp_reqs x = int (n + e) \<Longrightarrow>
      br_all_request_sent x = sent \<Longrightarrow> br_req (f x) = r \<and> br_next (f x) = NULL \<and>
      br_outstanding_reqs (f x) - br_comp_reqs (f x) = int (n + e') \<and> br_all_request_sent (f x) = sent'"
    and un: "unsent e' sent'"
  shows "\<exists>s' hs' n'. one_write C V b f s = Inr s' \<and> one_now C V cap s' (hs' @ [(b, r, n', e', sent')]) \<and>
    kept s hs s' hs' \<and> same_locals s s'"
proof -
  obtain p where p: "ctx_pool (dev_ctx (os_dev s)) = Some p" "one_pool cap p (hs @ [(b, r, n, e, sent)])"
    using now by (auto simp: one_now_def one_rel_def)
  have live: "live (b, r, n, e', sent')"
    using un by (auto simp: live_def unsent_def)
  have "\<exists>x. pool_heap p b = Some x \<and>
      one_pool cap (p\<lparr>pool_heap := (pool_heap p)(b \<mapsto> f x)\<rparr>) (hs @ [(b, r, n, e', sent')])"
  proof (rule one_pool_write [OF p(2)])
    show "br_req (f x) = r \<and> br_next (f x) = NULL \<and> br_outstanding_reqs (f x) - br_comp_reqs (f x) = int (n + e') \<and>
        br_all_request_sent (f x) = sent'"
      if "br_req x = r" "br_next x = NULL" "br_outstanding_reqs x - br_comp_reqs x = int (n + e)"
        "br_all_request_sent x = sent" for x
      using that by (rule f)
  qed (use live in simp_all)
  then obtain x where x: "pool_heap p b = Some x"
      "one_pool cap (p\<lparr>pool_heap := (pool_heap p)(b \<mapsto> f x)\<rparr>) (hs @ [(b, r, n, e', sent')])"
    by blast
  let ?d = "with_pool (os_dev s) (p\<lparr>pool_heap := (pool_heap p)(b \<mapsto> f x)\<rparr>)"
  have wr: "write_batch (os_dev s) b f = Inr ?d"
    using write_batch_with [OF x(1), of "os_dev s" f] with_pool_same [OF p(1)] by simp
  have "one_rel C V cap (os_dev (s\<lparr>os_dev := ?d\<rparr>)) (os_tr (s\<lparr>os_dev := ?d\<rparr>)) (hs @ [(b, r, n, e', sent')])"
    using now x(2) by (simp add: one_now_def one_rel_def with_pool_def)
  from intr_ok [OF this] obtain s' gs' where s': "intr C V (s\<lparr>os_dev := ?d\<rparr>) = Inr s'"
      "one_rel C V cap (os_dev s') (os_tr s') gs'" "follows (os_tr s) (hs @ [(b, r, n, e', sent')]) (os_tr s') gs'"
      "os_cur s' = os_cur s" "os_has s' = os_has s"
    by auto
  then obtain hs' n' where g: "gs' = hs' @ [(b, r, n', e', sent')]"
    using un unfolding follows_def by blast
  have "kept s hs s' hs'"
    using s'(3) by (simp add: follows_def kept_def g)
  moreover have "one_write C V b f s = Inr s'"
    using s'(1) wr by (simp add: one_write_def)
  ultimately show ?thesis
    using s'(2,4,5) unfolding g one_now_def same_locals_def by blast
qed

lemma wr_ids_post [simp]: "wr_ids [Post [q] rc] = [p_wr_id q]" "done_count [Post [q] rc] = 0" "ended [Post [q] rc] = []"
  by (simp_all add: wr_ids_def done_count_def ended_def)

lemma one_post_ok:
  assumes now: "one_now C V cap s (hs @ [(b, r, n, Suc e, sent)])" and v: "valid_op (os_cur s)"
    and b: "rr_batch_req (os_cur s) = b"
  shows "\<exists>s' gs'. one_post C V s = Inr s' \<and> one_now C V cap s' gs' \<and> same_locals s s' \<and>
    tally s' gs' = tally s hs @ [r] \<and> length gs' \<le> Suc (length hs) \<and>
    (unsent e sent \<longrightarrow> (\<exists>hs' n'. gs' = hs' @ [(b, r, n', e, sent)])) \<and>
    (e = 0 \<and> sent \<longrightarrow> (\<forall>g \<in> set gs'. closed g))"
proof -
  let ?c = "dev_ctx (os_dev s)" and ?cur = "os_cur s"
  have C: "MODE C = MODE_ONE" and V: "accepting V"
    using now by (auto simp: one_now_def one_rel_def one_conf_def)
  obtain mr where mr: "ctx_mr (?c\<lparr>outstanding_requests := 1\<rparr>) = Some mr"
    using now by (auto simp: one_now_def one_rel_def)
  let ?p = "posted_of C (?c\<lparr>outstanding_requests := 1\<rparr>) (mr_lkey mr) ?cur"
  have "send_each C V (?c\<lparr>outstanding_requests := 1\<rparr>) [?cur] 0 1 (os_tr s) = Inr (True, os_tr s @ [Post [?p] 0])"
    using send_each_ok [OF mr V, of 1 0 "[?cur]" C "os_tr s"] v by simp
  then have op: "rdma_op C V [] ?c (os_tr s) [?cur] 1 = Inr (0, ?c\<lparr>outstanding_requests := 1\<rparr>, os_tr s @ [Post [?p] 0], [])"
    using C by (simp add: rdma_op_def Let_def)
  let ?s = "s\<lparr>os_dev := (os_dev s)\<lparr>dev_ctx := ?c\<lparr>outstanding_requests := 1\<rparr>\<rparr>, os_tr := os_tr s @ [Post [?p] 0]\<rparr>"
  have id: "p_wr_id ?p = b"
    using C b by (simp add: posted_of_def wr_id_of_def)
  have pool: "one_pool cap p (hs @ [(b, r, Suc n, e, sent)])" if "one_pool cap p (hs @ [(b, r, n, Suc e, sent)])" for p
    using that by (auto simp: one_pool_def one_is_def live_def butlast_append)
  have "one_rel C V cap (os_dev ?s) (os_tr ?s) (hs @ [(b, r, Suc n, e, sent)])"
    using now pool id by (auto simp: one_now_def one_rel_def in_flight_ids_def replicate_append_same [symmetric]
        simp del: replicate_append_same)
  from intr_ok [OF this] obtain s' gs' where s': "intr C V ?s = Inr s'" "one_rel C V cap (os_dev s') (os_tr s') gs'"
      "follows (os_tr ?s) (hs @ [(b, r, Suc n, e, sent)]) (os_tr s') gs'" "os_cur s' = ?cur" "os_has s' = os_has s"
    by auto
  have "tally s' gs' = tally s hs @ [r] \<and> length gs' \<le> Suc (length hs)"
    using s'(3) by (simp add: follows_def)
  moreover have "unsent e sent \<longrightarrow> (\<exists>hs' n'. gs' = hs' @ [(b, r, n', e, sent)])"
    using s'(3) by (auto simp: follows_def)
  moreover have "\<forall>g \<in> set hs. closed g"
    using now by (auto simp: one_now_def one_rel_def one_pool_def butlast_append finished_def closed_def)
  then have "e = 0 \<and> sent \<longrightarrow> (\<forall>g \<in> set gs'. closed g)"
    using s'(3) by (auto simp: follows_def closed_def)
  ultimately show ?thesis
    using s' op by (intro exI [of _ s'] exI [of _ gs']) (simp add: one_post_def one_now_def same_locals_def)
qed

text \<open>
  Between two segments of a request: one work request is announced and not yet
  posted, and it is the current one, or nothing has been announced.
\<close>

definition one_mid :: "conf \<Rightarrow> verbs \<Rightarrow> nat \<Rightarrow> one_state \<Rightarrow> ogroup list \<Rightarrow> ptr \<Rightarrow> ptr \<Rightarrow> bool" where
  "one_mid C V cap s hs b r \<longleftrightarrow>
     (\<exists>n. one_now C V cap s (hs @ [(b, r, n, if os_has s then 1 else 0, False)])) \<and>
     (os_has s \<longrightarrow> valid_op (os_cur s) \<and> rr_batch_req (os_cur s) = b)"

lemma seg_request_ok [simp]:
  "valid_op (seg_request V b w sector seg n)" "rr_batch_req (seg_request V b w sector seg n) = b"
  by (simp_all add: seg_request_def valid_op_def bio_op_def)

lemma one_segment_ok:
  assumes "one_mid C V cap s hs b r"
  shows "\<exists>s' hs'. one_segment C V b w sector seg s = Inr s' \<and> one_mid C V cap s' hs' b r \<and> os_has s' \<and>
    kept s hs s' hs'"
proof -
  let ?f = "\<lambda>b. b\<lparr>br_outstanding_reqs := br_outstanding_reqs b + 1\<rparr>"
  show ?thesis
  proof (cases "os_has s")
    case has: True
    let ?t = "seg_request V b w sector seg (rr_length (os_cur s))"
    obtain n where n: "one_now C V cap s (hs @ [(b, r, n, 1, False)])" and cur: "valid_op (os_cur s)"
        "rr_batch_req (os_cur s) = b"
      using assms has by (auto simp: one_mid_def)
    show ?thesis
    proof (cases "mergeable (os_cur s) ?t")
      case True
      then show ?thesis
        using has n cur by (auto simp: one_segment_def Let_def one_mid_def one_now_def valid_op_def kept_def)
    next
      case False
      obtain s1 hs1 n1 where s1: "one_write C V b ?f s = Inr s1" "one_now C V cap s1 (hs1 @ [(b, r, n1, 2, False)])"
          "kept s hs s1 hs1" "same_locals s s1"
        using one_write_ok [OF n, of ?f 2 False] by (auto simp: unsent_def)
      then have "one_now C V cap s1 (hs1 @ [(b, r, n1, Suc 1, False)])" "valid_op (os_cur s1)" "rr_batch_req (os_cur s1) = b"
        using cur by (auto simp: same_locals_def numeral_2_eq_2)
      from one_post_ok [OF this] obtain s2 gs2 where s2: "one_post C V s1 = Inr s2" "one_now C V cap s2 gs2"
          "same_locals s1 s2" "tally s2 gs2 = tally s1 hs1 @ [r]" "length gs2 \<le> Suc (length hs1)"
          "\<exists>hs' n'. gs2 = hs' @ [(b, r, n', 1, False)]"
        by (auto simp: unsent_def)
      then obtain hs2 n2 where g: "gs2 = hs2 @ [(b, r, n2, 1, False)]" by blast
      let ?s = "s2\<lparr>os_cur := ?t\<rparr>"
      have "os_has s2"
        using s1(4) s2(3) has by (simp add: same_locals_def)
      moreover have "kept s hs s2 hs2"
        using s2(4,5) g s1(3) by (simp add: kept_def)
      moreover have "one_now C V cap ?s (hs2 @ [(b, r, n2, 1, False)])"
        using s2(2) g by (simp add: one_now_def)
      ultimately show ?thesis
        using has False s1(1) s2(1)
        by (intro exI [of _ ?s] exI [of _ hs2]) (auto simp: one_segment_def Let_def one_mid_def kept_def)
    qed
  next
    case False
    let ?s = "s\<lparr>os_cur := seg_request V b w sector seg (drop_bit 9 (seg_bytes seg) * 512), os_has := True\<rparr>"
    obtain n where "one_now C V cap ?s (hs @ [(b, r, n, 0, False)])"
      using assms False by (auto simp: one_mid_def one_now_def)
    from one_write_ok [OF this, of ?f 1 False] obtain s1 hs1 n1 where s1: "one_write C V b ?f ?s = Inr s1"
        "one_now C V cap s1 (hs1 @ [(b, r, n1, 1, False)])" "kept s hs s1 hs1" "same_locals ?s s1"
      by (auto simp: unsent_def kept_def)
    then show ?thesis
      using False by (intro exI [of _ s1] exI [of _ hs1]) (auto simp: one_segment_def Let_def one_mid_def same_locals_def kept_def)
  qed
qed

lemma one_segs_ok:
  assumes "one_mid C V cap s hs b r"
  shows "\<exists>s' hs'. one_segs C V b w sector segs s = Inr s' \<and> one_mid C V cap s' hs' b r \<and>
    (os_has s' \<longleftrightarrow> os_has s \<or> segs \<noteq> []) \<and> kept s hs s' hs'"
  using assms
proof (induction segs arbitrary: s hs sector)
  case (Cons seg segs)
  obtain s1 hs1 where "one_segment C V b w sector seg s = Inr s1" "one_mid C V cap s1 hs1 b r" "os_has s1"
      "kept s hs s1 hs1"
    using one_segment_ok [OF Cons.prems] by blast
  then show ?case
    using Cons.IH [of s1 hs1] kept_trans by fastforce
qed auto

lemma one_bios_ok:
  assumes "one_mid C V cap s hs b r"
  shows "\<exists>s' hs'. one_bios C V b bs s = Inr s' \<and> one_mid C V cap s' hs' b r \<and>
    (os_has s' \<longleftrightarrow> os_has s \<or> (\<exists>bio \<in> set bs. bi_segs bio \<noteq> [])) \<and> kept s hs s' hs'"
  using assms
proof (induction bs arbitrary: s hs)
  case (Cons bio bs)
  obtain s1 hs1 where s1: "one_segs C V b (bi_write bio) (bi_sector bio) (bi_segs bio) s = Inr s1"
      "one_mid C V cap s1 hs1 b r" "os_has s1 \<longleftrightarrow> os_has s \<or> bi_segs bio \<noteq> []" "kept s hs s1 hs1"
    using one_segs_ok [OF Cons.prems] by blast
  let ?f = "\<lambda>x. x\<lparr>br_nsec := br_nsec x + int (unat (bi_size bio div 512))\<rparr>"
  let ?e = "if os_has s1 then 1 else 0"
  obtain n where "one_now C V cap s1 (hs1 @ [(b, r, n, ?e, False)])"
    using s1(2) by (auto simp: one_mid_def)
  from one_write_ok [OF this, of ?f ?e False] obtain s2 hs2 n2 where s2: "one_write C V b ?f s1 = Inr s2"
      "one_now C V cap s2 (hs2 @ [(b, r, n2, ?e, False)])" "kept s1 hs1 s2 hs2" "same_locals s1 s2"
    by (auto simp: unsent_def)
  then have "one_mid C V cap s2 hs2 b r"
    using s1(2) by (auto simp: one_mid_def same_locals_def)
  from Cons.IH [OF this] obtain s3 hs3 where "one_bios C V b bs s2 = Inr s3" "one_mid C V cap s3 hs3 b r"
      "os_has s3 \<longleftrightarrow> os_has s2 \<or> (\<exists>bio \<in> set bs. bi_segs bio \<noteq> [])" "kept s2 hs2 s3 hs3"
    by blast
  then show ?case
    using s1 s2 by (intro exI [of _ s3] exI [of _ hs3]) (auto simp: same_locals_def intro: kept_trans)
qed auto

lemma one_start_ok:
  assumes now: "one_now C V cap s gs" and closed: "\<forall>g \<in> set gs. closed g" and len: "Suc (length gs) < cap"
    and has: "\<not> os_has s"
  shows "\<exists>b s' hs'. one_start C V rq first s = Inr (b, s') \<and> one_mid C V cap s' hs' b (rq_at rq) \<and>
    \<not> os_has s' \<and> kept s gs s' hs'"
proof -
  obtain p where p: "ctx_pool (dev_ctx (os_dev s)) = Some p" "one_pool cap p gs"
    using now by (auto simp: one_now_def one_rel_def)
  have C: "\<not> MEASURE_LATENCY C" "\<not> DEBUG_OUT_REQ C"
    using now by (auto simp: one_now_def one_rel_def one_conf_def)
  have inv: "pool_inv p" and one: "1 < length (pool_items p)"
    using p(2) len by (simp_all add: one_pool_def)
  then obtain b q where items: "pool_items p = b # q"
    by (cases "pool_items p") auto
  obtain p1 where p1: "get_batch_request C (rdtsc V (os_tr s)) p = Inr (b, p1)" "pool_inv p1"
      "pool_items p1 = q" "pool_cap p1 = pool_cap p" "pool_heap p1 = pool_heap p"
    using get_batch_request_keeps [OF inv one C(1), of "rdtsc V (os_tr s)"] items by auto
  have b: "b \<noteq> NULL" "b \<notin> fst ` set gs" "distinct (q @ map fst (gs @ [(b, rq_at rq, 0, 0, False)]))"
    using pool_items_nonnull [OF inv] p(2) items by (auto simp: one_pool_def)
  obtain x where x: "pool_heap p b = Some x"
    using p(2) items by (auto simp: one_pool_def)
  define y where "y = x\<lparr>br_req := rq_at rq, br_outstanding_reqs := 0, br_comp_reqs := 0, br_next := NULL,
    br_nsec := 0, br_all_request_sent := False\<rparr>"
  let ?p = "p1\<lparr>pool_heap := (pool_heap p1)(b \<mapsto> y)\<rparr>" and ?new = "(b, rq_at rq, 0, 0, False)"
  have "one_is ((pool_heap p)(b \<mapsto> y)) g" if "g \<in> set gs" for g
  proof -
    have "fst g \<noteq> b"
      using that b(2) by auto
    then show ?thesis
      using p(2) that by (simp add: one_pool_def del: fun_upd_apply)
  qed
  moreover have "one_is ((pool_heap p)(b \<mapsto> y)) ?new"
    by (simp add: one_is_def y_def)
  moreover have "\<forall>g \<in> set gs. finished g \<and> live g"
    using p(2) closed by (fastforce simp: one_pool_def closed_def live_def finished_def)
  moreover have "live ?new" "set q \<subseteq> dom ((pool_heap p)(b \<mapsto> y))"
    using p(2) items by (auto simp: one_pool_def live_def)
  ultimately have pool: "one_pool cap ?p (gs @ [?new])"
    using p(2) p1 b items unfolding one_pool_def by (auto simp del: fun_upd_apply dom_fun_upd)
  let ?s = "s\<lparr>os_dev := with_pool (os_dev s) ?p\<rparr>"
  have "one_rel C V cap (os_dev ?s) (os_tr ?s) (gs @ [?new])"
    using now pool by (simp add: one_now_def one_rel_def with_pool_def)
  from intr_ok [OF this] obtain s' gs' where s': "intr C V ?s = Inr s'" "one_rel C V cap (os_dev s') (os_tr s') gs'"
      "follows (os_tr s) (gs @ [?new]) (os_tr s') gs'" "os_has s' = os_has s"
    by auto
  then obtain hs' n' where g: "gs' = hs' @ [(b, rq_at rq, n', 0, False)]"
    unfolding follows_def unsent_def by blast
  have "one_start C V rq first s = Inr (b, s')"
    using C p(1) p1(1,5) x s'(1) by (simp add: one_start_def dev_pool_def one_write_def Let_def y_def)
  moreover have "kept s gs s' hs'"
    using s'(3) by (simp add: follows_def kept_def g)
  ultimately show ?thesis
    using s'(2,4) has by (intro exI [of _ b] exI [of _ s'] exI [of _ hs']) (auto simp: one_mid_def one_now_def g)
qed

lemma one_request_ok:
  assumes now: "one_now C V cap s gs" and closed: "\<forall>g \<in> set gs. closed g" and len: "Suc (length gs) < cap"
    and has: "\<not> os_has s" and segs: "\<exists>bio \<in> set (rq_bios rq). bi_segs bio \<noteq> []"
  shows "\<exists>s' gs'. one_request C V rq first s = Inr s' \<and> one_now C V cap s' gs' \<and> (\<forall>g \<in> set gs'. closed g) \<and>
    \<not> os_has s' \<and> tally s' gs' = tally s gs @ [rq_at rq] \<and> length gs' \<le> Suc (length gs)"
proof -
  let ?r = "rq_at rq"
  obtain b s1 hs1 where s1: "one_start C V rq first s = Inr (b, s1)" "one_mid C V cap s1 hs1 b ?r" "\<not> os_has s1"
      "kept s gs s1 hs1"
    using one_start_ok [OF now closed len has] by blast
  obtain s2 hs2 where s2: "one_bios C V b (rq_bios rq) s1 = Inr s2" "one_mid C V cap s2 hs2 b ?r" "os_has s2"
      "kept s1 hs1 s2 hs2"
    using one_bios_ok [OF s1(2)] segs by blast
  obtain n where n: "one_now C V cap s2 (hs2 @ [(b, ?r, n, 1, False)])" "valid_op (os_cur s2)" "rr_batch_req (os_cur s2) = b"
    using s2(2,3) by (auto simp: one_mid_def)
  let ?f = "\<lambda>b. b\<lparr>br_all_request_sent := True\<rparr>"
  obtain s3 hs3 n3 where s3: "one_write C V b ?f s2 = Inr s3" "one_now C V cap s3 (hs3 @ [(b, ?r, n3, 1, True)])"
      "kept s2 hs2 s3 hs3" "same_locals s2 s3"
    using one_write_ok [OF n(1), of ?f 1 True] by (auto simp: unsent_def)
  then have "one_now C V cap s3 (hs3 @ [(b, ?r, n3, Suc 0, True)])" "valid_op (os_cur s3)" "rr_batch_req (os_cur s3) = b"
    using n by (auto simp: same_locals_def)
  from one_post_ok [OF this] obtain s4 gs4 where s4: "one_post C V s3 = Inr s4" "one_now C V cap s4 gs4"
      "tally s4 gs4 = tally s3 hs3 @ [?r]" "length gs4 \<le> Suc (length hs3)" "\<forall>g \<in> set gs4. closed g"
    by auto
  have "one_now C V cap (s4\<lparr>os_has := False\<rparr>) gs4"
    using s4(2) by (simp add: one_now_def)
  then show ?thesis
    using s1 s2 s3 s4 by (intro exI [of _ "s4\<lparr>os_has := False\<rparr>"] exI [of _ gs4]) 
      (simp add: one_request_def kept_def)
qed

lemma one_requests_ok:
  assumes "one_now C V cap s gs" and "\<forall>g \<in> set gs. closed g" and "length gs + length (filter rq_fs rqs) < cap"
    and "\<not> os_has s" and "\<forall>rq \<in> set rqs. rq_fs rq \<longrightarrow> (\<exists>bio \<in> set (rq_bios rq). bi_segs bio \<noteq> [])"
  shows "\<exists>s' gs'. one_requests C V rqs first s = Inr s' \<and> one_now C V cap s' gs' \<and> (\<forall>g \<in> set gs'. closed g) \<and>
    tally s' gs' = tally s gs @ map rq_at (filter rq_fs rqs)"
  using assms
proof (induction rqs arbitrary: s gs first)
  case (Cons rq rqs)
  show ?case
  proof (cases "rq_fs rq")
    case True
    have "Suc (length gs) < cap" "\<exists>bio \<in> set (rq_bios rq). bi_segs bio \<noteq> []"
      using Cons.prems(3,5) True by auto
    from one_request_ok [OF Cons.prems(1,2) this(1) Cons.prems(4) this(2)] obtain s1 gs1 where
        s1: "one_request C V rq first s = Inr s1" "one_now C V cap s1 gs1" "\<forall>g \<in> set gs1. closed g" "\<not> os_has s1"
        "tally s1 gs1 = tally s gs @ [rq_at rq]" "length gs1 \<le> Suc (length gs)"
      by blast
    have "length gs1 + length (filter rq_fs rqs) < cap"
      using s1(6) Cons.prems(3) True by simp
    from Cons.IH [OF s1(2,3) this s1(4), of False] Cons.prems(5) obtain s2 gs2 where
        "one_requests C V rqs False s1 = Inr s2" "one_now C V cap s2 gs2" "\<forall>g \<in> set gs2. closed g"
        "tally s2 gs2 = tally s1 gs1 @ map rq_at (filter rq_fs rqs)"
      by auto
    then show ?thesis
      using s1(1,5) True by (intro exI [of _ s2] exI [of _ gs2]) simp
  next
    case False
    let ?s = "s\<lparr>os_tr := os_tr s @ [End_Request (rq_at rq) (- EIO) (rq_cur_bytes rq)]\<rparr>"
    have e: "ended [End_Request a b c] = []" "wr_ids [End_Request a b c] = []" "done_count [End_Request a b c] = 0" for a b c
      by (simp_all add: ended_def wr_ids_def done_count_def)
    have "one_now C V cap ?s gs"
      using Cons.prems(1) by (simp add: one_now_def one_rel_def in_flight_ids_def e)
    from Cons.IH [OF this Cons.prems(2), of first] Cons.prems(3-5) False show ?thesis
      by (simp add: e)
  qed
qed auto

lemma all_closed_done:
  assumes "one_rel C V cap d tr gs" and "\<forall>g \<in> set gs. closed g" and "in_flight_ids tr = []"
  shows "gs = []"
proof (rule ccontr)
  assume "gs \<noteq> []"
  then obtain b r n e sent hs where gs: "gs = (b, r, n, e, sent) # hs"
    by (cases gs) auto
  have "live (b, r, n, e, sent)" "closed (b, r, n, e, sent)"
    using assms gs by (auto simp: one_rel_def one_pool_def)
  then have "0 < n"
    by (simp add: live_def closed_def)
  then show False
    using assms(1,3) gs by (cases n) (auto simp: one_rel_def)
qed

section \<open>Runs\<close>

text \<open>
  What a driver in this mode goes through: calls of the request function, each with a
  schedule of its own, that the pool has room for, and runs of the handler in between.
  \<open>sub\<close> collects the file system requests that were submitted.
\<close>

definition one_fits :: "nat \<Rightarrow> io_event list \<Rightarrow> ptr list \<Rightarrow> request list \<Rightarrow> bool" where
  "one_fits cap tr sub rqs \<longleftrightarrow> length sub - length (ended tr) + length (filter rq_fs rqs) < cap \<and>
     (\<forall>rq \<in> set rqs. rq_fs rq \<longrightarrow> (\<exists>bio \<in> set (rq_bios rq). bi_segs bio \<noteq> []))"

inductive one_reach :: "conf \<Rightarrow> verbs \<Rightarrow> nat \<Rightarrow> rmem_device \<Rightarrow> rmem_device \<Rightarrow> io_event list \<Rightarrow> ptr list \<Rightarrow> bool"
  for C V cap d0 where
  reach_start: "one_reach C V cap d0 d0 [] []"
| reach_call: "one_reach C V cap d0 d tr sub \<Longrightarrow> one_fits cap tr sub rqs \<Longrightarrow>
    rmem_request_one C V junk sched d rqs tr = Inr (d', tr') \<Longrightarrow>
    one_reach C V cap d0 d' tr' (sub @ map rq_at (filter rq_fs rqs))"
| reach_handle: "one_reach C V cap d0 d tr sub \<Longrightarrow>
    comp_handler_send C V [(map good_wc (take k (in_flight_ids tr)), 0)] d tr = Inr (d', tr') \<Longrightarrow>
    one_reach C V cap d0 d' tr' sub"

definition one_inv :: "conf \<Rightarrow> verbs \<Rightarrow> nat \<Rightarrow> rmem_device \<Rightarrow> io_event list \<Rightarrow> ptr list \<Rightarrow> bool" where
  "one_inv C V cap d tr sub \<longleftrightarrow> (\<exists>gs. one_rel C V cap d tr gs \<and> (\<forall>g \<in> set gs. closed g) \<and> ended tr @ map rq_of gs = sub)"

lemma one_inv_call:
  assumes "one_inv C V cap d tr sub" and "one_fits cap tr sub rqs"
  shows "\<exists>d' tr'. rmem_request_one C V junk sched d rqs tr = Inr (d', tr') \<and>
    one_inv C V cap d' tr' (sub @ map rq_at (filter rq_fs rqs))"
proof -
  let ?s = "\<lparr>os_dev = d, os_cur = junk, os_has = False, os_tr = tr, os_sched = sched\<rparr>"
  obtain gs where gs: "one_now C V cap ?s gs" "\<forall>g \<in> set gs. closed g" "ended tr @ map rq_of gs = sub"
    using assms(1) by (auto simp: one_inv_def one_now_def)
  have "length gs + length (filter rq_fs rqs) < cap"
    using assms(2) gs(3) by (auto simp: one_fits_def)
  from one_requests_ok [OF gs(1,2) this, of True] assms(2) obtain s' gs' where s': "one_requests C V rqs True ?s = Inr s'"
      "one_now C V cap s' gs'" "\<forall>g \<in> set gs'. closed g" "tally s' gs' = ended tr @ map rq_of gs @ map rq_at (filter rq_fs rqs)"
    by (auto simp: one_fits_def)
  then have "one_inv C V cap (os_dev s') (os_tr s') (sub @ map rq_at (filter rq_fs rqs))"
    unfolding one_inv_def one_now_def gs(3) [symmetric] by (intro exI [of _ gs']) simp
  then show ?thesis
    using s'(1) by (simp add: rmem_request_one_def)
qed

lemma one_inv_handle:
  assumes "one_inv C V cap d tr sub"
  shows "\<exists>d' tr'. comp_handler_send C V [(map good_wc (take k (in_flight_ids tr)), 0)] d tr = Inr (d', tr') \<and>
    one_inv C V cap d' tr' sub \<and> in_flight_ids tr' = drop k (in_flight_ids tr)"
proof -
  obtain gs where gs: "one_rel C V cap d tr gs" "\<forall>g \<in> set gs. closed g" "ended tr @ map rq_of gs = sub"
    using assms by (auto simp: one_inv_def)
  obtain d' tr' gs' where h: "comp_each C V (map good_wc (take k (in_flight_ids tr))) d tr = Inr (d', tr')"
      "one_rel C V cap d' tr' gs'" "follows tr gs tr' gs'" "in_flight_ids tr' = drop k (in_flight_ids tr)"
    using comp_each_follows [OF gs(1)] by blast
  have "MODE C \<noteq> MODE_SYNC"
    using gs(1) by (auto simp: one_rel_def one_conf_def)
  moreover have "one_inv C V cap d' tr' sub"
    using h(2,3) gs(2,3) by (auto simp: one_inv_def follows_def)
  ultimately show ?thesis
    using h by simp
qed

lemma one_inv_rest:
  assumes "one_inv C V cap d tr sub"
  shows "\<exists>rest. ended tr @ rest = sub \<and> (in_flight_ids tr = [] \<longrightarrow> rest = [])"
  using assms all_closed_done unfolding one_inv_def by (metis list.simps(8))

lemma one_reach_inv:
  assumes "one_reach C V cap d0 d tr sub" and "one_rel C V cap d0 [] []"
  shows "one_inv C V cap d tr sub"
  using assms
proof (induction rule: one_reach.induct)
  case reach_start
  then show ?case by (auto simp: one_inv_def)
next
  case (reach_call d tr sub rqs junk sched d' tr')
  then show ?case
    using one_inv_call [of C V cap d tr sub rqs junk sched] by auto
next
  case (reach_handle d tr sub k d' tr')
  then show ?case
    using one_inv_handle [of C V cap d tr sub k] by auto
qed

lemma ex_one_rel: "one_rel (ex_aconf\<lparr>MODE := MODE_ONE\<rparr>) ex_verbs 4 ex_adev [] []"
  using ex_pool_ok by (simp add: one_rel_def one_conf_def accepting_def ex_verbs_def ex_adev_def ex_ctx_def pool_ok_def
      one_pool_def in_flight_ids_def wr_ids_def done_count_def)

lemma ex_calls_segs: "\<forall>rq \<in> set ex_calls. rq_fs rq \<longrightarrow> (\<exists>bio \<in> set (rq_bios rq). bi_segs bio \<noteq> [])"
  by (simp add: ex_calls_def ex_queue_def)

section \<open>Properties\<close>



end
