(* ===== verification/One_Disk.thy ===== *)
theory One_Disk
  imports Request_One
begin

text \<open>
  What the one-by-one mode does to the disk. The work requests that \<open>rmem_request_one\<close>
  posts, whatever the completion handler does in between, are the segments of the
  queue with neighbours merged. The code maps the buffer of a further segment with the
  length of the current request instead of its own, so what the DMA interface promises
  covers the segment only when it is not longer than the current request.
\<close>

section \<open>The handler posts nothing\<close>

text \<open>The work requests posted, and where the remote memory begins.\<close>

definition posts_at :: "rmem_device \<times> io_event list \<Rightarrow> xfer list \<times> u64" where
  "posts_at = (\<lambda>(d, tr). (map xfer_of (concat (posts_of tr)), rem_vaddr (dev_ctx d)))"

lemma posts_at_with_pool [simp]: "posts_at (with_pool d p, tr) = posts_at (d, tr)"
  by (simp add: posts_at_def with_pool_def)

lemma posts_at_End [simp]: "posts_at (d, tr @ [End_Request_All r e]) = posts_at (d, tr)"
  by (simp add: posts_at_def posts_of_def)

lemma posts_at_Polled [simp]: "posts_at (d, tr @ [Polled ws]) = posts_at (d, tr)"
  by (simp add: posts_at_def posts_of_def)

lemma write_batch_posts: "write_batch d b f = Inr d' \<Longrightarrow> posts_at (d', tr) = posts_at (d, tr)"
  by (auto simp: write_batch_def bindR_eq_Inr)

lemma end_batches_posts: "end_batches C V fuel cur d tr = Inr r \<Longrightarrow> posts_at r = posts_at (d, tr)"
  by (induction fuel arbitrary: cur d tr) (auto simp: bindR_eq_Inr Let_def split: if_split_asm)

lemma comp_one_posts: "comp_one C V wc d tr = Inr r \<Longrightarrow> posts_at r = posts_at (d, tr)"
  unfolding comp_one_def Let_def bindR_eq_Inr
  by (auto simp: bindR_eq_Inr split: if_split_asm dest!: write_batch_posts [where tr = tr] end_batches_posts)

lemma comp_each_posts: "comp_each C V ws d tr = Inr r \<Longrightarrow> posts_at r = posts_at (d, tr)"
  by (induction ws arbitrary: d tr) (auto simp: bindR_eq_Inr dest!: comp_one_posts)

lemma intr_posts:
  assumes "intr C V s = Inr s'"
  shows "posts_at (os_dev s', os_tr s') = posts_at (os_dev s, os_tr s) \<and> same_locals s s'"
proof (cases "os_sched s")
  case (Cons k ks)
  with assms obtain d tr where "s' = s\<lparr>os_dev := d, os_tr := tr, os_sched := ks\<rparr>"
      "comp_handler_send C V [(map good_wc (take k (in_flight_ids (os_tr s))), 0)] (os_dev s) (os_tr s) = Inr (d, tr)"
    by (auto simp: intr_def bindR_eq_Inr)
  then show ?thesis
    by (auto simp: same_locals_def bindR_eq_Inr split: if_split_asm dest!: comp_each_posts)
qed (use assms in \<open>simp add: intr_def same_locals_def\<close>)

lemma one_write_posts:
  assumes "one_write C V b f s = Inr s'"
  shows "posts_at (os_dev s', os_tr s') = posts_at (os_dev s, os_tr s) \<and> same_locals s s'"
proof -
  from assms obtain d where d: "write_batch (os_dev s) b f = Inr d" "intr C V (s\<lparr>os_dev := d\<rparr>) = Inr s'"
    by (auto simp: one_write_def bindR_eq_Inr)
  show ?thesis
    using intr_posts [OF d(2)] write_batch_posts [OF d(1), of "os_tr s"] by (simp add: same_locals_def)
qed

lemma one_post_posts:
  assumes "one_post C V s = Inr s'" and "req_of x (os_cur s)" and "MODE C = MODE_ONE"
  shows "posts_at (os_dev s', os_tr s') =
      (fst (posts_at (os_dev s, os_tr s)) @ [rebase (rem_vaddr (dev_ctx (os_dev s))) x], rem_vaddr (dev_ctx (os_dev s))) \<and>
    same_locals s s'"
proof -
  let ?c = "(dev_ctx (os_dev s))\<lparr>outstanding_requests := 1\<rparr>" and ?r = "os_cur s"
  have v: "rr_rw ?r = RDMA_READ \<or> rr_rw ?r = RDMA_WRITE" and x: "unat (of_nat (x_bytes x) :: u32) = x_bytes x"
    using assms(2) by (auto simp: req_of_def valid_op_def unat_of_nat)
  from assms(1) obtain q where op: "rdma_op C V [] (dev_ctx (os_dev s)) (os_tr s) [?r] 1 = Inr q"
      and i: "intr C V (s\<lparr>os_dev := (os_dev s)\<lparr>dev_ctx := fst (snd q)\<rparr>, os_tr := fst (snd (snd q))\<rparr>) = Inr s'"
    by (auto simp: one_post_def bindR_eq_Inr)
  from op obtain mr where mr: "ctx_mr ?c = Some mr"
    using v assms(3) by (auto simp: rdma_op_def Let_def bindR_eq_Inr send_wr_def make_wr_def arr_get_def split: option.splits if_split_asm)
  have "fst (snd q) = ?c \<and> fst (snd (snd q)) = os_tr s @ [Post [posted_of C ?c (mr_lkey mr) ?r] 0]"
    using op v mr assms(3)
    by (auto simp: rdma_op_def Let_def bindR_eq_Inr send_wr_def make_wr_def ib_post_send_def post_view_def posted_of_def
        zero_wr_def zero_sge_def arr_get_def split: if_split_asm)
  moreover have "xfer_of (posted_of C ?c (mr_lkey mr) ?r) = rebase (rem_vaddr (dev_ctx (os_dev s))) x"
    using assms(2) x by (simp add: xfer_of_def posted_of_def rebase_def req_of_def)
  ultimately show ?thesis
    using intr_posts [OF i] by (simp add: posts_at_def same_locals_def)
qed

section \<open>Segment by segment\<close>

text \<open>
  The segments \<open>zs\<close> have been seen: what is posted, with the current request behind it
  when there is one, is \<open>zs\<close> with neighbours merged.
\<close>

definition carries :: "u64 \<Rightarrow> xfer list \<Rightarrow> one_state \<Rightarrow> bool" where
  "carries va zs s \<longleftrightarrow> (\<exists>pre cur. posts_at (os_dev s, os_tr s) = (map (rebase va) pre, va) \<and> coalesce zs (pre @ cur) \<and>
     (if os_has s then \<exists>y. cur = [y] \<and> req_of y (os_cur s) else cur = []))"

lemma carries_same:
  assumes "carries va zs s" and "posts_at (os_dev s', os_tr s') = posts_at (os_dev s, os_tr s)" and "same_locals s s'"
  shows "carries va zs s'"
  using assms unfolding carries_def same_locals_def by metis

lemma carries_post:
  assumes "carries va zs s" and "os_has s" and "one_post C V s = Inr s'" and "MODE C = MODE_ONE"
  shows "\<exists>pre. posts_at (os_dev s', os_tr s') = (map (rebase va) pre, va) \<and> coalesce zs pre \<and> same_locals s s'"
proof -
  obtain pre y where p: "posts_at (os_dev s, os_tr s) = (map (rebase va) pre, va)" "coalesce zs (pre @ [y])" "req_of y (os_cur s)"
    using assms(1,2) by (auto simp: carries_def)
  have "rem_vaddr (dev_ctx (os_dev s)) = va"
    using p(1) by (simp add: posts_at_def)
  then show ?thesis
    using one_post_posts [OF assms(3) p(3) assms(4)] p(1,2) by (intro exI [of _ "pre @ [y]"]) simp
qed

text \<open>Every buffer of a bio can be mapped, with any length.\<close>

definition bio_maps :: "verbs \<Rightarrow> bio \<Rightarrow> bool" where
  "bio_maps V b \<longleftrightarrow> (\<forall>v \<in> set (bi_io_vec b). \<forall>n. dma_map V (bv_buf v) n \<noteq> None)"

lemma whole_sectors: "512 dvd unat n \<Longrightarrow> drop_bit 9 (n :: u32) * 512 = n"
  by (intro word_unat_eq_iff [THEN iffD2]) (simp add: unat_whole)

text \<open>A request built for a segment, mapped with a length that covers it.\<close>

lemma seg_request_stands:
  assumes "dma_reaches V io" and "\<And>n. dma_map V (seg_buf seg) n \<noteq> None" and "512 dvd unat (seg_bytes seg)"
    and "seg_bytes seg \<le> n" and "unat n < 2 ^ 31"
  shows "\<exists>x. stands io w (seg_buf seg) (sector * 512) (unat (seg_bytes seg)) x \<and> req_of x (seg_request V b w sector seg n)"
proof -
  let ?x = "Xfer (opcode_of (bio_op w)) (rdma_map_address V (seg_buf seg) n) (sector * 512) (unat (seg_bytes seg))"
  have "reaches io (rdma_map_address V (seg_buf seg) n) (seg_buf seg) (unat n)"
    using mapped_reaches [OF assms(1) assms(2) assms(5)] .
  then have "stands io w (seg_buf seg) (sector * 512) (unat (seg_bytes seg)) ?x"
    using reaches_mono assms(4) by (auto simp: stands_def opcode_of_bio_op_cases word_le_nat_alt)
  moreover have "req_of ?x (seg_request V b w sector seg n)"
    using unat_u32_bound whole_sectors [OF assms(3)] by (simp add: req_of_def seg_request_def valid_op_def bio_op_def)
  ultimately show ?thesis by blast
qed

lemma coalesce_snoc:
  assumes "coalesce zs pre" and "total_bytes (zs @ [x]) < 2 ^ 32"
  shows "coalesce (zs @ [x]) (pre @ [x])"
  using coalesce_batch_join [of zs pre "[]" x conf_h] assms by (simp add: batch_join_def)

lemma coalesce_join:
  assumes "coalesce zs (pre @ [y])" and "total_bytes (zs @ [x]) < 2 ^ 32" and "adjacent y x"
  shows "coalesce (zs @ [x]) (pre @ [join y x])"
  using coalesce_batch_join [of zs pre "[y]" x "conf_h\<lparr>MERGE_REQ := True\<rparr>"] assms by (simp add: batch_join_def)

text \<open>No segment of a request is longer than what stands in the current request.\<close>

abbreviation covers :: "one_state \<Rightarrow> u32 \<Rightarrow> bool" where
  "covers s n \<equiv> os_has s \<longrightarrow> n \<le> rr_length (os_cur s)"

lemma carries_current:
  assumes "carries va zs s" and "os_has s"
  obtains pre y where "posts_at (os_dev s, os_tr s) = (map (rebase va) pre, va)" "coalesce zs (pre @ [y])" "req_of y (os_cur s)"
    "rr_length (os_cur s) = of_nat (x_bytes y)" "x_bytes y \<le> total_bytes zs"
proof -
  obtain pre y where y: "posts_at (os_dev s, os_tr s) = (map (rebase va) pre, va)" "coalesce zs (pre @ [y])" "req_of y (os_cur s)"
    using assms by (auto simp: carries_def)
  moreover have "x_bytes y \<le> total_bytes zs"
    using coalesce_total_bytes [OF y(2)] by simp
  ultimately show thesis
    using that by (simp add: req_of_def)
qed

lemma one_segment_carries:
  assumes s: "carries va zs s" "covers s (seg_bytes seg)" and run: "one_segment C V b w sector seg s = Inr s'"
    and C: "MODE C = MODE_ONE" and V: "dma_reaches V io" "\<And>n. dma_map V (seg_buf seg) n \<noteq> None"
    and seg: "512 dvd unat (seg_bytes seg)" and small: "total_bytes zs + unat (seg_bytes seg) < 2 ^ 31"
  shows "\<exists>x. stands io w (seg_buf seg) (sector * 512) (unat (seg_bytes seg)) x \<and> carries va (zs @ [x]) s' \<and>
    os_has s' \<and> covers s' (seg_bytes seg)"
proof (cases "os_has s")
  case has: True
  let ?t = "seg_request V b w sector seg (rr_length (os_cur s))"
  obtain pre y where p: "posts_at (os_dev s, os_tr s) = (map (rebase va) pre, va)" "coalesce zs (pre @ [y])" "req_of y (os_cur s)"
      "rr_length (os_cur s) = of_nat (x_bytes y)" "x_bytes y \<le> total_bytes zs"
    using carries_current [OF s(1) has] .
  have "unat (rr_length (os_cur s)) < 2 ^ 31"
    using p(4,5) small by (simp add: unat_of_nat)
  then obtain x where x: "stands io w (seg_buf seg) (sector * 512) (unat (seg_bytes seg)) x" "req_of x ?t"
    using seg_request_stands [OF V seg] s(2) has by blast
  have xb: "x_bytes x = unat (seg_bytes seg)" "rr_length ?t = seg_bytes seg"
    using x(1) whole_sectors [OF seg] by (simp_all add: stands_def seg_request_def)
  have small': "total_bytes (zs @ [x]) < 2 ^ 32"
    using small xb(1) by simp
  note adj = mergeable_adjacent [OF p(3) x(2)]
  show ?thesis
  proof (cases "mergeable (os_cur s) ?t")
    case True
    then have s': "s' = s\<lparr>os_cur := (os_cur s)\<lparr>rr_length := rr_length (os_cur s) + rr_length ?t\<rparr>\<rparr>"
      using run has by (simp add: one_segment_def Let_def)
    have "carries va (zs @ [x]) s'"
      using s' has p(1) adj True coalesce_join [OF p(2) small'] by (auto simp: carries_def)
    moreover have "unat (rr_length (os_cur s) + seg_bytes seg) = x_bytes y + unat (seg_bytes seg)"
      using p(4,5) small by (subst unat_plus_no_wrap) (auto simp: unat_of_nat)
    then have "seg_bytes seg \<le> rr_length (os_cur s')"
      using s' xb(2) by (simp add: word_le_nat_alt)
    ultimately show ?thesis
      using x(1) s' has by auto
  next
    case False
    with run has obtain s1 s2 where r: "one_write C V b (\<lambda>b. b\<lparr>br_outstanding_reqs := br_outstanding_reqs b + 1\<rparr>) s = Inr s1"
        "one_post C V s1 = Inr s2" "s' = s2\<lparr>os_cur := ?t\<rparr>"
      by (auto simp: one_segment_def Let_def bindR_eq_Inr)
    have 1: "carries va zs s1" "os_has s1"
      using carries_same [OF s(1)] one_write_posts [OF r(1)] has by (simp_all add: same_locals_def)
    from carries_post [OF this r(2) C] obtain pre' where
        2: "posts_at (os_dev s2, os_tr s2) = (map (rebase va) pre', va)" "coalesce zs pre'" "same_locals s1 s2"
      by blast
    have "os_has s2"
      using 1(2) 2(3) by (simp add: same_locals_def)
    moreover have "carries va (zs @ [x]) s'"
      using r(3) 2(1) coalesce_snoc [OF 2(2) small'] x(2) calculation by (auto simp: carries_def)
    ultimately show ?thesis
      using x(1) r(3) xb(2) by auto
  qed
next
  case False
  let ?n = "drop_bit 9 (seg_bytes seg) * 512"
  let ?s = "s\<lparr>os_cur := seg_request V b w sector seg ?n, os_has := True\<rparr>"
  obtain x where x: "stands io w (seg_buf seg) (sector * 512) (unat (seg_bytes seg)) x" "req_of x (seg_request V b w sector seg ?n)"
    using seg_request_stands [OF V seg, of ?n w sector b] small whole_sectors [OF seg] by auto
  have "total_bytes (zs @ [x]) < 2 ^ 32"
    using x(1) small by (simp add: stands_def)
  moreover obtain pre where "posts_at (os_dev s, os_tr s) = (map (rebase va) pre, va)" "coalesce zs pre"
    using s(1) False by (auto simp: carries_def)
  ultimately have "carries va (zs @ [x]) ?s"
    using coalesce_snoc [of zs pre x] x(2) unfolding carries_def by (intro exI [of _ pre] exI [of _ "[x]"]) simp
  moreover have w: "one_write C V b (\<lambda>b. b\<lparr>br_outstanding_reqs := br_outstanding_reqs b + 1\<rparr>) ?s = Inr s'"
    using run False by (simp add: one_segment_def Let_def)
  moreover have "rr_length (os_cur ?s) = seg_bytes seg"
    using whole_sectors [OF seg] by (simp add: seg_request_def)
  ultimately show ?thesis
    using x(1) carries_same one_write_posts [OF w] by (auto simp: same_locals_def)
qed

section \<open>Whole requests\<close>

text \<open>The transfers \<open>xs\<close> do \<open>f\<close> to the buffers and the disk, and move \<open>n\<close> bytes.\<close>

definition does :: "(u64 \<Rightarrow> u64) \<Rightarrow> xfer list \<Rightarrow> (mem \<Rightarrow> mem) \<Rightarrow> nat \<Rightarrow> bool" where
  "does io xs f n \<longleftrightarrow> (\<forall>m. run_xfers (card_exec io) xs m = f m) \<and> total_bytes xs = n"

lemma does_Nil [simp]: "does io [] (\<lambda>m. m) 0"
  by (simp add: does_def)

lemma does_append: "does io xs f n \<Longrightarrow> does io ys g k \<Longrightarrow> does io (xs @ ys) (\<lambda>m. g (f m)) (n + k)"
  by (simp add: does_def run_xfers_append)

lemma stands_does: "stands io w p off n x \<Longrightarrow> n < 2 ^ 64 \<Longrightarrow> does io [x] (disk_copy w p off n) n"
  using stands_exec [of io w p off n x] by (simp add: does_def stands_def)

lemma one_segs_carries:
  assumes "carries va zs s" and "covers s n"
    and "one_segs C V b w sector (map (\<lambda>v. \<lparr>seg_buf = bv_buf v, seg_bytes = n\<rparr>) vs) s = Inr s'"
    and "MODE C = MODE_ONE" and "dma_reaches V io" and "512 dvd unat n"
    and "\<forall>v \<in> set vs. bv_len v = n \<and> (\<forall>k. dma_map V (bv_buf v) k \<noteq> None)"
    and "total_bytes zs + length vs * unat n < 2 ^ 31"
  shows "\<exists>xs. does io xs (disk_vecs w (sector * 512) vs) (length vs * unat n) \<and> carries va (zs @ xs) s' \<and>
    (os_has s' \<longleftrightarrow> os_has s \<or> vs \<noteq> []) \<and> (if vs = [] then s' = s else covers s' n)"
  using assms(1,2,3,7,8)
proof (induction vs arbitrary: zs s sector)
  case Nil
  then show ?case by (intro exI [of _ "[]"]) (simp add: does_def)
next
  case (Cons v vs)
  let ?seg = "\<lparr>seg_buf = bv_buf v, seg_bytes = n\<rparr>"
  obtain s1 where s1: "one_segment C V b w sector ?seg s = Inr s1"
      "one_segs C V b w (sector + drop_bit 9 (ucast n)) (map (\<lambda>v. \<lparr>seg_buf = bv_buf v, seg_bytes = n\<rparr>) vs) s1 = Inr s'"
    using Cons.prems(3) by (auto simp: bindR_eq_Inr)
  obtain x where x: "stands io w (bv_buf v) (sector * 512) (unat n) x" "carries va (zs @ [x]) s1" "os_has s1" "covers s1 n"
    using one_segment_carries [OF Cons.prems(1) _ s1(1) assms(4,5)] Cons.prems(2,4,5) assms(6) by auto
  have small: "total_bytes (zs @ [x]) + length vs * unat n < 2 ^ 31"
    using Cons.prems(5) x(1) by (simp add: stands_def)
  from Cons.IH [OF x(2,4) s1(2) _ this] Cons.prems(4) obtain xs where
      xs: "does io xs (disk_vecs w ((sector + drop_bit 9 (ucast n)) * 512) vs) (length vs * unat n)" "carries va (zs @ x # xs) s'"
        "os_has s'" "if vs = [] then s' = s1 else covers s' n"
    using x(3) by auto
  have "does io [x] (disk_copy w (bv_buf v) (sector * 512) (unat n)) (unat n)"
    by (rule stands_does [OF x(1)]) (use unat_u32_bound [of n] in simp)
  from does_append [OF this xs(1)] have "does io (x # xs) (disk_vecs w (sector * 512) (v # vs)) (length (v # vs) * unat n)"
    using Cons.prems(4) sector_bytes [OF assms(6)] by (simp add: does_def)
  moreover have "covers s' n"
    using xs(4) x(4) by (auto split: if_splits)
  ultimately show ?case
    using xs(2,3) by (intro exI [of _ "x # xs"] conjI) (simp_all only: list.distinct if_False simp_thms append_assoc)
qed

text \<open>The buffers of a request do not get longer from one bio to the next.\<close>

abbreviation shrinking :: "bio list \<Rightarrow> bool" where
  "shrinking \<equiv> sorted_wrt (\<lambda>b b'. bi_cur_bytes b' \<le> bi_cur_bytes b)"

definition bios_bytes :: "bio list \<Rightarrow> nat" where
  "bios_bytes bs = sum_list (map (\<lambda>b. length (bi_io_vec b) * unat (bi_cur_bytes b)) bs)"

lemma one_bios_carries:
  assumes "carries va zs s" and "\<forall>b \<in> set bs. covers s (bi_cur_bytes b)" and "one_bios C V br bs s = Inr s'"
    and "MODE C = MODE_ONE" and "dma_reaches V io" and "\<forall>b \<in> set bs. bio_plain b \<and> bio_maps V b" and "shrinking bs"
    and "total_bytes zs + bios_bytes bs < 2 ^ 31"
  shows "\<exists>xs. does io xs (fold disk_bio bs) (bios_bytes bs) \<and> carries va (zs @ xs) s' \<and>
    (os_has s' \<longleftrightarrow> os_has s \<or> (\<exists>bio \<in> set bs. bi_segs bio \<noteq> []))"
  using assms(1-3,6-8)
proof (induction bs arbitrary: zs s)
  case Nil
  then show ?case by (intro exI [of _ "[]"]) (simp add: does_def bios_bytes_def)
next
  case (Cons bio bs)
  let ?k = "length (bi_io_vec bio) * unat (bi_cur_bytes bio)"
  obtain s1 s2 where s1: "one_segs C V br (bi_write bio) (bi_sector bio) (bi_segs bio) s = Inr s1"
      "one_write C V br (\<lambda>x. x\<lparr>br_nsec := br_nsec x + int (unat (bi_size bio div 512))\<rparr>) s1 = Inr s2"
      "one_bios C V br bs s2 = Inr s'"
    using Cons.prems(3) by (auto simp: bindR_eq_Inr)
  have "total_bytes zs + ?k < 2 ^ 31"
    using Cons.prems(6) by (simp add: bios_bytes_def)
  from one_segs_carries [OF Cons.prems(1) _ s1(1) [unfolded bi_segs_def] assms(4,5) _ _ this] Cons.prems(2,4)
  obtain xs where xs: "does io xs (disk_bio bio) ?k" "carries va (zs @ xs) s1"
      "os_has s1 \<longleftrightarrow> os_has s \<or> bi_io_vec bio \<noteq> []" "if bi_io_vec bio = [] then s1 = s else covers s1 (bi_cur_bytes bio)"
    by (auto simp: bio_plain_def bio_maps_def disk_bio_def)
  have 2: "carries va (zs @ xs) s2" "same_locals s1 s2"
    using carries_same [OF xs(2)] one_write_posts [OF s1(2)] by auto
  have "\<forall>b \<in> set bs. covers s1 (bi_cur_bytes b)"
    using xs(4) Cons.prems(2,5) by (auto split: if_splits dest: order_trans)
  then have c2: "\<forall>b \<in> set bs. covers s2 (bi_cur_bytes b)"
    using 2(2) by (simp add: same_locals_def)
  have "total_bytes (zs @ xs) + bios_bytes bs < 2 ^ 31"
    using Cons.prems(6) xs(1) by (simp add: bios_bytes_def does_def)
  from Cons.IH [OF 2(1) c2 s1(3) _ _ this] Cons.prems(4,5) obtain ys where
      ys: "does io ys (fold disk_bio bs) (bios_bytes bs)" "carries va (zs @ xs @ ys) s'"
        "os_has s' \<longleftrightarrow> os_has s2 \<or> (\<exists>bio \<in> set bs. bi_segs bio \<noteq> [])"
    by auto
  have "does io (xs @ ys) (fold disk_bio (bio # bs)) (bios_bytes (bio # bs))"
    using does_append [OF xs(1) ys(1)] by (simp add: bios_bytes_def comp_def)
  moreover have "os_has s' \<longleftrightarrow> os_has s \<or> (\<exists>bio \<in> set (bio # bs). bi_segs bio \<noteq> [])"
    using ys(3) 2(2) xs(3) by (auto simp: same_locals_def)
  ultimately show ?case
    using ys(2) by blast
qed

definition req_fine :: "verbs \<Rightarrow> request \<Rightarrow> bool" where
  "req_fine V rq \<longleftrightarrow> (\<forall>b \<in> set (rq_bios rq). bio_plain b \<and> bio_maps V b) \<and> shrinking (rq_bios rq) \<and>
     (\<exists>bio \<in> set (rq_bios rq). bi_segs bio \<noteq> [])"

lemma one_request_carries:
  assumes "carries va zs s" and "\<not> os_has s" and "one_request C V rq first s = Inr s'" and "MODE C = MODE_ONE"
    and "dma_reaches V io" and "req_fine V rq" and "total_bytes zs + bios_bytes (rq_bios rq) < 2 ^ 31"
  shows "\<exists>xs. does io xs (fold disk_bio (rq_bios rq)) (bios_bytes (rq_bios rq)) \<and> carries va (zs @ xs) s' \<and> \<not> os_has s'"
proof -
  obtain b s1 s2 s3 s4 where r: "one_start C V rq first s = Inr (b, s1)" "one_bios C V b (rq_bios rq) s1 = Inr s2"
      "one_write C V b (\<lambda>b. b\<lparr>br_all_request_sent := True\<rparr>) s2 = Inr s3" "one_post C V s3 = Inr s4" "s' = s4\<lparr>os_has := False\<rparr>"
    using assms(3) by (auto simp: one_request_def bindR_eq_Inr)
  from r(1) obtain f p2 where "one_write C V b f (s\<lparr>os_dev := with_pool (os_dev s) p2\<rparr>) = Inr s1"
    unfolding one_start_def by (auto simp: bindR_eq_Inr)
  from one_write_posts [OF this] have 1: "carries va zs s1" "\<not> os_has s1"
    using carries_same [OF assms(1)] assms(2) by (auto simp: same_locals_def)
  with one_bios_carries [OF 1(1) _ r(2) assms(4,5)] assms(6,7) obtain xs where
      xs: "does io xs (fold disk_bio (rq_bios rq)) (bios_bytes (rq_bios rq))" "carries va (zs @ xs) s2" "os_has s2"
    by (auto simp: req_fine_def)
  then have "carries va (zs @ xs) s3" "os_has s3"
    using carries_same one_write_posts [OF r(3)] by (auto simp: same_locals_def)
  from carries_post [OF this r(4) assms(4)] show ?thesis
    using r(5) xs(1) by (intro exI [of _ xs]) (auto simp: carries_def)
qed

definition queue_bytes :: "request list \<Rightarrow> nat" where
  "queue_bytes rqs = sum_list (map (\<lambda>rq. bios_bytes (rq_bios rq)) (filter rq_fs rqs))"

lemma one_requests_carries:
  assumes "carries va zs s" and "\<not> os_has s" and "one_requests C V rqs first s = Inr s'" and "MODE C = MODE_ONE"
    and "dma_reaches V io" and "\<forall>rq \<in> set rqs. rq_fs rq \<longrightarrow> req_fine V rq" and "total_bytes zs + queue_bytes rqs < 2 ^ 31"
  shows "\<exists>xs. does io xs (disk_queue rqs) (queue_bytes rqs) \<and> carries va (zs @ xs) s' \<and> \<not> os_has s'"
  using assms(1,2,3,6,7)
proof (induction rqs arbitrary: zs s first)
  case Nil
  then show ?case by (intro exI [of _ "[]"]) (simp add: does_def disk_queue_def queue_bytes_def)
next
  case (Cons rq rqs)
  show ?case
  proof (cases "rq_fs rq")
    case True
    then obtain s1 where s1: "one_request C V rq first s = Inr s1" "one_requests C V rqs False s1 = Inr s'"
      using Cons.prems(3) by (auto simp: bindR_eq_Inr)
    have "req_fine V rq" "total_bytes zs + bios_bytes (rq_bios rq) < 2 ^ 31"
      using Cons.prems(4,5) True by (simp_all add: queue_bytes_def)
    from one_request_carries [OF Cons.prems(1,2) s1(1) assms(4,5) this] obtain xs where
        xs: "does io xs (fold disk_bio (rq_bios rq)) (bios_bytes (rq_bios rq))" "carries va (zs @ xs) s1" "\<not> os_has s1"
      by blast
    have "total_bytes (zs @ xs) + queue_bytes rqs < 2 ^ 31"
      using Cons.prems(5) True xs(1) by (simp add: queue_bytes_def does_def)
    from Cons.IH [OF xs(2,3) s1(2) _ this] Cons.prems(4) obtain ys where
        ys: "does io ys (disk_queue rqs) (queue_bytes rqs)" "carries va (zs @ xs @ ys) s'" "\<not> os_has s'"
      by auto
    have "does io (xs @ ys) (disk_queue (rq # rqs)) (queue_bytes (rq # rqs))"
      using does_append [OF xs(1) ys(1)] True by (simp add: disk_queue_def queue_bytes_def comp_def)
    then show ?thesis
      using ys(2,3) by blast
  next
    case False
    let ?s = "s\<lparr>os_tr := os_tr s @ [End_Request (rq_at rq) (- EIO) (rq_cur_bytes rq)]\<rparr>"
    have "carries va zs ?s"
      by (rule carries_same [OF Cons.prems(1)]) (simp_all add: posts_at_def posts_of_def same_locals_def)
    then show ?thesis
      using Cons.IH [of zs ?s first] Cons.prems False by (simp add: disk_queue_def queue_bytes_def)
  qed
qed

section \<open>Properties\<close>



end
