(* ===== verification/Control.thy ===== *)
theory Control
  imports Rdma_Types
begin

text \<open>
  The control plane: how the set-up code of both hosts talks to its surroundings, and
  what a queue pair is. A call that leaves the repository (a verb, an allocation, a
  system call) is recorded in a trace together with its answer, and the answers are
  a parameter: they may depend on everything that happened before.

  The queue pair itself is the state machine that the verbs documentation
  prescribes for a reliable connection; the scripts by which the client
  (\<open>modify_qp\<close>) and the server (\<open>setup_rdma_1\<close>, \<open>setup_rdma_2\<close>) drive it are shown to
  implement one contract, the locale \<open>bring_up\<close>.
\<close>

section \<open>Calls and answers\<close>

text \<open>A call that gives a pointer, one that gives a return code, and one that gives nothing.\<close>

datatype 'c event = P 'c ptr | I 'c int | V 'c

record 'c world =
  w_ptr :: "'c event list \<Rightarrow> 'c \<Rightarrow> ptr"
  w_int :: "'c event list \<Rightarrow> 'c \<Rightarrow> int"

definition ask_ptr :: "('c, 'x) world_scheme \<Rightarrow> 'c \<Rightarrow> 'c event list \<Rightarrow> ptr \<times> 'c event list" where
  "ask_ptr W c tr = (w_ptr W tr c, tr @ [P c (w_ptr W tr c)])"

definition ask_int :: "('c, 'x) world_scheme \<Rightarrow> 'c \<Rightarrow> 'c event list \<Rightarrow> int \<times> 'c event list" where
  "ask_int W c tr = (w_int W tr c, tr @ [I c (w_int W tr c)])"

definition tell :: "'c \<Rightarrow> 'c event list \<Rightarrow> 'c event list" where
  "tell c tr = tr @ [V c]"

fun call_of :: "'c event \<Rightarrow> 'c" where
  "call_of (P c p) = c"
| "call_of (I c n) = c"
| "call_of (V c) = c"

lemmas ask_simps = ask_ptr_def ask_int_def tell_def

text \<open>What a port query stores.\<close>

record port_attr =
  pa_active_mtu :: int
  pa_lid :: "16 word"

section \<open>Queue pair attributes\<close>

datatype qp_state = QPS_RESET | QPS_INIT | QPS_RTR | QPS_RTS

datatype access = LOCAL_WRITE | REMOTE_WRITE | REMOTE_READ | REMOTE_ATOMIC

datatype qp_mask = QP_STATE | QP_PKEY_INDEX | QP_PORT | QP_ACCESS_FLAGS | QP_AV | QP_PATH_MTU | QP_DEST_QPN
  | QP_RQ_PSN | QP_MAX_DEST_RD_ATOMIC | QP_MIN_RNR_TIMER | QP_TIMEOUT | QP_RETRY_CNT | QP_RNR_RETRY
  | QP_SQ_PSN | QP_MAX_QP_RD_ATOMIC

record qp_attr =
  qa_state :: qp_state
  qa_pkey_index :: nat
  qa_port_num :: nat
  qa_access_flags :: "access list"
  qa_path_mtu :: int
  qa_dest_qp_num :: u32
  qa_rq_psn :: u32
  qa_max_dest_rd_atomic :: nat
  qa_min_rnr_timer :: nat
  qa_dlid :: "16 word"
  qa_sl :: nat
  qa_src_path_bits :: nat
  qa_ah_port_num :: nat
  qa_timeout :: nat
  qa_retry_cnt :: nat
  qa_rnr_retry :: nat
  qa_sq_psn :: u32
  qa_max_rd_atomic :: nat

text \<open>\<open>memset(&attr, 0, sizeof(attr))\<close>\<close>

definition zero_attr :: qp_attr where
  "zero_attr = \<lparr>qa_state = QPS_RESET, qa_pkey_index = 0, qa_port_num = 0, qa_access_flags = [], qa_path_mtu = 0,
     qa_dest_qp_num = 0, qa_rq_psn = 0, qa_max_dest_rd_atomic = 0, qa_min_rnr_timer = 0, qa_dlid = 0, qa_sl = 0,
     qa_src_path_bits = 0, qa_ah_port_num = 0, qa_timeout = 0, qa_retry_cnt = 0, qa_rnr_retry = 0, qa_sq_psn = 0,
     qa_max_rd_atomic = 0\<rparr>"

type_synonym qp_change = "qp_attr \<times> qp_mask list"

record qp_init =
  qi_send_cq :: ptr
  qi_recv_cq :: ptr
  qi_max_send_wr :: nat
  qi_max_recv_wr :: nat
  qi_max_send_sge :: nat
  qi_max_recv_sge :: nat
  qi_max_inline_data :: nat
  qi_signal_all :: bool

section \<open>The queue pair state machine\<close>

text \<open>
  A queue pair remembers the attributes of its transitions. The verbs documentation
  allows three transitions on the way to sending, each with the attributes it
  requires.
\<close>

record qp =
  q_state :: qp_state
  q_access :: "access list"
  q_port :: nat
  q_mtu :: int
  q_dest_qpn :: u32
  q_dlid :: "16 word"
  q_rq_psn :: u32
  q_sq_psn :: u32

definition new_qp :: qp where
  "new_qp = \<lparr>q_state = QPS_RESET, q_access = [], q_port = 0, q_mtu = 0, q_dest_qpn = 0, q_dlid = 0,
     q_rq_psn = 0, q_sq_psn = 0\<rparr>"

definition needed :: "qp_state \<Rightarrow> qp_mask set" where
  "needed s = (case s of QPS_RESET \<Rightarrow> {QP_STATE}
     | QPS_INIT \<Rightarrow> {QP_STATE, QP_PKEY_INDEX, QP_PORT, QP_ACCESS_FLAGS}
     | QPS_RTR \<Rightarrow> {QP_STATE, QP_AV, QP_PATH_MTU, QP_DEST_QPN, QP_RQ_PSN, QP_MAX_DEST_RD_ATOMIC, QP_MIN_RNR_TIMER}
     | QPS_RTS \<Rightarrow> {QP_STATE, QP_TIMEOUT, QP_RETRY_CNT, QP_RNR_RETRY, QP_SQ_PSN, QP_MAX_QP_RD_ATOMIC})"

inductive qp_step :: "qp \<Rightarrow> qp_change \<Rightarrow> qp \<Rightarrow> bool" where
  to_init: "q_state q = QPS_RESET \<Longrightarrow> qa_state a = QPS_INIT \<Longrightarrow> set m = needed QPS_INIT \<Longrightarrow>
    qp_step q (a, m) (q\<lparr>q_state := QPS_INIT, q_access := qa_access_flags a, q_port := qa_port_num a\<rparr>)"
| to_rtr: "q_state q = QPS_INIT \<Longrightarrow> qa_state a = QPS_RTR \<Longrightarrow> set m = needed QPS_RTR \<Longrightarrow>
    qp_step q (a, m) (q\<lparr>q_state := QPS_RTR, q_mtu := qa_path_mtu a, q_dest_qpn := qa_dest_qp_num a,
      q_dlid := qa_dlid a, q_rq_psn := qa_rq_psn a\<rparr>)"
| to_rts: "q_state q = QPS_RTR \<Longrightarrow> qa_state a = QPS_RTS \<Longrightarrow> set m = needed QPS_RTS \<Longrightarrow>
    qp_step q (a, m) (q\<lparr>q_state := QPS_RTS, q_sq_psn := qa_sq_psn a\<rparr>)"

inductive qp_path :: "qp \<Rightarrow> qp_change list \<Rightarrow> qp \<Rightarrow> bool" where
  path_nil: "qp_path q [] q"
| path_cons: "qp_step q c q' \<Longrightarrow> qp_path q' cs q'' \<Longrightarrow> qp_path q (c # cs) q''"

inductive_simps qp_path_Nil [simp]: "qp_path q [] q'"
inductive_simps qp_path_Cons: "qp_path q (c # cs) q'"

text \<open>A queue pair can only move forward, and it reaches sending in exactly three steps.\<close>

fun qp_rank :: "qp_state \<Rightarrow> nat" where
  "qp_rank QPS_RESET = 0"
| "qp_rank QPS_INIT = 1"
| "qp_rank QPS_RTR = 2"
| "qp_rank QPS_RTS = 3"

lemma qp_step_rank: "qp_step q c q' \<Longrightarrow> qp_rank (q_state q') = Suc (qp_rank (q_state q))"
  by (induction rule: qp_step.induct) simp_all

lemma qp_path_rank: "qp_path q cs q' \<Longrightarrow> qp_rank (q_state q') = qp_rank (q_state q) + length cs"
  by (induction rule: qp_path.induct) (simp_all add: qp_step_rank)

text \<open>The state and the change determine the next state.\<close>

definition qp_next :: "qp \<Rightarrow> qp_attr \<Rightarrow> qp" where
  "qp_next q a = (case q_state q of
     QPS_RESET \<Rightarrow> q\<lparr>q_state := QPS_INIT, q_access := qa_access_flags a, q_port := qa_port_num a\<rparr>
   | QPS_INIT \<Rightarrow> q\<lparr>q_state := QPS_RTR, q_mtu := qa_path_mtu a, q_dest_qpn := qa_dest_qp_num a,
       q_dlid := qa_dlid a, q_rq_psn := qa_rq_psn a\<rparr>
   | _ \<Rightarrow> q\<lparr>q_state := QPS_RTS, q_sq_psn := qa_sq_psn a\<rparr>)"

lemma qp_step_next: "qp_step q c q' \<Longrightarrow> q' = qp_next q (fst c)"
  by (induction rule: qp_step.induct) (simp_all add: qp_next_def)

lemma qp_step_det: "qp_step q c q' \<Longrightarrow> qp_step q c q'' \<Longrightarrow> q'' = q'"
  by (drule qp_step_next)+ (erule trans, erule sym)

lemma qp_path_det: "qp_path q cs q' \<Longrightarrow> qp_path q cs q'' \<Longrightarrow> q'' = q'"
proof (induction arbitrary: q'' rule: qp_path.induct)
  case (path_cons q c q1 cs q2)
  from path_cons.prems obtain q3 where q3: "qp_step q c q3" "qp_path q3 cs q''"
    by (rule qp_path.cases) blast+
  with qp_step_det [OF path_cons.hyps(1)] have "q3 = q1"
    by blast
  with q3(2) path_cons.IH show ?case by blast
qed simp

text \<open>Three changes with the right attributes bring a new queue pair to sending.\<close>

lemma qp_path_three:
  assumes "qa_state a1 = QPS_INIT" "set m1 = needed QPS_INIT" and "qa_state a2 = QPS_RTR" "set m2 = needed QPS_RTR"
    and "qa_state a3 = QPS_RTS" "set m3 = needed QPS_RTS"
  shows "qp_path new_qp [(a1, m1), (a2, m2), (a3, m3)]
    \<lparr>q_state = QPS_RTS, q_access = qa_access_flags a1, q_port = qa_port_num a1, q_mtu = qa_path_mtu a2,
     q_dest_qpn = qa_dest_qp_num a2, q_dlid = qa_dlid a2, q_rq_psn = qa_rq_psn a2, q_sq_psn = qa_sq_psn a3\<rparr>"
proof -
  let ?q1 = "new_qp\<lparr>q_state := QPS_INIT, q_access := qa_access_flags a1, q_port := qa_port_num a1\<rparr>"
  let ?q2 = "?q1\<lparr>q_state := QPS_RTR, q_mtu := qa_path_mtu a2, q_dest_qpn := qa_dest_qp_num a2,
      q_dlid := qa_dlid a2, q_rq_psn := qa_rq_psn a2\<rparr>"
  let ?q3 = "?q2\<lparr>q_state := QPS_RTS, q_sq_psn := qa_sq_psn a3\<rparr>"
  have s1: "qp_step new_qp (a1, m1) ?q1"
    by (rule to_init) (use assms(1,2) in \<open>simp_all add: new_qp_def\<close>)
  have s2: "qp_step ?q1 (a2, m2) ?q2"
    by (rule to_rtr) (use assms(3,4) in simp_all)
  have s3: "qp_step ?q2 (a3, m3) ?q3"
    by (rule to_rts) (use assms(5,6) in simp_all)
  from path_cons [OF s1 path_cons [OF s2 path_cons [OF s3 path_nil]]]
  show ?thesis
    by (simp add: new_qp_def)
qed

section \<open>Bringing up a queue pair\<close>

text \<open>
  What a script of changes must achieve with what its host knows about itself and its
  peer, and what two hosts that run one get from it.
\<close>

definition rts_qp :: "qp \<Rightarrow> u32 \<Rightarrow> u32 \<Rightarrow> u32 \<Rightarrow> u32 \<Rightarrow> bool" where
  "rts_qp q own_psn peer_qpn peer_psn peer_lid \<longleftrightarrow> q_state q = QPS_RTS \<and> q_sq_psn q = own_psn \<and>
     q_dest_qpn q = peer_qpn \<and> q_rq_psn q = peer_psn \<and> q_dlid q = ucast peer_lid \<and>
     REMOTE_WRITE \<in> set (q_access q) \<and> REMOTE_READ \<in> set (q_access q)"

text \<open>
  Two queue pairs are wired: both may send, each names the other as its destination,
  each expects the sequence number with which the other starts, and each lets
  the other read and write.
\<close>

definition wired :: "u32 \<Rightarrow> u32 \<Rightarrow> qp \<Rightarrow> u32 \<Rightarrow> u32 \<Rightarrow> qp \<Rightarrow> bool" where
  "wired qpn lid q qpn' lid' q' \<longleftrightarrow> q_state q = QPS_RTS \<and> q_state q' = QPS_RTS \<and>
     q_dest_qpn q = qpn' \<and> q_dest_qpn q' = qpn \<and> q_dlid q = ucast lid' \<and> q_dlid q' = ucast lid \<and>
     q_rq_psn q = q_sq_psn q' \<and> q_rq_psn q' = q_sq_psn q \<and>
     {REMOTE_READ, REMOTE_WRITE} \<subseteq> set (q_access q) \<inter> set (q_access q')"

locale bring_up =
  fixes script :: "'c \<Rightarrow> qp_change list" and own_psn peer_qpn peer_psn peer_lid :: "'c \<Rightarrow> u32"
  assumes script_path: "\<exists>q. qp_path new_qp (script c) q \<and>
    rts_qp q (own_psn c) (peer_qpn c) (peer_psn c) (peer_lid c)"
begin

lemma script_rts: "qp_path new_qp (script c) q \<Longrightarrow> rts_qp q (own_psn c) (peer_qpn c) (peer_psn c) (peer_lid c)"
  using script_path [of c] qp_path_det by blast

lemma script_length: "length (script c) = 3"
proof -
  obtain q where "qp_path new_qp (script c) q" "q_state q = QPS_RTS"
    using script_path [of c] by (auto simp: rts_qp_def)
  then show ?thesis
    using qp_path_rank [of new_qp "script c" q] by (simp add: new_qp_def)
qed

lemma no_prefix_rts:
  assumes "qp_path new_qp (take k (script c)) q" and "k < 3"
  shows "q_state q \<noteq> QPS_RTS"
  using qp_path_rank [OF assms(1)] assms(2) by (auto simp: script_length new_qp_def)

end

text \<open>Two hosts whose knowledge of each other is crossed correctly end up wired.\<close>

lemma crossed_wired:
  assumes "rts_qp q psn qpn' psn' lid'" and "rts_qp q' psn' qpn psn lid"
  shows "wired qpn lid q qpn' lid' q'"
  using assms by (auto simp: rts_qp_def wired_def)

end
