(* ===== verification/Text_Format.thy ===== *)
theory Text_Format
  imports Prelude "HOL-Library.Char_ord"
begin

text \<open>
  The part of \<open>printf\<close> and \<open>sscanf\<close> that the two sides of the handshake use: decimal
  and hexadecimal numbers, plain or filled up with zeros to a width, separated by
  colons. The client runs the kernel's versions, the server those of the C library;
  both skip white space and a \<open>0x\<close> before a hexadecimal number, but only the latter
  accepts a sign for an unsigned number, and they treat numbers of more than 64 bits
  differently.
\<close>

section \<open>Digits\<close>

definition digit_char :: "nat \<Rightarrow> char" where
  "digit_char d = (if d < 10 then char_of (48 + d) else char_of (87 + d))"

definition digit_val :: "char \<Rightarrow> nat option" where
  "digit_val c = (let n = of_char c :: nat in
     if 48 \<le> n \<and> n \<le> 57 then Some (n - 48)
     else if 97 \<le> n \<and> n \<le> 102 then Some (n - 87)
     else if 65 \<le> n \<and> n \<le> 70 then Some (n - 55) else None)"

definition is_digit :: "nat \<Rightarrow> char \<Rightarrow> bool" where
  "is_digit base c = (case digit_val c of None \<Rightarrow> False | Some d \<Rightarrow> d < base)"

definition is_space :: "char \<Rightarrow> bool" where
  "is_space c \<longleftrightarrow> of_char c \<in> {32, 9, 10, 11, 12, 13 :: nat}"

section \<open>Printing\<close>

fun show_digits :: "nat \<Rightarrow> nat \<Rightarrow> string" where
  "show_digits base n =
     (if base < 2 \<or> n < base then [digit_char n]
      else show_digits base (n div base) @ [digit_char (n mod base)])"

declare show_digits.simps [simp del]

text \<open>\<open>%d\<close>\<close>

definition show_int :: "int \<Rightarrow> string" where
  "show_int i = (if i < 0 then CHR ''-'' # show_digits 10 (nat (- i)) else show_digits 10 (nat i))"

text \<open>\<open>%016Lx\<close> fills up with zeros on the left.\<close>

definition zero_fill :: "nat \<Rightarrow> string \<Rightarrow> string" where
  "zero_fill width s = replicate (width - length s) (digit_char 0) @ s"

definition colon :: char where
  "colon = CHR '':''"

fun join_colon :: "string list \<Rightarrow> string" where
  "join_colon [] = []"
| "join_colon [s] = s"
| "join_colon (s # t # ss) = s @ colon # join_colon (t # ss)"

section \<open>Scanning\<close>

fun scan_digits :: "nat \<Rightarrow> nat \<Rightarrow> nat \<Rightarrow> string \<Rightarrow> nat \<times> string" where
  "scan_digits base 0 acc cs = (acc, cs)"
| "scan_digits base (Suc width) acc [] = (acc, [])"
| "scan_digits base (Suc width) acc (c # cs) =
     (case digit_val c of None \<Rightarrow> (acc, c # cs)
      | Some d \<Rightarrow> if d < base then scan_digits base width (acc * base + d) cs else (acc, c # cs))"

datatype libc = Kernel | Userland

text \<open>
  One conversion \<open>%<width>u\<close> or \<open>%<width>x\<close>; without a width the whole text may be
  used. The result is the 64-bit value and the text behind it.
\<close>

definition to_u64 :: "libc \<Rightarrow> nat \<Rightarrow> u64" where
  "to_u64 lib n = (if lib = Userland \<and> 2 ^ 64 \<le> n then - 1 else of_nat n)"

definition scan_unsigned :: "libc \<Rightarrow> nat \<Rightarrow> nat \<Rightarrow> string \<Rightarrow> (u64 \<times> string) option" where
  "scan_unsigned lib base width cs =
     (let (skip, cs) = (if base = 16 \<and> 3 \<le> width \<and> 3 \<le> length cs \<and> cs ! 0 = CHR ''0'' \<and>
                           cs ! 1 \<in> {CHR ''x'', CHR ''X''} \<and> is_digit 16 (cs ! 2) then (2, drop 2 cs) else (0, cs)) in
      if width - skip > 0 \<and> cs \<noteq> [] \<and> is_digit base (hd cs)
      then let (n, rest) = scan_digits base (width - skip) 0 cs in Some (to_u64 lib n, rest)
      else None)"

definition scan_conv :: "libc \<Rightarrow> nat \<Rightarrow> nat option \<Rightarrow> string \<Rightarrow> (u64 \<times> string) option" where
  "scan_conv lib base w cs0 =
     (let cs = dropWhile is_space cs0; width = (case w of None \<Rightarrow> length cs | Some k \<Rightarrow> k) in
      if lib = Userland \<and> cs \<noteq> [] \<and> 0 < width \<and> hd cs = CHR ''-''
      then map_option (\<lambda>(v, rest). (- v, rest)) (scan_unsigned lib base (width - 1) (tl cs))
      else if lib = Userland \<and> cs \<noteq> [] \<and> 0 < width \<and> hd cs = CHR ''+''
      then scan_unsigned lib base (width - 1) (tl cs)
      else scan_unsigned lib base width cs)"

text \<open>
  \<open>sscanf\<close> with conversions separated by colons: the values of the conversions up to
  the first one that fails.
\<close>

fun sscanf_colon :: "libc \<Rightarrow> (nat \<times> nat option) list \<Rightarrow> string \<Rightarrow> u64 list" where
  "sscanf_colon lib [] cs = []"
| "sscanf_colon lib ((base, w) # convs) cs =
     (case scan_conv lib base w cs of None \<Rightarrow> []
      | Some (v, rest) \<Rightarrow>
          v # (if rest \<noteq> [] \<and> hd rest = colon then sscanf_colon lib convs (tl rest) else []))"

section \<open>Signed numbers\<close>

text \<open>
  The kernel's \<open>simple_strtol(s, &end, 10)\<close>: an optional minus sign and the digits
  behind it, 0 when there are none; \<open>end\<close> is the text behind them and never \<open>NULL\<close>.
  The 64-bit result wraps, and so does its conversion to \<open>int\<close>.
\<close>

definition wrap_int :: "nat \<Rightarrow> int \<Rightarrow> int" where
  "wrap_int w x = (x + 2 ^ (w - 1)) mod 2 ^ w - 2 ^ (w - 1)"

definition simple_strtol :: "string \<Rightarrow> int \<times> string" where
  "simple_strtol cs =
     (if cs \<noteq> [] \<and> hd cs = CHR ''-''
      then let (n, end) = scan_digits 10 (length cs) 0 (tl cs) in (wrap_int 64 (- int n), end)
      else let (n, end) = scan_digits 10 (length cs) 0 cs in (wrap_int 64 (int n), end))"

text \<open>\<open>%d\<close> of the kernel's \<open>sscanf\<close>, which needs a digit behind the sign.\<close>

definition scan_signed :: "string \<Rightarrow> (int \<times> string) option" where
  "scan_signed cs0 =
     (let cs = dropWhile is_space cs0; ds = (if cs \<noteq> [] \<and> hd cs = CHR ''-'' then tl cs else cs) in
      if ds \<noteq> [] \<and> is_digit 10 (hd ds)
      then let (n, end) = simple_strtol cs in Some (wrap_int 32 n, end)
      else None)"

text \<open>Conversions \<open>%d\<close> separated by dots: the values up to the first failure.\<close>

definition dot :: char where
  "dot = CHR ''.''"

fun sscanf_dots :: "nat \<Rightarrow> string \<Rightarrow> int list" where
  "sscanf_dots 0 cs = []"
| "sscanf_dots (Suc k) cs =
     (case scan_signed cs of None \<Rightarrow> []
      | Some (v, rest) \<Rightarrow> v # (if rest \<noteq> [] \<and> hd rest = dot then sscanf_dots k (tl rest) else []))"

section \<open>Digits print and scan back\<close>

lemma digit_val_char: "d < 16 \<Longrightarrow> digit_val (digit_char d) = Some d"
  by (auto simp: digit_val_def digit_char_def Let_def of_char_of)

lemma is_digit_char: "d < base \<Longrightarrow> base \<le> 16 \<Longrightarrow> is_digit base (digit_char d)"
  by (simp add: is_digit_def digit_val_char)

lemma show_digits_small: "n < base \<Longrightarrow> show_digits base n = [digit_char n]"
  by (simp add: show_digits.simps [of base n])

lemma show_digits_step:
  "2 \<le> base \<Longrightarrow> base \<le> n \<Longrightarrow> show_digits base n = show_digits base (n div base) @ [digit_char (n mod base)]"
  by (simp add: show_digits.simps [of base n])

lemma show_digits_all:
  assumes "2 \<le> base" and "base \<le> 16"
  shows "\<forall>c \<in> set (show_digits base n). is_digit base c"
proof (induction n rule: less_induct)
  case (less n)
  show ?case
  proof (cases "n < base")
    case True
    then show ?thesis using assms by (simp add: show_digits_small is_digit_char)
  next
    case False
    then have "n div base < n"
      using assms by (intro div_less_dividend) auto
    then have "\<forall>c \<in> set (show_digits base (n div base)). is_digit base c"
      by (rule less)
    then show ?thesis
      using False assms by (auto simp: show_digits_step is_digit_char)
  qed
qed

lemma show_digits_nonempty [simp]: "show_digits base n \<noteq> []"
  by (simp add: show_digits.simps [of base n])

text \<open>The value of a text of digits.\<close>

definition digits_value :: "nat \<Rightarrow> nat \<Rightarrow> string \<Rightarrow> nat" where
  "digits_value base acc cs = foldl (\<lambda>a c. a * base + the (digit_val c)) acc cs"

lemma digits_value_simps [simp]:
  "digits_value base acc [] = acc"
  "digits_value base acc (c # cs) = digits_value base (acc * base + the (digit_val c)) cs"
  "digits_value base acc (xs @ ys) = digits_value base (digits_value base acc xs) ys"
  by (simp_all add: digits_value_def)

lemma digits_value_show:
  assumes "2 \<le> base" and "base \<le> 16"
  shows "digits_value base 0 (show_digits base n) = n"
proof (induction n rule: less_induct)
  case (less n)
  show ?case
  proof (cases "n < base")
    case True
    then show ?thesis using assms by (simp add: show_digits_small digit_val_char)
  next
    case False
    then have "n div base < n"
      using assms by (intro div_less_dividend) auto
    moreover have "n mod base < base"
      using assms(1) by simp
    then have "n mod base < 16"
      using assms(2) by (rule less_le_trans)
    ultimately show ?thesis
      using less False assms by (simp add: show_digits_step digit_val_char)
  qed
qed

lemma digits_value_zeros: "digits_value base 0 (replicate k (digit_char 0)) = 0"
  by (induction k) (simp_all add: digit_val_char)

lemma zero_fill_value:
  assumes "2 \<le> base" and "base \<le> 16"
  shows "digits_value base 0 (zero_fill w (show_digits base n)) = n"
  using assms by (simp add: zero_fill_def digits_value_zeros digits_value_show)

lemma zero_fill_all:
  assumes "2 \<le> base" and "base \<le> 16"
  shows "\<forall>c \<in> set (zero_fill w (show_digits base n)). is_digit base c"
  using show_digits_all [OF assms, of n] is_digit_char [of 0 base] assms by (auto simp: zero_fill_def)

text \<open>Scanning reads exactly the digits, up to the width and to the first other character.\<close>

definition stops :: "nat \<Rightarrow> string \<Rightarrow> bool" where
  "stops base rest \<longleftrightarrow> rest = [] \<or> \<not> is_digit base (hd rest)"

lemma scan_digits_stop: "stops base rest \<Longrightarrow> scan_digits base w acc rest = (acc, rest)"
  by (cases w; cases rest) (auto simp: stops_def is_digit_def split: option.splits)

lemma scan_digits_all:
  assumes "\<forall>c \<in> set cs. is_digit base c" and "length cs \<le> w" and "length cs = w \<or> stops base rest"
  shows "scan_digits base w acc (cs @ rest) = (digits_value base acc cs, rest)"
  using assms
proof (induction cs arbitrary: w acc)
  case Nil
  then show ?case by (cases w) (auto simp: scan_digits_stop)
next
  case (Cons c cs)
  then obtain v where v: "w = Suc v" by (cases w) auto
  obtain d where d: "digit_val c = Some d" "d < base"
    using Cons.prems(1) by (auto simp: is_digit_def split: option.splits)
  then show ?case
    using Cons.IH [of v "acc * base + d"] Cons.prems v by simp
qed

section \<open>Conversions print and scan back\<close>

lemma is_digit_range: "is_digit base c \<Longrightarrow> base \<le> 16 \<Longrightarrow>
    (48 \<le> (of_char c :: nat) \<and> of_char c \<le> (57 :: nat)) \<or> (65 \<le> (of_char c :: nat) \<and> of_char c \<le> (70 :: nat)) \<or>
    (97 \<le> (of_char c :: nat) \<and> of_char c \<le> (102 :: nat))"
  by (auto simp: is_digit_def digit_val_def Let_def split: option.splits if_splits)

lemma is_digit_not:
  assumes "is_digit base c" and "base \<le> 16"
  shows "\<not> is_space c" "c \<noteq> CHR ''-''" "c \<noteq> CHR ''+''" "c \<noteq> CHR ''x''" "c \<noteq> CHR ''X''" "c \<noteq> colon"
  using is_digit_range [OF assms] by (auto simp: is_space_def colon_def)

lemma stops_colon: "base \<le> 16 \<Longrightarrow> stops base (colon # cs)"
  using is_digit_not(6) by (auto simp: stops_def)

lemma scan_unsigned_digits:
  assumes cs: "\<forall>c \<in> set cs. is_digit base c" "cs \<noteq> []" "base \<le> 16" and w: "length cs \<le> w"
    and rest: "length cs = w \<or> stops base rest" and x: "length cs = 1 \<longrightarrow> rest = [] \<or> hd rest \<notin> {CHR ''x'', CHR ''X''}"
    and n: "digits_value base 0 cs < 2 ^ 64"
  shows "scan_unsigned lib base w (cs @ rest) = Some (of_nat (digits_value base 0 cs), rest)"
proof -
  have "\<not> (3 \<le> length (cs @ rest) \<and> (cs @ rest) ! 1 \<in> {CHR ''x'', CHR ''X''})"
  proof (cases "length cs = 1")
    case True
    then show ?thesis
      using x by (cases rest) (auto simp: nth_append)
  next
    case False
    then have "1 < length cs" using cs(2) by (cases cs) auto
    then show ?thesis
      using cs is_digit_not(4,5) [of base "cs ! 1"] by (auto simp: nth_append)
  qed
  then show ?thesis
    using scan_digits_all [OF cs(1) w rest, of 0] cs w n
    by (cases cs) (auto simp: scan_unsigned_def to_u64_def Let_def)
qed

lemma scan_conv_digits:
  assumes cs: "\<forall>c \<in> set cs. is_digit base c" "cs \<noteq> []" "base \<le> 16"
    and w: "case w of None \<Rightarrow> True | Some k \<Rightarrow> length cs \<le> k" and rest: "stops base rest"
    and x: "rest = [] \<or> hd rest \<notin> {CHR ''x'', CHR ''X''}" and n: "digits_value base 0 cs < 2 ^ 64"
  shows "scan_conv lib base w (cs @ rest) = Some (of_nat (digits_value base 0 cs), rest)"
proof -
  obtain c cs' where c: "cs = c # cs'" "is_digit base c"
    using cs by (cases cs) auto
  note nots = is_digit_not [OF c(2) cs(3)]
  have "dropWhile is_space (cs @ rest) = cs @ rest"
    using nots(1) c by simp
  moreover have "length cs \<le> (case w of None \<Rightarrow> length (cs @ rest) | Some k \<Rightarrow> k)"
    using w by (cases w) simp_all
  from scan_unsigned_digits [OF cs this _ _ n, of rest lib] rest x
  have "scan_unsigned lib base (case w of None \<Rightarrow> length (cs @ rest) | Some k \<Rightarrow> k) (cs @ rest) =
      Some (of_nat (digits_value base 0 cs), rest)"
    by blast
  moreover have "hd (cs @ rest) \<noteq> CHR ''-''" "hd (cs @ rest) \<noteq> CHR ''+''"
    using nots(2,3) c(1) by simp_all
  ultimately show ?thesis
    unfolding scan_conv_def Let_def by (simp only: simp_thms if_False)
qed

lemma wrap_int_id: "0 < w \<Longrightarrow> 0 \<le> x \<Longrightarrow> x < 2 ^ (w - 1) \<Longrightarrow> wrap_int w x = x"
  by (cases w) (simp_all add: wrap_int_def)

lemma simple_strtol_show:
  assumes "n < 2 ^ 63" and "stops 10 rest"
  shows "simple_strtol (show_digits 10 n @ rest) = (int n, rest)"
proof -
  let ?cs = "show_digits 10 n @ rest"
  have all: "\<forall>c \<in> set (show_digits 10 n). is_digit 10 c"
    by (rule show_digits_all) simp_all
  then have "is_digit 10 (hd ?cs)"
    by (simp add: hd_append)
  then have "hd ?cs \<noteq> CHR ''-''"
    using is_digit_not(2) by fastforce
  moreover have "scan_digits 10 (length ?cs) 0 ?cs = (n, rest)"
    using scan_digits_all [OF all, of "length ?cs" rest 0] assms(2) by (simp add: digits_value_show)
  moreover have "wrap_int 64 (int n) = int n"
    by (rule wrap_int_id) (use assms(1) in simp_all)
  ultimately show ?thesis
    by (simp add: simple_strtol_def)
qed

lemma scan_signed_show:
  assumes "n < 2 ^ 31" and "stops 10 rest"
  shows "scan_signed (show_digits 10 n @ rest) = Some (int n, rest)"
proof -
  have "is_digit 10 (hd (show_digits 10 n))"
    using show_digits_all [of 10 n] by simp
  from is_digit_not [OF this] this
  have "dropWhile is_space (show_digits 10 n @ rest) = show_digits 10 n @ rest"
    "hd (show_digits 10 n @ rest) \<noteq> CHR ''-''" "is_digit 10 (hd (show_digits 10 n @ rest))"
    by (cases "show_digits 10 n"; simp)+
  moreover have "wrap_int 32 (int n) = int n"
    by (rule wrap_int_id) (use assms(1) in simp_all)
  ultimately show ?thesis
    using simple_strtol_show [of n rest] assms by (simp add: scan_signed_def)
qed

lemma length_show_digits:
  assumes "2 \<le> base" and "n < base ^ k" and "0 < k"
  shows "length (show_digits base n) \<le> k"
  using assms(2,3)
proof (induction k arbitrary: n)
  case (Suc k)
  show ?case
  proof (cases "n < base")
    case True
    then show ?thesis by (simp add: show_digits_small)
  next
    case False
    then have "k \<noteq> 0"
      using Suc.prems by (cases k) auto
    moreover have "n div base < base ^ k"
      using Suc.prems assms(1) by (simp add: less_mult_imp_div_less mult.commute)
    ultimately show ?thesis
      using Suc.IH [of "n div base"] False assms(1) by (simp add: show_digits_step)
  qed
qed simp

section \<open>C strings\<close>

text \<open>
  A character array holds a string up to its first \<open>NUL\<close>. Receiving a message
  overwrites the front of the array and leaves the rest as it was.
\<close>

abbreviation NUL :: char where
  "NUL \<equiv> CHR 0x00"

definition cstr :: "string \<Rightarrow> string" where
  "cstr buf = takeWhile (\<lambda>c. c \<noteq> NUL) buf"

definition write_str :: "string \<Rightarrow> string \<Rightarrow> string" where
  "write_str buf s = s @ NUL # drop (Suc (length s)) buf"

definition recv_into :: "string \<Rightarrow> nat \<Rightarrow> string \<Rightarrow> string" where
  "recv_into buf sz msg = (let m = take sz msg in m @ drop (length m) buf)"

lemma cstr_append: "NUL \<notin> set m \<Longrightarrow> cstr (m @ rest) = m @ cstr rest"
  by (auto simp: cstr_def takeWhile_append)

lemma cstr_write_str: "NUL \<notin> set s \<Longrightarrow> cstr (write_str buf s) = s"
  by (simp add: write_str_def cstr_append) (simp add: cstr_def)

lemma is_digit_NUL [simp]: "\<not> is_digit base NUL"
  by (simp add: is_digit_def digit_val_def)

end
