(* ===== verification/Handshake.thy ===== *)
theory Handshake
  imports Text_Format Rdma_Types
begin

text \<open>
  The conversation over TCP by which a client and a server get to know each other,
  and the one by which they part: \<open>send_data\<close>, \<open>receive_data\<close>, \<open>handshake\<close> and
  \<open>teardown\<close> of \<open>src/rdma_library.c\<close> (lines 332 to 448), and \<open>handshake_get_memsize\<close>,
  \<open>wait_for_tearingdown\<close>, \<open>exchange_bootstrap_data\<close> and \<open>handshake\<close> of
  \<open>src/server/server.c\<close> (lines 70 to 140 and 164 to 167).

  A function takes what its calls of \<open>recv\<close> deliver and gives back what it sends. The
  stack buffers are not initialised, so their old contents are parameters.
\<close>

section \<open>The client\<close>

definition send_data :: "string list \<Rightarrow> string \<Rightarrow> nat \<Rightarrow> int \<times> string list" where
  "send_data sent data n = (0, sent @ [take n data])"

definition receive_data :: "string \<Rightarrow> nat \<Rightarrow> string \<Rightarrow> int \<times> string" where
  "receive_data data n incoming = (0, recv_into data n incoming)"

text \<open>\<open>%016Lx:%u:%x:%x:%x\<close>\<close>

definition boot_line :: "u64 \<Rightarrow> u32 \<Rightarrow> u32 \<Rightarrow> u32 \<Rightarrow> u32 \<Rightarrow> string" where
  "boot_line vaddr rkey qpn psn lid =
     join_colon [zero_fill 16 (show_digits 16 (unat vaddr)), show_digits 10 (unat rkey),
       show_digits 16 (unat qpn), show_digits 16 (unat psn), show_digits 16 (unat lid)]"

definition boot_fmt :: "(nat \<times> nat option) list" where
  "boot_fmt = [(16, Some 16), (10, None), (16, None), (16, None), (16, None)]"

text \<open>The addresses given to \<open>sscanf\<close> receive the values that were converted.\<close>

definition stored :: "u64 list \<Rightarrow> nat \<Rightarrow> u64 \<Rightarrow> u64" where
  "stored vs i old = (if i < length vs then vs ! i else old)"

definition store_client :: "u64 list \<Rightarrow> rdma_ctx \<Rightarrow> rdma_ctx" where
  "store_client vs ctx = ctx\<lparr>rem_vaddr := stored vs 0 (rem_vaddr ctx),
     rem_rkey := ucast (stored vs 1 (ucast (rem_rkey ctx))),
     rem_qpn := ucast (stored vs 2 (ucast (rem_qpn ctx))),
     rem_psn := ucast (stored vs 3 (ucast (rem_psn ctx))),
     rem_lid := ucast (stored vs 4 (ucast (rem_lid ctx)))\<rparr>"

definition handshake :: "string \<Rightarrow> string \<Rightarrow> rdma_ctx \<Rightarrow> rdma_ctx \<times> string list" where
  "handshake stack reply ctx =
     (let data1 = write_str stack (show_digits 10 (unat (rem_mem_size ctx)));
          sent1 = snd (send_data [] data1 (length (cstr data1)));
          data2 = snd (receive_data data1 500 reply);
          ctx' = store_client (sscanf_colon Kernel boot_fmt (cstr data2)) ctx;
          data3 = write_str data2 (boot_line 0 (ctx_rkey ctx') (ctx_qpn ctx') (ctx_psn ctx') (ctx_lid ctx'));
          sent2 = snd (send_data sent1 data3 (length (cstr data3))) in
      (ctx', sent2))"

text \<open>
  \<open>teardown\<close>: the loop sends the contents of \<open>data\<close>, which after the first round is
  whatever came in. It gives the messages sent and the answers left over.
\<close>

fun teardown_loop :: "string \<Rightarrow> string list \<Rightarrow> string list \<Rightarrow> (string list \<times> string list) result" where
  "teardown_loop data [] sent = Inl Spinning"
| "teardown_loop data (m # ms) sent =
     (let sent' = snd (send_data sent data (length (cstr data)));
          data' = snd (receive_data data 500 m) in
      if take 4 (cstr data') = ''done'' then Inr (sent', ms) else teardown_loop data' ms sent')"

definition teardown :: "string \<Rightarrow> string list \<Rightarrow> (string list \<times> string list) result" where
  "teardown stack replies = teardown_loop (write_str stack ''teardown'') replies []"

section \<open>The server\<close>

record srv_context =
  s_context :: ptr
  s_pd :: ptr
  s_mr :: ptr
  s_qp :: ptr
  s_send_cq :: ptr
  s_recv_cq :: ptr
  s_event_channel :: ptr
  s_active_mtu :: int
  s_local_rkey :: u32
  s_qpn :: u32
  s_psn :: u32
  s_lid :: u32
  s_rem_qpn :: u32
  s_rem_psn :: u32
  s_rem_lid :: u32
  s_rem_vaddr :: u64
  s_rem_rkey :: u32
  s_rdma_buffer :: ptr
  s_rdma_mem_size :: u64

text \<open>\<open>memset(&s_ctx, 0, sizeof(struct context))\<close>\<close>

definition zero_context :: srv_context where
  "zero_context = \<lparr>s_context = 0, s_pd = 0, s_mr = 0, s_qp = 0, s_send_cq = 0, s_recv_cq = 0,
     s_event_channel = 0, s_active_mtu = 0, s_local_rkey = 0, s_qpn = 0, s_psn = 0, s_lid = 0, s_rem_qpn = 0,
     s_rem_psn = 0, s_rem_lid = 0, s_rem_vaddr = 0, s_rem_rkey = 0, s_rdma_buffer = 0, s_rdma_mem_size = 0\<rparr>"

text \<open>\<open>CHECK\<close> and \<open>CHECK_MSG\<close> end the process with code -1.\<close>

abbreviation check :: "bool \<Rightarrow> unit result" where
  "check b \<equiv> assertR b (Exit (-1))"

definition handshake_get_memsize :: "string \<Rightarrow> string \<Rightarrow> srv_context \<Rightarrow> srv_context result" where
  "handshake_get_memsize stack msg s_ctx =
     bindR (check (msg \<noteq> [])) (\<lambda>_.
     let recv_buffer = recv_into stack 1000 msg;
         vs = sscanf_colon Userland [(10, None)] (cstr recv_buffer);
         s = s_ctx\<lparr>s_rdma_mem_size := stored vs 0 (s_rdma_mem_size s_ctx)\<rparr> in
     bindR (check (s_rdma_mem_size s > 0)) (\<lambda>_. Inr s))"

definition store_server :: "u64 list \<Rightarrow> srv_context \<Rightarrow> srv_context" where
  "store_server vs s = s\<lparr>s_rem_vaddr := stored vs 0 (s_rem_vaddr s),
     s_rem_rkey := ucast (stored vs 1 (ucast (s_rem_rkey s))),
     s_rem_qpn := ucast (stored vs 2 (ucast (s_rem_qpn s))),
     s_rem_psn := ucast (stored vs 3 (ucast (s_rem_psn s))),
     s_rem_lid := ucast (stored vs 4 (ucast (s_rem_lid s)))\<rparr>"

definition boot_message :: "srv_context \<Rightarrow> string" where
  "boot_message s = boot_line (s_rdma_buffer s) (s_local_rkey s) (s_qpn s) (s_psn s) (s_lid s)"

definition exchange_bootstrap_data :: "string \<Rightarrow> srv_context \<Rightarrow> (srv_context \<times> string list) result" where
  "exchange_bootstrap_data msg s =
     (let data_to_send = write_str (replicate 1000 NUL) (boot_message s);
          sent = [cstr data_to_send] in
      bindR (check (msg \<noteq> [])) (\<lambda>_.
      Inr (store_server (sscanf_colon Userland boot_fmt (cstr (recv_into (replicate 1000 NUL) 1000 msg))) s, sent)))"

definition server_handshake :: "string \<Rightarrow> srv_context \<Rightarrow> (srv_context \<times> string list) result" where
  "server_handshake msg s = exchange_bootstrap_data msg s"

fun wait_loop :: "string \<Rightarrow> string list \<Rightarrow> string list result" where
  "wait_loop buf [] = Inl Spinning"
| "wait_loop buf (m # ms) =
     (if m = [] then Inl (Exit (-1))
      else let buf' = recv_into buf 1000 m in
           if take 8 (cstr buf') = ''teardown'' then Inr [''done''] else wait_loop buf' ms)"

definition wait_for_tearingdown :: "string \<Rightarrow> string list \<Rightarrow> string list result" where
  "wait_for_tearingdown stack msgs = wait_loop stack msgs"

section \<open>The messages can be read back\<close>

lemma show_digits_no_nul: "2 \<le> base \<Longrightarrow> base \<le> 16 \<Longrightarrow> NUL \<notin> set (show_digits base n)"
  using show_digits_all is_digit_NUL by blast

lemma zero_fill_no_nul: "2 \<le> base \<Longrightarrow> base \<le> 16 \<Longrightarrow> NUL \<notin> set (zero_fill w (show_digits base n))"
  using zero_fill_all is_digit_NUL by blast

lemma boot_line_no_nul: "NUL \<notin> set (boot_line v k q p l)"
  using zero_fill_no_nul [of 16] show_digits_no_nul [of 16] show_digits_no_nul [of 10]
  by (auto simp: boot_line_def colon_def)

definition field_end :: "nat \<Rightarrow> string \<Rightarrow> bool" where
  "field_end base rest \<longleftrightarrow> stops base rest \<and> (rest = [] \<or> hd rest \<notin> {CHR ''x'', CHR ''X''})"

text \<open>
  A receive buffer in which the message \<open>m\<close>, once stored at its start, can be read back:
  what lies behind it up to the next NUL does not continue the number at its end.
\<close>

definition unspoilt :: "nat \<Rightarrow> string \<Rightarrow> string \<Rightarrow> bool" where
  "unspoilt base m buffer \<longleftrightarrow> field_end base (cstr (drop (length m) buffer))"

lemma field_end_colon: "base \<le> 16 \<Longrightarrow> field_end base (colon # cs)"
  by (simp add: field_end_def stops_colon) (simp add: colon_def)

lemma field_end_Nil [simp]: "field_end base []"
  by (simp add: field_end_def stops_def)

lemma scan_number:
  assumes "2 \<le> base" "base \<le> 16" "n < 2 ^ 64" "field_end base rest"
  shows "scan_conv lib base None (show_digits base n @ rest) = Some (of_nat n, rest)"
  using scan_conv_digits [of "show_digits base n" base None rest lib] assms
  by (simp add: show_digits_all digits_value_show field_end_def)

lemma scan_hex16:
  assumes "n < 2 ^ 64" "field_end 16 rest"
  shows "scan_conv lib 16 (Some 16) (zero_fill 16 (show_digits 16 n) @ rest) = Some (of_nat n, rest)"
proof -
  have "length (show_digits 16 n) \<le> 16"
    by (rule length_show_digits) (use assms(1) in simp_all)
  then have "length (zero_fill 16 (show_digits 16 n)) \<le> 16"
    by (simp add: zero_fill_def)
  moreover have "zero_fill 16 (show_digits 16 n) \<noteq> []"
    by (simp add: zero_fill_def)
  ultimately show ?thesis
    using scan_conv_digits [of "zero_fill 16 (show_digits 16 n)" 16 "Some 16" rest lib] assms
    by (simp add: zero_fill_all zero_fill_value field_end_def)
qed

lemma u32_as_u64: "unat (k :: u32) < 2 ^ 64" "(of_nat (unat k) :: u64) = ucast k"
  using unat_u32_bound [of k] by (simp_all add: word_unat_eq_iff unat_of_nat)

lemma scan_u32:
  assumes "2 \<le> base" "base \<le> 16" "field_end base rest"
  shows "scan_conv lib base None (show_digits base (unat (k :: u32)) @ rest) = Some (ucast k, rest)"
  using scan_number [OF assms(1,2) u32_as_u64(1) assms(3)] u32_as_u64(2) by metis

lemma scan_boot_line:
  assumes "field_end 16 rest"
  shows "sscanf_colon lib boot_fmt (boot_line v k q p l @ rest) = [v, ucast k, ucast q, ucast p, ucast l]"
proof -
  have c: "field_end 16 (colon # cs)" "field_end 10 (colon # cs)" for cs
    by (simp_all add: field_end_colon)
  show ?thesis
    using assms unat_u64_bound [of v]
    by (simp add: boot_line_def boot_fmt_def scan_hex16 c scan_u32)
qed

section \<open>The conversation\<close>

lemma ucast_back [simp]: "(ucast (ucast (k :: u32) :: u64) :: u32) = k"
  by (simp add: bit_eq_iff bit_ucast_iff)

lemma store_client_full:
  "store_client [v, ucast k, ucast q, ucast p, ucast l] ctx =
     ctx\<lparr>rem_vaddr := v, rem_rkey := k, rem_qpn := q, rem_psn := p, rem_lid := l\<rparr>"
  by (simp add: store_client_def stored_def)

lemma store_server_full:
  "store_server [v, ucast k, ucast q, ucast p, ucast l] s =
     s\<lparr>s_rem_vaddr := v, s_rem_rkey := k, s_rem_qpn := q, s_rem_psn := p, s_rem_lid := l\<rparr>"
  by (simp add: store_server_def stored_def)

lemma take_cstr: "NUL \<notin> set s \<Longrightarrow> take (length (cstr (write_str buf s))) (write_str buf s) = s"
  by (simp add: cstr_write_str) (simp add: write_str_def)

lemma field_end_NUL: "field_end base (cstr (NUL # cs))"
  by (simp add: cstr_def)

lemma handshake_stores: "\<exists>vs. fst (handshake stack reply ctx) = store_client vs ctx"
  by (auto simp: handshake_def Let_def)

lemma handshake_frame [simp]:
  "rem_mem_size (fst (handshake stack reply ctx)) = rem_mem_size ctx"
  "ctx_psn (fst (handshake stack reply ctx)) = ctx_psn ctx" "ctx_qpn (fst (handshake stack reply ctx)) = ctx_qpn ctx"
  "ctx_lid (fst (handshake stack reply ctx)) = ctx_lid ctx" "ctx_qp (fst (handshake stack reply ctx)) = ctx_qp ctx"
  "ctx_sock (fst (handshake stack reply ctx)) = ctx_sock ctx" "sock_live (fst (handshake stack reply ctx)) = sock_live ctx"
  "outstanding_requests (fst (handshake stack reply ctx)) = outstanding_requests ctx"
  "server_addr (fst (handshake stack reply ctx)) = server_addr ctx"
  "server_port (fst (handshake stack reply ctx)) = server_port ctx"
  using handshake_stores [of stack reply ctx] by (auto simp: store_client_def)

lemma handshake_sends:
  "snd (handshake stack reply ctx) = [show_digits 10 (unat (rem_mem_size ctx)),
     boot_line 0 (ctx_rkey ctx) (ctx_qpn ctx) (ctx_psn ctx) (ctx_lid ctx)]"
  using show_digits_no_nul [of 10] boot_line_no_nul
  by (simp add: handshake_def Let_def send_data_def take_cstr store_client_def)

lemma handshake_reads:
  assumes "length (boot_line v k q p l) \<le> 500"
    and "field_end 16 (cstr (drop (length (boot_line v k q p l)) (write_str stack (show_digits 10 (unat (rem_mem_size ctx))))))"
  shows "fst (handshake stack (boot_line v k q p l) ctx) =
    ctx\<lparr>rem_vaddr := v, rem_rkey := k, rem_qpn := q, rem_psn := p, rem_lid := l\<rparr>"
  using assms by (simp add: handshake_def Let_def receive_data_def recv_into_def cstr_append [OF boot_line_no_nul]
      scan_boot_line store_client_full)

lemma length_join5: "length (join_colon [a, b, c, d, e]) = length a + length b + length c + length d + length e + 4"
  by simp

lemma length_boot_line: "length (boot_line v k q p l) \<le> 54"
proof -
  have "length (show_digits 16 (unat v)) \<le> 16"
    by (rule length_show_digits) (use unat_u64_bound [of v] in simp_all)
  then have "length (zero_fill 16 (show_digits 16 (unat v))) = 16"
    by (simp add: zero_fill_def)
  moreover have "length (show_digits 10 (unat k)) \<le> 10"
    by (rule length_show_digits) (use unat_u32_bound [of k] in simp_all)
  moreover have "length (show_digits 16 (unat x)) \<le> 8" for x :: u32
    by (rule length_show_digits) (use unat_u32_bound [of x] in simp_all)
  from this [of q] this [of p] this [of l] calculation show ?thesis
    unfolding boot_line_def length_join5 by linarith
qed

lemma length_boot_line_ge: "24 \<le> length (boot_line v k q p l)"
proof -
  have "0 < length (show_digits b n)" for b n
    by simp
  moreover have "16 \<le> length (zero_fill 16 (show_digits 16 (unat v)))"
    by (simp add: zero_fill_def)
  moreover note calculation(1)
  from this [of 10 "unat k"] this [of 16 "unat q"] this [of 16 "unat p"] this [of 16 "unat l"] calculation(2)
  show ?thesis
    unfolding boot_line_def length_join5 by linarith
qed

lemma cstr_zeros [simp]: "cstr (replicate n NUL) = []"
  by (cases n) (simp_all add: cstr_def)

lemma clean_stack: "length s < m \<Longrightarrow> field_end b (cstr (drop m (write_str (replicate n NUL) s)))"
  by (simp add: write_str_def drop_Cons')

lemma memsize_scanned:
  assumes "field_end 10 (cstr (drop (length (show_digits 10 (unat n))) stack))"
  shows "handshake_get_memsize stack (show_digits 10 (unat n)) s =
    (if 0 < n then Inr (s\<lparr>s_rdma_mem_size := n\<rparr>) else Inl (Exit (- 1)))"
proof -
  let ?m = "show_digits 10 (unat n)"
  have "length ?m \<le> 20"
    by (rule length_show_digits) (use unat_u64_bound [of n] in simp_all)
  then have "cstr (recv_into stack 1000 ?m) = ?m @ cstr (drop (length ?m) stack)"
    using show_digits_no_nul [of 10 "unat n"] by (simp add: recv_into_def Let_def cstr_append)
  then have "sscanf_colon Userland [(10, None)] (cstr (recv_into stack 1000 ?m)) = [n]"
    using scan_number [of 10 "unat n" "cstr (drop (length ?m) stack)" Userland] assms unat_u64_bound [of n] by simp
  then show ?thesis
    by (simp add: handshake_get_memsize_def stored_def word_gt_0)
qed

lemma memsize_reads:
  assumes "0 < n" and "field_end 10 (cstr (drop (length (show_digits 10 (unat n))) stack))"
  shows "handshake_get_memsize stack (show_digits 10 (unat n)) s = Inr (s\<lparr>s_rdma_mem_size := n\<rparr>)"
  using memsize_scanned [OF assms(2)] assms(1) by simp

lemma exchange_reads:
  "exchange_bootstrap_data (boot_line v k q p l) s =
     Inr (s\<lparr>s_rem_vaddr := v, s_rem_rkey := k, s_rem_qpn := q, s_rem_psn := p, s_rem_lid := l\<rparr>, [boot_message s])"
proof -
  let ?b = "boot_line v k q p l"
  have len: "length ?b < 1000" and ne: "?b \<noteq> []"
    using length_boot_line [of v k q p l] by (simp_all add: boot_line_def)
  then obtain j where "1000 - length ?b = Suc j"
    by (cases "1000 - length ?b") auto
  then have "cstr (recv_into (replicate 1000 NUL) 1000 ?b) = ?b"
    using len by (simp add: recv_into_def cstr_append [OF boot_line_no_nul]) (simp add: cstr_def)
  moreover have "sscanf_colon Userland boot_fmt ?b = [v, ucast k, ucast q, ucast p, ucast l]"
    using scan_boot_line [of "[]" Userland v k q p l] by simp
  moreover have "cstr (write_str (replicate 1000 NUL) (boot_message s)) = boot_message s"
    by (rule cstr_write_str) (simp add: boot_message_def boot_line_no_nul)
  ultimately show ?thesis
    using ne by (simp add: exchange_bootstrap_data_def Let_def store_server_full)
qed

text \<open>Empty receives leave the buffer alone, and the client sends its request again and again.\<close>

lemma teardown_once: "teardown stack (''done'' # ms) = Inr ([''teardown''], ms)"
  by (simp add: teardown_def send_data_def receive_data_def take_cstr) (simp add: recv_into_def cstr_def)

lemma teardown_loop_silent:
  "take 4 (cstr data) \<noteq> ''done'' \<Longrightarrow> teardown_loop data (replicate n []) sent = Inl Spinning"
  by (induction n arbitrary: sent) (simp_all add: receive_data_def recv_into_def Let_def)

lemma teardown_silent: "teardown stack (replicate n []) = Inl Spinning"
  unfolding teardown_def by (rule teardown_loop_silent) (simp add: cstr_write_str)

section \<open>Buffers that do not spoil a message\<close>

lemma unspoilt_zeros [simp]: "unspoilt base m (replicate n NUL)"
  by (simp only: unspoilt_def drop_replicate cstr_zeros field_end_Nil)

lemma length_memsize: "length (show_digits 10 (unat (n :: u64))) \<le> 20"
  by (rule length_show_digits) (use unat_u64_bound [of n] in simp_all)

text \<open>The client's buffer still holds the memory size it sent, which is shorter than the answer.\<close>

lemma unspoilt_written:
  fixes n :: u64
  assumes "unspoilt 16 (boot_message s) stack"
  shows "field_end 16 (cstr (drop (length (boot_message s)) (write_str stack (show_digits 10 (unat n)))))"
proof -
  have "length (show_digits 10 (unat n)) < length (boot_message s)"
    using length_memsize [of n] length_boot_line_ge [of "s_rdma_buffer s" "s_local_rkey s" "s_qpn s" "s_psn s" "s_lid s"]
    unfolding boot_message_def by linarith
  then have "drop (length (boot_message s)) (write_str stack (show_digits 10 (unat n))) = drop (length (boot_message s)) stack"
    by (cases "length (boot_message s)") (simp_all add: write_str_def Suc_diff_le)
  then show ?thesis
    using assms by (simp add: unspoilt_def)
qed

section \<open>Properties\<close>



text \<open>
  C31. The two ends part: whatever their stacks hold, what the client's \<open>teardown\<close> sends
  makes the server's \<open>wait_for_tearingdown\<close> return after one message, its answer
  makes \<open>teardown\<close> return after one round, and neither loop goes on.
\<close>
theorem teardown_meets:
  "\<exists>sent replies. teardown stack replies = Inr (sent, []) \<and> wait_for_tearingdown srv_stack sent = Inr replies \<and>
     length sent = 1 \<and> length replies = 1"
proof (intro exI conjI)
  show "teardown stack [''done''] = Inr ([''teardown''], [])"
    by (rule teardown_once)
  show "wait_for_tearingdown srv_stack [''teardown''] = Inr [''done'']"
    by (simp add: wait_for_tearingdown_def recv_into_def cstr_def)
qed simp_all

text \<open>
  \<open>teardown\<close> sends from the buffer into which it receives: after an answer other than
  \<open>done\<close> its next message is no longer \<open>teardown\<close> but the answer, followed by the rest
  of the old text.
\<close>
lemma teardown_garbles:
  "teardown stack [''no'', ''done''] = Inr ([''teardown'', ''noardown''], [])"
  by (simp add: teardown_def send_data_def receive_data_def take_cstr)
    (simp add: recv_into_def cstr_def write_str_def send_data_def receive_data_def)

text \<open>
  The client does not terminate the text it receives. When the stack behind the
  server's line happens to hold a hexadecimal digit, that digit becomes part of the
  last number and the client addresses the wrong port.
\<close>
lemma handshake_stale:
  assumes "drop (length (boot_message s)) (write_str stack (show_digits 10 (unat (rem_mem_size ctx)))) = CHR ''f'' # NUL # rest"
    and "0 < s_lid s" and "unat (s_lid s) < 2 ^ 28"
  shows "rem_lid (fst (handshake stack (boot_message s) ctx)) = 16 * s_lid s + 15"
proof -
  let ?l = "16 * s_lid s + 15"
  let ?b = "boot_line (s_rdma_buffer s) (s_local_rkey s) (s_qpn s) (s_psn s)"
  have l: "unat ?l = 16 * unat (s_lid s) + 15"
    using assms(3) by (simp add: unat_word_ariths)
  have "0 < unat (s_lid s)"
    using assms(2) by (simp add: word_less_nat_alt)
  then have "show_digits 16 (unat ?l) = show_digits 16 (unat (s_lid s)) @ [digit_char 15]"
    unfolding l by (simp add: show_digits_step [of 16])
  moreover have "digit_char 15 = CHR ''f''"
    by code_simp
  ultimately have b: "?b ?l = boot_message s @ ''f''"
    by (simp add: boot_line_def boot_message_def)
  have "length (boot_message s) \<le> 500"
    unfolding boot_message_def by (rule order_trans [OF length_boot_line]) simp
  then have "recv_into (write_str stack (show_digits 10 (unat (rem_mem_size ctx)))) 500 (boot_message s) = ?b ?l @ NUL # rest"
    using assms(1) by (simp add: recv_into_def b)
  then have "cstr (recv_into (write_str stack (show_digits 10 (unat (rem_mem_size ctx)))) 500 (boot_message s)) = ?b ?l"
    by (simp add: cstr_append [OF boot_line_no_nul]) (simp add: cstr_def)
  then show ?thesis
    using scan_boot_line [of "[]" Kernel] by (simp add: handshake_def receive_data_def store_client_full Let_def)
qed

lemma handshake_stale_instance:
  "\<exists>stack. rem_lid (fst (handshake stack (boot_message (zero_context\<lparr>s_lid := 3\<rparr>)) (zero_ctx\<lparr>rem_mem_size := 5\<rparr>))) = 63"
proof -
  let ?s = "zero_context\<lparr>s_lid := 3\<rparr>" and ?ctx = "zero_ctx\<lparr>rem_mem_size := 5\<rparr>"
  let ?n = "length (boot_message ?s)"
  let ?stack = "replicate ?n NUL @ ''f'' @ [NUL]"
  have sz: "unat (rem_mem_size ?ctx) = 5"
    by simp
  have d: "show_digits 10 (unat (rem_mem_size ?ctx)) = ''5''"
    unfolding sz by code_simp
  have "2 \<le> ?n"
    using length_boot_line_ge [of "s_rdma_buffer ?s" "s_local_rkey ?s" "s_qpn ?s" "s_psn ?s" "s_lid ?s"]
    unfolding boot_message_def by linarith
  then have "drop ?n (write_str ?stack (show_digits 10 (unat (rem_mem_size ?ctx)))) = CHR ''f'' # NUL # []"
    unfolding d by (cases "boot_message ?s"; cases "tl (boot_message ?s)") (simp_all add: write_str_def)
  then show ?thesis
    using handshake_stale [of ?s ?stack ?ctx "[]"] by auto
qed

end
