(* ===== verification/Address.thy ===== *)
theory Address
  imports Text_Format
begin

unbundle bit_operations_syntax

text \<open>
  From the text of an address to the address itself: \<open>translate_ip\<close> and
  \<open>create_address\<close> of \<open>src/rdma_library.c\<close> (lines 251 to 288), and the conversion
  to network byte order with which \<open>connect\<close> fills its \<open>sockaddr_in\<close> (lines 310 to
  313). A number in network byte order is kept as its bytes in memory, so that the
  model does not depend on the byte order of the host.
\<close>

section \<open>The code\<close>

text \<open>
  \<open>vals\<close> is an uninitialised local of the function; \<open>junk\<close> is what it holds at the
  start. The function fails only when no number at all can be read.
\<close>

definition translate_ip :: "int list \<Rightarrow> string \<Rightarrow> u8 list \<Rightarrow> int \<times> u8 list" where
  "translate_ip junk ip_addr IP =
     (let read = sscanf_dots 4 ip_addr; ret = length read; vals = read @ drop ret junk in
      if \<not> 0 < ret then (- 1, IP)
      else (0, IP[0 := word_of_int (vals ! 0), 1 := word_of_int (vals ! 1),
                  2 := word_of_int (vals ! 2), 3 := word_of_int (vals ! 3)]))"

fun create_loop :: "nat \<Rightarrow> u8 list \<Rightarrow> u32 \<Rightarrow> u32" where
  "create_loop i [] addr = addr"
| "create_loop i (b # ip) addr =
     (let addr' = addr + ucast b in if i = 3 then addr' else create_loop (Suc i) ip (push_bit 8 addr'))"

definition create_address :: "u8 list \<Rightarrow> u32" where
  "create_address ip = create_loop 0 ip 0"

definition htonl :: "u32 \<Rightarrow> u8 list" where
  "htonl x = [ucast (drop_bit 24 x), ucast (drop_bit 16 x), ucast (drop_bit 8 x), ucast x]"

definition htons :: "16 word \<Rightarrow> u8 list" where
  "htons x = [ucast (drop_bit 8 x), ucast x]"

section \<open>The number is the address\<close>

lemma ucast8_bound: "unat (b :: u8) < 256"
  using unsigned_less [of b] by simp

text \<open>Adding a byte below a shifted word is the same as or-ing it in.\<close>

lemma shift_add_byte: "push_bit 8 (x :: u32) + ucast (b :: u8) = push_bit 8 x OR ucast b"
  by (rule disjunctive_add)
    (auto simp: bit_push_bit_iff bit_ucast_iff dest: bit_imp_le_length)

lemma create_address_bits:
  "create_address [a, b, c, d] =
     push_bit 24 (ucast a) OR push_bit 16 (ucast b) OR push_bit 8 (ucast c) OR ucast d"
  by (simp add: create_address_def shift_add_byte push_bit_or or.assoc)

lemma htonl_create_address: "htonl (create_address [a, b, c, d]) = [a, b, c, d]"
proof -
  have "n < 8" if "bit (x :: u8) n" for x n
    using bit_imp_le_length [OF that] by simp
  then show ?thesis
    unfolding create_address_bits htonl_def
    by (auto simp: bit_eq_iff bit_ucast_iff bit_drop_bit_eq bit_or_iff bit_push_bit_iff dest: bit_imp_le_length)
qed

section \<open>Dotted decimal text\<close>

definition dotted :: "u8 \<Rightarrow> u8 \<Rightarrow> u8 \<Rightarrow> u8 \<Rightarrow> string" where
  "dotted a b c d = show_digits 10 (unat a) @ dot # show_digits 10 (unat b) @ dot #
     show_digits 10 (unat c) @ dot # show_digits 10 (unat d)"

lemma stops_dot: "stops 10 (dot # cs)"
  by (simp add: stops_def dot_def is_digit_def digit_val_def)

lemma scan_byte:
  assumes "stops 10 rest"
  shows "scan_signed (show_digits 10 (unat (b :: u8)) @ rest) = Some (uint b, rest)"
  using scan_signed_show [OF _ assms, of "unat b"] ucast8_bound [of b] by simp

lemma sscanf_dots_byte:
  "sscanf_dots (Suc k) (show_digits 10 (unat (b :: u8)) @ dot # cs) = uint b # sscanf_dots k cs"
  "sscanf_dots (Suc k) (show_digits 10 (unat b)) = [uint b]"
  using scan_byte [of "[]" b] by (simp_all add: scan_byte stops_dot stops_def [of _ "[]"])

lemma sscanf_dots_4: "sscanf_dots 4 cs = sscanf_dots (Suc (Suc (Suc (Suc 0)))) cs"
  by (simp add: eval_nat_numeral)

lemma sscanf_dotted: "sscanf_dots 4 (dotted a b c d) = [uint a, uint b, uint c, uint d]"
  unfolding dotted_def sscanf_dots_4 sscanf_dots_byte by (rule refl)

lemma translate_dotted: "translate_ip junk (dotted a b c d) [0, 0, 0, 0] = (0, [a, b, c, d])"
  unfolding translate_ip_def sscanf_dotted by (simp add: numeral_eq_Suc)

section \<open>Properties\<close>

text \<open>
  The address a client connects to is the one that was written: the dotted
  decimal text of four bytes is read back as these bytes whatever the stack held, and
  \<open>create_address\<close> followed by \<open>htonl\<close> puts them into memory in the order in which they
  were written, for all addresses.
\<close>
lemma translate_ip_roundtrip:
  "translate_ip junk (dotted a b c d) [0, 0, 0, 0] = (0, [a, b, c, d]) \<and>
   htonl (create_address (snd (translate_ip junk (dotted a b c d) [0, 0, 0, 0]))) = [a, b, c, d]"
  by (simp add: translate_dotted htonl_create_address)

text \<open>
  An address of fewer than four numbers is accepted: the missing bytes are
  whatever the uninitialised local array held.
\<close>
lemma translate_ip_short:
  "translate_ip [j0, j1, j2, j3] (show_digits 10 (unat a) @ dot # show_digits 10 (unat b)) [0, 0, 0, 0] =
     (0, [a, b, word_of_int j2, word_of_int j3])"
  unfolding translate_ip_def sscanf_dots_4 sscanf_dots_byte by (simp add: numeral_eq_Suc)

end
