(* ===== verification/Client_Setup.thy ===== *)
theory Client_Setup
  imports Control Handshake Address
begin

unbundle bit_operations_syntax

text \<open>
  The client's side of a connection, from \<open>src/rdma_library.c\<close>: the device singleton
  (lines 28 to 39 and 173 to 249), \<open>connect\<close> and \<open>reconnect\<close> (292 to 330), \<open>modify_qp\<close>
  (450 to 512), \<open>rdma_unmap_address\<close> and \<open>rdma_setup\<close> (528 to 557), \<open>rdma_exit\<close> and
  \<open>rdma_init\<close> (703 to 804).

  Handlers that only print (\<open>async_event_handler\<close>, \<open>remove_device\<close> and the handlers
  of completion queue events) do nothing here.
\<close>

section \<open>Calls of the kernel\<close>

record sockaddr_in =
  sin_port :: "u8 list"
  sin_addr :: "u8 list"

text \<open>The last five release what the code obtains; it never calls them.\<close>

datatype kcall =
    Register_Client | Unregister_Client
  | Query_Port ptr | Query_Device ptr | Query_Gid ptr
  | Register_Event_Handler ptr | Unregister_Event_Handler
  | Kmalloc_Ctx | Kfree_Ctx | Kmalloc nat
  | Vmalloc_Device | Vfree ptr | Vfree_Device
  | Alloc_Pd ptr | Create_Cq ptr nat | Req_Notify_Cq ptr
  | Create_Qp ptr qp_init | Modify_Qp ptr qp_attr "qp_mask list"
  | Get_Dma_Mr ptr "access list" | Dma_Map ptr nat | Dma_Unmap u64 int
  | Sock_Create | Sock_Connect ptr sockaddr_in | Sock_Release ptr | Sock_Send ptr string | Sock_Recv ptr string
  | Blk_Init_Queue mode | Set_Block_Sizes ptr | Register_Blkdev string | Unregister_Blkdev int string
  | Alloc_Disk | Set_Capacity ptr u64 | Add_Disk ptr ptr | Del_Gendisk ptr | Put_Disk ptr | Blk_Cleanup_Queue ptr
  | Proc_Create | Remove_Proc_Entry
  | Kfree ptr | Ib_Dealloc_Pd ptr | Ib_Destroy_Cq ptr | Ib_Destroy_Qp ptr | Ib_Dereg_Mr ptr

type_synonym ktrace = "kcall event list"

text \<open>
  Besides the answers of the calls: the devices present, what \<open>ib_query_port\<close> stores,
  whether a socket has a connect operation, what stands behind the pointers the
  verbs return, the random number generator, what the following receives deliver,
  what uninitialised locals hold, and the addresses \<open>vmalloc\<close> gives for a pool.
\<close>

record kworld = "kcall world" +
  w_devices :: "ptr list"
  w_port :: "ktrace \<Rightarrow> ptr \<Rightarrow> port_attr"
  w_connect_op :: "ptr \<Rightarrow> bool"
  w_qp_num :: "ptr \<Rightarrow> u32"
  w_mr_keys :: "ptr \<Rightarrow> ib_mr"
  w_map_error :: "u64 \<Rightarrow> bool"
  w_random :: "ktrace \<Rightarrow> u32"
  w_inbox :: "ktrace \<Rightarrow> string list"
  w_chars :: "ktrace \<Rightarrow> string"
  w_ints :: "ktrace \<Rightarrow> int list"
  w_vm :: "ktrace \<Rightarrow> nat \<Rightarrow> ptr"
  w_batch :: batch_request

section \<open>The device singleton\<close>

record ib_device_singleton =
  ready_to_use :: bool
  sg_dev :: ptr
  sg_attr :: port_attr
  sg_lid :: u32

definition zero_singleton :: ib_device_singleton where
  "zero_singleton = \<lparr>ready_to_use = False, sg_dev = 0, sg_attr = \<lparr>pa_active_mtu = 0, pa_lid = 0\<rparr>, sg_lid = 0\<rparr>"

definition populate_port_data :: "kworld \<Rightarrow> ib_device_singleton \<Rightarrow> ktrace \<Rightarrow> int \<times> ib_device_singleton \<times> ktrace" where
  "populate_port_data W sg tr =
     (let (retval, tr1) = ask_int W (Query_Port (sg_dev sg)) tr;
          sg1 = sg\<lparr>sg_attr := w_port W tr (sg_dev sg)\<rparr> in
      if \<not> retval = 0 then (- 1, sg1, tr1)
      else if \<not> pa_active_mtu (sg_attr sg1) = 5 then (- 1, sg1, tr1)
      else (0, sg1\<lparr>sg_lid := ucast (pa_lid (sg_attr sg1))\<rparr>, tell (Query_Gid (sg_dev sg1)) tr1))"

definition add_device :: "kworld \<Rightarrow> ptr \<Rightarrow> ib_device_singleton \<times> ktrace \<Rightarrow> ib_device_singleton \<times> ktrace" where
  "add_device W dev = (\<lambda>(sg, tr).
     let (retval, tr1) = ask_int W (Query_Port dev) tr;
         sg1 = sg\<lparr>sg_attr := w_port W tr dev\<rparr> in
     if \<not> retval = 0 then (sg1, tr1)
     else if pa_active_mtu (sg_attr sg1) = 5
     then (sg1\<lparr>sg_dev := dev, ready_to_use := True\<rparr>,
           tell (Register_Event_Handler dev) (tell (Query_Device dev) tr1))
     else (sg1, tr1))"

text \<open>\<open>ib_register_client\<close> calls \<open>add\<close> for every device present.\<close>

definition init_ib :: "kworld \<Rightarrow> ib_device_singleton \<times> ktrace \<Rightarrow> ib_device_singleton \<times> ktrace" where
  "init_ib W = (\<lambda>(sg, tr). fold (add_device W) (w_devices W) (sg, tell Register_Client tr))"

definition rdma_library_ready :: "ib_device_singleton \<Rightarrow> bool" where
  "rdma_library_ready sg = ready_to_use sg"

definition rdma_library_init :: "kworld \<Rightarrow> ktrace \<Rightarrow> int \<times> ib_device_singleton \<times> ktrace" where
  "rdma_library_init W tr = (0, init_ib W (zero_singleton, tr))"

definition rdma_library_exit :: "ktrace \<Rightarrow> int \<times> ktrace" where
  "rdma_library_exit tr = (0, tell Unregister_Client (tell Unregister_Event_Handler tr))"

section \<open>Connecting\<close>

definition connect :: "kworld \<Rightarrow> string \<Rightarrow> int \<Rightarrow> rdma_ctx \<Rightarrow> ktrace \<Rightarrow> (int \<times> rdma_ctx \<times> ktrace) result" where
  "connect W ip_addr port ctx0 tr =
     bindR (assertR (length ip_addr < 100) Out_Of_Bounds) (\<lambda>_.
     let ctx = ctx0\<lparr>server_addr := ip_addr, server_port := port\<rparr>;
         (retval, IP) = translate_ip (w_ints W tr) ip_addr [0, 0, 0, 0] in
     if retval \<noteq> 0 then Inr (- 1, ctx, tr)
     else
       let (retval, tr1) = ask_int W Sock_Create tr in
       if \<not> retval = 0 then Inr (- 1, ctx, tr1)
       else
         let sock = w_ptr W tr Sock_Create; ctx = ctx\<lparr>ctx_sock := sock, sock_live := True\<rparr>;
             servaddr = \<lparr>sin_port = htons (word_of_int port), sin_addr = htonl (create_address IP)\<rparr> in
         if \<not> sock \<noteq> 0 then Inr (- 1, ctx, tr1)
         else if \<not> w_connect_op W sock then Inr (- 1, ctx, tr1)
         else
           let (retval, tr2) = ask_int W (Sock_Connect sock servaddr) tr1 in
           if \<not> retval = 0 then Inr (- 1, ctx, tr2) else Inr (0, ctx, tr2))"

definition reconnect :: "kworld \<Rightarrow> rdma_ctx \<Rightarrow> ktrace \<Rightarrow> (int \<times> rdma_ctx \<times> ktrace) result" where
  "reconnect W ctx tr = connect W (server_addr ctx) (server_port ctx) ctx tr"

text \<open>
  The handshake and the teardown on the socket of the context. \<open>rdma_init\<close> shakes hands
  only on a socket that was connected; \<open>rdma_exit\<close> says goodbye on whatever socket the
  context names, which may be none, or one that was released long ago.
\<close>

definition first_message :: "string list \<Rightarrow> string" where
  "first_message ms = (case ms of [] \<Rightarrow> [] | m # _ \<Rightarrow> m)"

definition client_handshake :: "kworld \<Rightarrow> rdma_ctx \<Rightarrow> ktrace \<Rightarrow> int \<times> rdma_ctx \<times> ktrace" where
  "client_handshake W ctx tr =
     (let m = first_message (w_inbox W tr); (ctx', sent) = handshake (w_chars W tr) m ctx in
      (0, ctx', tr @ [V (Sock_Send (ctx_sock ctx) (sent ! 0)), V (Sock_Recv (ctx_sock ctx) m),
                      V (Sock_Send (ctx_sock ctx) (sent ! 1))]))"

definition client_teardown :: "kworld \<Rightarrow> rdma_ctx \<Rightarrow> ktrace \<Rightarrow> ktrace result" where
  "client_teardown W ctx tr =
     bindR (assertR (ctx_sock ctx \<noteq> 0) Null_Deref) (\<lambda>_.
     bindR (assertR (sock_live ctx) Use_After_Free) (\<lambda>_.
     bindR (teardown (w_chars W tr) (w_inbox W tr)) (\<lambda>(sent, left).
     Inr (tr @ concat (map2 (\<lambda>s m. [V (Sock_Send (ctx_sock ctx) s), V (Sock_Recv (ctx_sock ctx) m)])
            sent (w_inbox W tr))))))"

section \<open>The queue pair\<close>

definition init_attr :: qp_change where
  "init_attr = (zero_attr\<lparr>qa_state := QPS_INIT, qa_pkey_index := 0, qa_port_num := 1,
       qa_access_flags := [REMOTE_WRITE, REMOTE_READ, REMOTE_ATOMIC]\<rparr>,
     [QP_STATE, QP_PKEY_INDEX, QP_PORT, QP_ACCESS_FLAGS])"

definition rtr_attr :: "int \<Rightarrow> rdma_ctx \<Rightarrow> qp_change" where
  "rtr_attr mtu ctx = (zero_attr\<lparr>qa_state := QPS_RTR, qa_path_mtu := mtu, qa_dest_qp_num := rem_qpn ctx,
       qa_rq_psn := rem_psn ctx, qa_max_dest_rd_atomic := 1, qa_min_rnr_timer := 12,
       qa_dlid := ucast (rem_lid ctx), qa_sl := 0, qa_src_path_bits := 0, qa_ah_port_num := 1\<rparr>,
     [QP_STATE, QP_AV, QP_PATH_MTU, QP_DEST_QPN, QP_RQ_PSN, QP_MAX_DEST_RD_ATOMIC, QP_MIN_RNR_TIMER])"

text \<open>The attributes of the second change are still in \<open>attr\<close>.\<close>

definition rts_attr :: "int \<Rightarrow> rdma_ctx \<Rightarrow> qp_change" where
  "rts_attr mtu ctx = ((fst (rtr_attr mtu ctx))\<lparr>qa_state := QPS_RTS, qa_timeout := 14, qa_retry_cnt := 7,
       qa_rnr_retry := 6, qa_sq_psn := ctx_psn ctx, qa_max_rd_atomic := 1\<rparr>,
     [QP_STATE, QP_TIMEOUT, QP_RETRY_CNT, QP_RNR_RETRY, QP_SQ_PSN, QP_MAX_QP_RD_ATOMIC])"

definition modify_call :: "ptr \<Rightarrow> qp_change \<Rightarrow> kcall" where
  "modify_call q c = Modify_Qp q (fst c) (snd c)"

definition modify_qp :: "kworld \<Rightarrow> ib_device_singleton \<Rightarrow> rdma_ctx \<Rightarrow> ktrace \<Rightarrow> int \<times> ktrace" where
  "modify_qp W sg ctx tr =
     (let (retval, tr1) = ask_int W (modify_call (ctx_qp ctx) init_attr) tr in
      if \<not> retval = 0 then (- 1, tr1)
      else
        let mtu = pa_active_mtu (sg_attr sg);
            (retval, tr2) = ask_int W (modify_call (ctx_qp ctx) (rtr_attr mtu ctx)) tr1 in
        if \<not> retval = 0 then (- 1, tr2)
        else
          let (retval, tr3) = ask_int W (modify_call (ctx_qp ctx) (rts_attr mtu ctx)) tr2 in
          if \<not> retval = 0 then (- 1, tr3) else (0, tr3))"

definition rdma_unmap_address :: "u64 \<Rightarrow> int \<Rightarrow> ktrace \<Rightarrow> ktrace" where
  "rdma_unmap_address addr len tr = tell (Dma_Unmap addr len) tr"

definition RDMA_BUFFER_SIZE :: nat where
  "RDMA_BUFFER_SIZE = 1024 * 1024"

definition rdma_setup :: "kworld \<Rightarrow> ib_device_singleton \<Rightarrow> rdma_ctx \<Rightarrow> ktrace \<Rightarrow> int \<times> rdma_ctx \<times> ktrace" where
  "rdma_setup W sg ctx0 tr =
     (let (buf, tr1) = ask_ptr W (Kmalloc RDMA_BUFFER_SIZE) tr; ctx = ctx0\<lparr>rdma_recv_buffer := buf\<rparr> in
      if \<not> buf \<noteq> 0 then (- 1, ctx, tr1)
      else
        let (mr, tr2) = ask_ptr W (Get_Dma_Mr (ctx_pd ctx) [REMOTE_READ, REMOTE_WRITE, LOCAL_WRITE]) tr1 in
        if \<not> mr \<noteq> 0 then (- 1, ctx\<lparr>ctx_mr := None\<rparr>, tr2)
        else
          let keys = w_mr_keys W mr; ctx = ctx\<lparr>ctx_mr := Some keys, ctx_rkey := mr_rkey keys\<rparr>;
              (dma, tr3) = ask_ptr W (Dma_Map buf RDMA_BUFFER_SIZE) tr2; ctx = ctx\<lparr>ctx_dma_addr := dma\<rparr> in
          if \<not> \<not> w_map_error W dma then (- 1, ctx, tr3)
          else (0, ctx, snd (modify_qp W sg ctx tr3)))"

section \<open>Opening and closing a connection\<close>

text \<open>
  The objects of a connection (lines 726 to 765): \<open>None\<close> when the function returns
  \<open>NULL\<close>. The result of \<open>ib_create_qp\<close> is not checked.
\<close>

definition rdma_create :: "conf \<Rightarrow> kworld \<Rightarrow> int \<Rightarrow> ib_device_singleton \<Rightarrow> ktrace \<Rightarrow> rdma_ctx option \<times> ktrace" where
  "rdma_create C W npages sg tr =
     (let (p, tr) = ask_ptr W Kmalloc_Ctx tr in
      if p = 0 then (None, tr)
      else
        let ctx = zero_ctx\<lparr>rem_mem_size := word_of_int npages * (1024 * 4)\<rparr>;
            (pd, tr) = ask_ptr W (Alloc_Pd (sg_dev sg)) tr in
        if \<not> pd \<noteq> 0 then (None, tr)
        else
          let (scq, tr) = ask_ptr W (Create_Cq (sg_dev sg) (CQE_SIZE C)) tr;
              (rcq, tr) = ask_ptr W (Create_Cq (sg_dev sg) (CQE_SIZE C)) tr in
          if \<not> scq \<noteq> 0 then (None, tr)
          else if \<not> rcq \<noteq> 0 then (None, tr)
          else
            let (r, tr) = ask_int W (Req_Notify_Cq rcq) tr in
            if \<not> r = 0 then (None, tr)
            else
              let (r, tr) = ask_int W (Req_Notify_Cq scq) tr in
              if \<not> r = 0 then (None, tr)
              else
                let (q, tr) = ask_ptr W (Create_Qp pd
                      \<lparr>qi_send_cq = scq, qi_recv_cq = rcq, qi_max_send_wr = CQE_SIZE C, qi_max_recv_wr = CQE_SIZE C,
                       qi_max_send_sge = 1, qi_max_recv_sge = 1, qi_max_inline_data = 0, qi_signal_all = True\<rparr>) tr in
                (Some (ctx\<lparr>ctx_pd := pd, send_cq := scq, recv_cq := rcq, ctx_qp := q\<rparr>), tr))"

definition rdma_init :: "conf \<Rightarrow> kworld \<Rightarrow> int \<Rightarrow> string \<Rightarrow> int \<Rightarrow> int \<Rightarrow> ib_device_singleton \<Rightarrow> ktrace \<Rightarrow>
    (rdma_ctx option \<times> ib_device_singleton \<times> ktrace) result" where
  "rdma_init C W npages ip_addr port mem_pool_size sg tr =
     (case rdma_create C W npages sg tr of
        (None, tr1) \<Rightarrow> Inr (None, sg, tr1)
      | (Some ctx1, tr1) \<Rightarrow>
          bindR (connect W ip_addr port ctx1 tr1) (\<lambda>(retval, ctx2, tr2).
          if retval \<noteq> 0 then Inr (None, sg, tr2)
          else
            let (retval, sg1, tr3) = populate_port_data W sg tr2 in
            if retval \<noteq> 0 then Inr (None, sg1, tr3)
            else
              bindR (assertR (ctx_qp ctx2 \<noteq> 0) Null_Deref) (\<lambda>_.
              let ctx3 = ctx2\<lparr>ctx_lid := ucast (pa_lid (sg_attr sg1)), ctx_qpn := w_qp_num W (ctx_qp ctx2),
                              ctx_psn := w_random W tr3 AND 0xffffff\<rparr>;
                  (retval, ctx4, tr4) = client_handshake W ctx3 tr3 in
              if retval \<noteq> 0 then Inr (None, sg1, tr4)
              else
                let (retval, ctx5, tr5) = rdma_setup W sg1 ctx4 tr4 in
                if retval \<noteq> 0 then Inr (None, sg1, tr5)
                else
                  let tr6 = tell (Sock_Release (ctx_sock ctx5)) tr5 in
                  bindR (get_batch_request_pool C (w_vm W tr6) (w_batch W) mem_pool_size) (\<lambda>pool.
                  Inr (Some (ctx5\<lparr>sock_live := False, ctx_pool := Some pool\<rparr>), sg1, tr6)))))"

definition rdma_exit :: "kworld \<Rightarrow> rdma_ctx \<Rightarrow> ktrace \<Rightarrow> (int \<times> ktrace) result" where
  "rdma_exit W ctx0 tr =
     bindR (reconnect W ctx0 tr) (\<lambda>(retval, ctx, tr1).
     bindR (client_teardown W ctx tr1) (\<lambda>tr2.
     if \<not> ctx_sock ctx \<noteq> 0 then Inr (- 1, tr2)
     else
       let tr3 = tell (Sock_Release (ctx_sock ctx)) tr2 in
       bindR (case ctx_pool ctx of None \<Rightarrow> Inl Null_Deref | Some p \<Rightarrow> Inr p) (\<lambda>p.
       Inr (0, tell Kfree_Ctx (tr3 @ map (\<lambda>a. V (Vfree a)) (destroy_batch_request_pool p))))))"

end
