(* ===== verification/Client_Correct.thy ===== *)
theory Client_Correct
  imports Client_Setup
begin

unbundle bit_operations_syntax

text \<open>
  The client's set-up code at work: which device the library settles on, which
  address it connects to, that the queue pair goes through its states in order, and
  what a context returned by \<open>rdma_init\<close> holds. \<open>kind_world\<close> describes surroundings in
  which no call fails; there \<open>rdma_init\<close> and \<open>rdma_exit\<close> are shown to come back.
\<close>

section \<open>The device singleton\<close>

text \<open>
  The port data of a device that never changes its mind: the answers do not depend on
  the trace.
\<close>

definition steady :: "kworld \<Rightarrow> (ptr \<Rightarrow> int) \<Rightarrow> (ptr \<Rightarrow> port_attr) \<Rightarrow> bool" where
  "steady W ret port \<longleftrightarrow> (\<forall>tr d. w_int W tr (Query_Port d) = ret d \<and> w_port W tr d = port d)"

definition usable :: "(ptr \<Rightarrow> int) \<Rightarrow> (ptr \<Rightarrow> port_attr) \<Rightarrow> ptr \<Rightarrow> bool" where
  "usable ret port d \<longleftrightarrow> ret d = 0 \<and> pa_active_mtu (port d) = 5"

lemma add_device_steady:
  assumes "steady W ret port"
  shows "fst (add_device W d (sg, tr)) =
    (if usable ret port d then sg\<lparr>sg_attr := port d, sg_dev := d, ready_to_use := True\<rparr> else sg\<lparr>sg_attr := port d\<rparr>)"
  using assms by (simp add: add_device_def steady_def usable_def ask_simps Let_def)

lemma add_devices_steady:
  assumes "steady W ret port"
  shows "(ready_to_use (fst (fold (add_device W) ds (sg, tr))) \<longleftrightarrow>
      ready_to_use sg \<or> filter (usable ret port) ds \<noteq> []) \<and>
    sg_dev (fst (fold (add_device W) ds (sg, tr))) =
      (if filter (usable ret port) ds = [] then sg_dev sg else last (filter (usable ret port) ds))"
proof (induction ds arbitrary: sg tr)
  case (Cons d ds)
  obtain sg1 tr1 where s1: "add_device W d (sg, tr) = (sg1, tr1)"
    by (cases "add_device W d (sg, tr)")
  have "sg1 = (if usable ret port d then sg\<lparr>sg_attr := port d, sg_dev := d, ready_to_use := True\<rparr>
      else sg\<lparr>sg_attr := port d\<rparr>)"
    using add_device_steady [OF assms, of d sg tr] s1 by simp
  then show ?case
    using Cons.IH [of sg1 tr1] s1 by simp
qed simp

section \<open>The queue pair\<close>

text \<open>The changes of a queue pair that succeeded, in the order of a trace.\<close>

definition ok_change :: "ptr \<Rightarrow> kcall event \<Rightarrow> qp_change list" where
  "ok_change q e = (case e of I c r \<Rightarrow>
       (case c of Modify_Qp q' a m \<Rightarrow> if q' = q \<and> r = 0 then [(a, m)] else [] | _ \<Rightarrow> []) | _ \<Rightarrow> [])"

definition qp_changes :: "ptr \<Rightarrow> ktrace \<Rightarrow> qp_change list" where
  "qp_changes q tr = concat (map (ok_change q) tr)"

lemma qp_changes_simps [simp]:
  "qp_changes q [] = []"
  "qp_changes q (e # tr) = ok_change q e @ qp_changes q tr"
  "qp_changes q (tr @ tr') = qp_changes q tr @ qp_changes q tr'"
  by (simp_all add: qp_changes_def)

text \<open>What was said (\<open>True\<close>) and heard (\<open>False\<close>) on sockets.\<close>

definition talk :: "kcall event \<Rightarrow> (bool \<times> string) list" where
  "talk e = (case e of V c \<Rightarrow>
       (case c of Sock_Send s m \<Rightarrow> [(True, m)] | Sock_Recv s m \<Rightarrow> [(False, m)] | _ \<Rightarrow> []) | _ \<Rightarrow> [])"

definition talks :: "ktrace \<Rightarrow> (bool \<times> string) list" where
  "talks tr = concat (map talk tr)"

lemma talks_simps [simp]:
  "talks [] = []" "talks (e # tr) = talk e @ talks tr" "talks (tr @ tr') = talks tr @ talks tr'"
  by (simp_all add: talks_def)

lemma talk_simps [simp]:
  "talk (P c p) = []" "talk (I c r) = []" "talk (V (Sock_Send k m)) = [(True, m)]"
  "talk (V (Sock_Recv k m)) = [(False, m)]" "talk (V (Sock_Release k)) = []" "talk (V (Query_Gid d)) = []"
  by (simp_all add: talk_def)

definition client_script :: "int \<times> rdma_ctx \<Rightarrow> qp_change list" where
  "client_script = (\<lambda>(mtu, ctx). [init_attr, rtr_attr mtu ctx, rts_attr mtu ctx])"

lemmas script_defs = client_script_def init_attr_def rtr_attr_def rts_attr_def

lemma client_script_rts:
  "qp_path new_qp (client_script (mtu, ctx))
    \<lparr>q_state = QPS_RTS, q_access = [REMOTE_WRITE, REMOTE_READ, REMOTE_ATOMIC], q_port = 1, q_mtu = mtu,
     q_dest_qpn = rem_qpn ctx, q_dlid = ucast (rem_lid ctx), q_rq_psn = rem_psn ctx, q_sq_psn = ctx_psn ctx\<rparr>"
  using qp_path_three [of "fst init_attr" "snd init_attr" "fst (rtr_attr mtu ctx)" "snd (rtr_attr mtu ctx)"
      "fst (rts_attr mtu ctx)" "snd (rts_attr mtu ctx)"]
  by (simp add: script_defs needed_def)

interpretation cl_qp: bring_up client_script "\<lambda>(mtu, ctx). ctx_psn ctx" "\<lambda>(mtu, ctx). rem_qpn ctx"
  "\<lambda>(mtu, ctx). rem_psn ctx" "\<lambda>(mtu, ctx). rem_lid ctx"
proof
  fix c :: "int \<times> rdma_ctx"
  show "\<exists>q. qp_path new_qp (client_script c) q \<and> rts_qp q (case c of (mtu, ctx) \<Rightarrow> ctx_psn ctx)
      (case c of (mtu, ctx) \<Rightarrow> rem_qpn ctx) (case c of (mtu, ctx) \<Rightarrow> rem_psn ctx) (case c of (mtu, ctx) \<Rightarrow> rem_lid ctx)"
    using client_script_rts by (cases c) (force simp: rts_qp_def)
qed

lemma client_script_mtu:
  assumes "qp_path new_qp (client_script (mtu, ctx)) q"
  shows "q_mtu q = mtu"
  using qp_path_det [OF client_script_rts assms] by simp

lemma qp_path_take: "qp_path q cs q' \<Longrightarrow> \<exists>q''. qp_path q (take k cs) q''"
proof (induction arbitrary: k rule: qp_path.induct)
  case (path_cons q c q1 cs q2)
  show ?case
  proof (cases k)
    case (Suc n)
    then show ?thesis
      using path_cons.IH [of n] path_cons.hyps(1) by (auto intro: qp_path.path_cons)
  qed auto
qed auto

lemma client_script_prefix: "\<exists>q. qp_path new_qp (take k (client_script c)) q"
  using cl_qp.script_path [of c] qp_path_take by blast

lemma ok_change_modify [simp]: "ok_change q (I (modify_call q c) r) = (if r = 0 then [c] else [])"
  by (simp add: ok_change_def modify_call_def)

lemma modify_qp_steps:
  "\<exists>k ext. modify_qp W sg ctx tr = ((if k = 3 then 0 else - 1), tr @ ext) \<and> k \<le> 3 \<and>
     qp_changes (ctx_qp ctx) ext = take k (client_script (pa_active_mtu (sg_attr sg), ctx)) \<and>
     ((\<forall>tr q c. w_int W tr (modify_call q c) = 0) \<longrightarrow> k = 3) \<and> talks ext = []"
proof -
  let ?mtu = "pa_active_mtu (sg_attr sg)"
  let ?e = "\<lambda>c tr. I (modify_call (ctx_qp ctx) c) (w_int W tr (modify_call (ctx_qp ctx) c))"
  let ?e1 = "?e init_attr tr" let ?e2 = "?e (rtr_attr ?mtu ctx) (tr @ [?e1])"
  let ?e3 = "?e (rts_attr ?mtu ctx) (tr @ [?e1, ?e2])"
  let ?ok = "\<lambda>c tr. w_int W tr (modify_call (ctx_qp ctx) c) = 0"
  consider "\<not> ?ok init_attr tr" | "?ok init_attr tr" "\<not> ?ok (rtr_attr ?mtu ctx) (tr @ [?e1])"
    | "?ok init_attr tr" "?ok (rtr_attr ?mtu ctx) (tr @ [?e1])" "\<not> ?ok (rts_attr ?mtu ctx) (tr @ [?e1, ?e2])"
    | "?ok init_attr tr" "?ok (rtr_attr ?mtu ctx) (tr @ [?e1])" "?ok (rts_attr ?mtu ctx) (tr @ [?e1, ?e2])"
    by blast
  then show ?thesis
  proof cases
    case 1
    then show ?thesis
      by (intro exI [of _ 0] exI [of _ "[?e1]"]) (auto simp: modify_qp_def ask_simps Let_def simp del: split_paired_All split_paired_Ex)
  next
    case 2
    then show ?thesis
      by (intro exI [of _ 1] exI [of _ "[?e1, ?e2]"]) (auto simp: modify_qp_def ask_simps client_script_def Let_def eval_nat_numeral
        simp del: split_paired_All split_paired_Ex)
  next
    case 3
    then show ?thesis
      by (intro exI [of _ 2] exI [of _ "[?e1, ?e2, ?e3]"]) (auto simp: modify_qp_def ask_simps client_script_def Let_def eval_nat_numeral
        simp del: split_paired_All split_paired_Ex)
  next
    case 4
    then show ?thesis
      by (intro exI [of _ 3] exI [of _ "[?e1, ?e2, ?e3]"]) (auto simp: modify_qp_def ask_simps client_script_def Let_def eval_nat_numeral
        simp del: split_paired_All split_paired_Ex)
  qed
qed

section \<open>Traces of the other steps\<close>

lemma ok_change_other [simp]:
  "ok_change q (P c p) = []" "ok_change q (V c) = []" "ok_change q (I (Req_Notify_Cq x) r) = []"
  "ok_change q (I (Query_Port x) r) = []" "ok_change q (I Sock_Create r) = []"
  "ok_change q (I (Sock_Connect x a) r) = []"
  by (simp_all add: ok_change_def)

text \<open>A step that extends the trace, says nothing and leaves all queue pairs alone.\<close>

definition quiet :: "ktrace \<Rightarrow> ktrace \<Rightarrow> bool" where
  "quiet tr tr' \<longleftrightarrow> (\<exists>ext. tr' = tr @ ext \<and> (\<forall>q. qp_changes q ext = []) \<and> talks ext = [])"

lemma quiet_refl [simp]: "quiet tr tr"
  by (simp add: quiet_def)

lemma quiet_trans [trans]: "quiet tr1 tr2 \<Longrightarrow> quiet tr2 tr3 \<Longrightarrow> quiet tr1 tr3"
  by (auto simp: quiet_def)

lemma rdma_create_some:
  assumes "rdma_create C W npages sg tr = (Some ctx, tr')"
  shows "quiet tr tr' \<and> (\<exists>pd scq rcq q. ctx = zero_ctx\<lparr>rem_mem_size := word_of_int npages * 4096, ctx_pd := pd,
    send_cq := scq, recv_cq := rcq, ctx_qp := q\<rparr> \<and> pd \<noteq> 0 \<and> scq \<noteq> 0 \<and> rcq \<noteq> 0)"
  using assms by (auto simp: rdma_create_def ask_simps Let_def quiet_def split: if_splits)

lemma connect_ok:
  assumes "connect W ip port ctx tr = Inr (0, ctx', tr')"
  shows "\<exists>sock. sock \<noteq> 0 \<and> length ip < 100 \<and>
    ctx' = ctx\<lparr>server_addr := ip, server_port := port, ctx_sock := sock, sock_live := True\<rparr> \<and>
    fst (translate_ip (w_ints W tr) ip [0, 0, 0, 0]) = 0 \<and>
    tr' = tr @ [I Sock_Create 0, I (Sock_Connect sock \<lparr>sin_port = htons (word_of_int port),
      sin_addr = htonl (create_address (snd (translate_ip (w_ints W tr) ip [0, 0, 0, 0])))\<rparr>) 0]"
  using assms
  by (cases "translate_ip (w_ints W tr) ip [0, 0, 0, 0]")
    (auto simp: connect_def ask_simps Let_def result_simps split: if_splits)

lemma connect_frame:
  assumes "connect W ip port ctx tr = Inr (r, ctx', tr')"
  shows "quiet tr tr' \<and> ctx_pool ctx' = ctx_pool ctx"
  using assms
  by (cases "translate_ip (w_ints W tr) ip [0, 0, 0, 0]")
    (auto simp: connect_def ask_simps Let_def quiet_def result_simps split: if_splits)

lemma connect_total: "length ip < 100 \<Longrightarrow> \<exists>r ctx' tr'. connect W ip port ctx tr = Inr (r, ctx', tr')"
  by (cases "translate_ip (w_ints W tr) ip [0, 0, 0, 0]") (simp add: connect_def ask_simps Let_def)

lemma populate_port_data_ok:
  assumes "populate_port_data W sg tr = (0, sg', tr')"
  shows "quiet tr tr' \<and> pa_active_mtu (sg_attr sg') = 5 \<and> sg_dev sg' = sg_dev sg \<and> ready_to_use sg' = ready_to_use sg \<and>
    sg_attr sg' = w_port W tr (sg_dev sg)"
  using assms by (auto simp: populate_port_data_def ask_simps Let_def quiet_def split: if_splits)

lemma rdma_setup_ok:
  assumes "rdma_setup W sg ctx tr = (0, ctx', tr')"
  obtains buf keys dma k ext where
    "ctx' = ctx\<lparr>rdma_recv_buffer := buf, ctx_mr := Some keys, ctx_rkey := mr_rkey keys, ctx_dma_addr := dma\<rparr>"
    "tr' = tr @ ext" "k \<le> 3" "qp_changes (ctx_qp ctx) ext = take k (client_script (pa_active_mtu (sg_attr sg), ctx'))"
    "(\<forall>tr q c. w_int W tr (modify_call q c) = 0) \<longrightarrow> k = 3" "talks ext = []"
proof -
  let ?buf = "w_ptr W tr (Kmalloc RDMA_BUFFER_SIZE)"
  define tr1 where "tr1 = tr @ [P (Kmalloc RDMA_BUFFER_SIZE) ?buf]"
  let ?c = "Get_Dma_Mr (ctx_pd ctx) [REMOTE_READ, REMOTE_WRITE, LOCAL_WRITE]"
  let ?mr = "w_ptr W tr1 ?c"
  define tr2 where "tr2 = tr1 @ [P ?c ?mr]"
  let ?dma = "w_ptr W tr2 (Dma_Map ?buf RDMA_BUFFER_SIZE)"
  define tr3 where "tr3 = tr2 @ [P (Dma_Map ?buf RDMA_BUFFER_SIZE) ?dma]"
  define ctx4 where "ctx4 = ctx\<lparr>rdma_recv_buffer := ?buf, ctx_mr := Some (w_mr_keys W ?mr),
    ctx_rkey := mr_rkey (w_mr_keys W ?mr), ctx_dma_addr := ?dma\<rparr>"
  have "rdma_setup W sg ctx tr = (if ?buf = 0 then (- 1, ctx\<lparr>rdma_recv_buffer := ?buf\<rparr>, tr1)
      else if ?mr = 0 then (- 1, ctx\<lparr>rdma_recv_buffer := ?buf, ctx_mr := None\<rparr>, tr2)
      else if w_map_error W ?dma then (- 1, ctx4, tr3) else (0, ctx4, snd (modify_qp W sg ctx4 tr3)))"
    by (simp add: rdma_setup_def ask_simps Let_def tr1_def [symmetric] tr2_def [symmetric] tr3_def [symmetric]
        ctx4_def [symmetric])
  with assms have c: "ctx' = ctx4" "tr' = snd (modify_qp W sg ctx4 tr3)"
    by (auto split: if_splits)
  obtain k ext where m: "modify_qp W sg ctx4 tr3 = ((if k = 3 then 0 else - 1), tr3 @ ext)" "k \<le> 3"
      "qp_changes (ctx_qp ctx4) ext = take k (client_script (pa_active_mtu (sg_attr sg), ctx4))" "(\<forall>tr q c. w_int W tr (modify_call q c) = 0) \<longrightarrow> k = 3"
      "talks ext = []"
    using modify_qp_steps by blast
  have q: "ctx_qp ctx4 = ctx_qp ctx"
    by (simp add: ctx4_def)
  have t: "tr' = tr3 @ ext"
    using c(2) m(1) by simp
  show ?thesis
  proof (rule that)
    show "ctx' = ctx\<lparr>rdma_recv_buffer := ?buf, ctx_mr := Some (w_mr_keys W ?mr),
        ctx_rkey := mr_rkey (w_mr_keys W ?mr), ctx_dma_addr := ?dma\<rparr>"
      unfolding c(1) by (rule ctx4_def)
    show "tr' = tr @ [P (Kmalloc RDMA_BUFFER_SIZE) ?buf, P ?c ?mr, P (Dma_Map ?buf RDMA_BUFFER_SIZE) ?dma] @ ext"
      unfolding t tr3_def tr2_def tr1_def by simp
    show "qp_changes (ctx_qp ctx) ([P (Kmalloc RDMA_BUFFER_SIZE) ?buf, P ?c ?mr,
        P (Dma_Map ?buf RDMA_BUFFER_SIZE) ?dma] @ ext) = take k (client_script (pa_active_mtu (sg_attr sg), ctx'))"
      using m(3) unfolding c(1) q by simp
    show "talks ([P (Kmalloc RDMA_BUFFER_SIZE) ?buf, P ?c ?mr, P (Dma_Map ?buf RDMA_BUFFER_SIZE) ?dma] @ ext) = []"
      using m(5) by simp
  qed (rule m(2) m(4))+
qed

text \<open>What \<open>rdma_init\<close> has done when it returns a context.\<close>

lemma rdma_init_some:
  assumes "rdma_init C W npages ip port sz sg tr = Inr (Some ctx, sg', tr')"
  obtains ctx3 ctx4 trh buf keys dma pool k ext where
    "rem_mem_size ctx3 = word_of_int npages * 4096" "ctx_qpn ctx3 = w_qp_num W (ctx_qp ctx3)"
    "ctx_psn ctx3 = w_random W trh AND 0xffffff" "ctx_lid ctx3 = ucast (pa_lid (sg_attr sg'))" "ctx_rkey ctx3 = 0"
    "outstanding_requests ctx3 = 0" "server_addr ctx3 = ip" "server_port ctx3 = port" "ctx_sock ctx3 \<noteq> 0"
    "pa_active_mtu (sg_attr sg') = 5"
    "ctx4 = fst (handshake (w_chars W trh) (first_message (w_inbox W trh)) ctx3)"
    "ctx = ctx4\<lparr>rdma_recv_buffer := buf, ctx_mr := Some keys, ctx_rkey := mr_rkey keys, ctx_dma_addr := dma,
      sock_live := False, ctx_pool := Some pool\<rparr>"
    "get_batch_request_pool C (w_vm W tr') (w_batch W) sz = Inr pool"
    "tr' = trh @ [V (Sock_Send (ctx_sock ctx3) (snd (handshake (w_chars W trh) (first_message (w_inbox W trh)) ctx3) ! 0)),
       V (Sock_Recv (ctx_sock ctx3) (first_message (w_inbox W trh))),
       V (Sock_Send (ctx_sock ctx3) (snd (handshake (w_chars W trh) (first_message (w_inbox W trh)) ctx3) ! 1))] @
       ext @ [V (Sock_Release (ctx_sock ctx))]" "quiet tr trh"
    "k \<le> 3" "qp_changes (ctx_qp ctx) ext = take k (client_script (5, ctx))" "(\<forall>tr q c. w_int W tr (modify_call q c) = 0) \<longrightarrow> k = 3"
    "talks ext = []" "\<exists>t. sg_attr sg' = w_port W t (sg_dev sg)"
proof -
  obtain ctx1 tr1 where 1: "rdma_create C W npages sg tr = (Some ctx1, tr1)"
    using assms by (auto simp: rdma_init_def split: prod.splits option.splits)
  obtain ctx2 tr2 where 2: "connect W ip port ctx1 tr1 = Inr (0, ctx2, tr2)"
    using assms 1 by (auto simp: rdma_init_def result_simps split: if_splits)
  obtain tr3 where 3: "populate_port_data W sg tr2 = (0, sg', tr3)"
    using assms 1 2 by (auto simp: rdma_init_def result_simps Let_def split: if_splits prod.splits)
  define ctx3 where "ctx3 = ctx2\<lparr>ctx_lid := ucast (pa_lid (sg_attr sg')), ctx_qpn := w_qp_num W (ctx_qp ctx2),
    ctx_psn := w_random W tr3 AND 0xffffff\<rparr>"
  obtain ctx4 tr4 where 4: "client_handshake W ctx3 tr3 = (0, ctx4, tr4)"
    by (cases "client_handshake W ctx3 tr3") (simp add: client_handshake_def Let_def split: prod.splits)
  obtain ctx5 tr5 pool where 5: "rdma_setup W sg' ctx4 tr4 = (0, ctx5, tr5)"
      "get_batch_request_pool C (w_vm W tr') (w_batch W) sz = Inr pool" "ctx = ctx5\<lparr>sock_live := False, ctx_pool := Some pool\<rparr>"
      "tr' = tr5 @ [V (Sock_Release (ctx_sock ctx5))]"
    using assms 1 2 3 4
    by (auto simp: rdma_init_def result_simps Let_def ctx3_def [symmetric] tell_def split: if_splits prod.splits)
  from rdma_create_some [OF 1] obtain pd scq rcq q where ctx1: "quiet tr tr1" "ctx1 = zero_ctx\<lparr>
      rem_mem_size := word_of_int npages * 4096, ctx_pd := pd, send_cq := scq, recv_cq := rcq, ctx_qp := q\<rparr>"
    by blast
  from connect_ok [OF 2] obtain sock where ctx2: "ctx2 = ctx1\<lparr>server_addr := ip, server_port := port, ctx_sock := sock, sock_live := True\<rparr>" "sock \<noteq> 0"
    by blast
  note port = populate_port_data_ok [OF 3]
  have "quiet tr tr3"
    using ctx1(1) connect_frame [OF 2] port quiet_trans by blast
  obtain buf keys dma k ext where set: "ctx5 = ctx4\<lparr>rdma_recv_buffer := buf, ctx_mr := Some keys,
      ctx_rkey := mr_rkey keys, ctx_dma_addr := dma\<rparr>" "tr5 = tr4 @ ext" "k \<le> 3"
      "qp_changes (ctx_qp ctx4) ext = take k (client_script (pa_active_mtu (sg_attr sg'), ctx5))"
      "(\<forall>tr q c. w_int W tr (modify_call q c) = 0) \<longrightarrow> k = 3" "talks ext = []"
    by (rule rdma_setup_ok [OF 5(1)])
  have c4: "ctx4 = fst (handshake (w_chars W tr3) (first_message (w_inbox W tr3)) ctx3)"
    and tr4: "tr4 = tr3 @ [V (Sock_Send (ctx_sock ctx3) (snd (handshake (w_chars W tr3) (first_message (w_inbox W tr3)) ctx3) ! 0)),
       V (Sock_Recv (ctx_sock ctx3) (first_message (w_inbox W tr3))),
       V (Sock_Send (ctx_sock ctx3) (snd (handshake (w_chars W tr3) (first_message (w_inbox W tr3)) ctx3) ! 1))]"
    using 4 by (auto simp: client_handshake_def Let_def split: prod.splits)
  have mtu: "pa_active_mtu (sg_attr sg') = 5"
    using port by blast
  have c3: "rem_mem_size ctx3 = word_of_int npages * 4096" "ctx_qpn ctx3 = w_qp_num W (ctx_qp ctx3)"
    "ctx_psn ctx3 = w_random W tr3 AND 0xffffff" "ctx_lid ctx3 = ucast (pa_lid (sg_attr sg'))" "ctx_rkey ctx3 = 0"
    "outstanding_requests ctx3 = 0" "server_addr ctx3 = ip" "server_port ctx3 = port" "ctx_sock ctx3 \<noteq> 0"
    by (simp_all add: ctx3_def ctx2 ctx1(2) zero_ctx_def)
  show ?thesis
  proof (rule that [where buf = buf and dma = dma and keys = keys and trh = tr3 and ext = ext])
    show "qp_changes (ctx_qp ctx) ext = take k (client_script (5, ctx))"
      using set(1,4) 5(3) mtu by (simp add: client_script_def rtr_attr_def rts_attr_def)
    show "ctx = ctx4\<lparr>rdma_recv_buffer := buf, ctx_mr := Some keys, ctx_rkey := mr_rkey keys, ctx_dma_addr := dma,
        sock_live := False, ctx_pool := Some pool\<rparr>"
      using 5(3) set(1) by simp
    show "pa_active_mtu (sg_attr sg') = 5" "\<exists>t. sg_attr sg' = w_port W t (sg_dev sg)"
      using port by blast+
  qed (use \<open>quiet tr tr3\<close> set(1,2,3,5,6) 5(2-4) c4 tr4 c3 in \<open>simp_all only: append_assoc append_Cons append_Nil\<close>; simp)+
qed

section \<open>Kind surroundings\<close>

text \<open>
  No call fails: those that report an error code return 0, \<open>register_blkdev\<close> gives a
  major number, which is positive, and pointers are not null.
\<close>

definition kind_world :: "kworld \<Rightarrow> bool" where
  "kind_world W \<longleftrightarrow> (\<forall>tr c. (\<forall>n. c \<noteq> Register_Blkdev n) \<longrightarrow> w_int W tr c = 0) \<and>
     (\<forall>tr n. 0 < w_int W tr (Register_Blkdev n)) \<and> (\<forall>tr c. w_ptr W tr c \<noteq> 0) \<and>
     (\<forall>tr d. pa_active_mtu (w_port W tr d) = 5) \<and> (\<forall>s. w_connect_op W s) \<and> (\<forall>a. \<not> w_map_error W a) \<and>
     (\<forall>tr k. w_vm W tr k \<noteq> 0)"

lemma kind_connect:
  assumes "kind_world W" and "length ip < 100" and "sscanf_dots 4 ip \<noteq> []"
  shows "\<exists>ctx' tr'. connect W ip port ctx tr = Inr (0, ctx', tr')"
  using assms by (auto simp: connect_def kind_world_def translate_ip_def ask_simps Let_def)

lemma kind_create:
  assumes "kind_world W"
  shows "\<exists>ctx tr'. rdma_create C W npages sg tr = (Some ctx, tr') \<and> ctx_qp ctx \<noteq> 0"
  using assms by (simp add: rdma_create_def kind_world_def ask_simps Let_def)

lemma kind_rdma_init:
  assumes "kind_world W" and "length ip < 100" and "sscanf_dots 4 ip \<noteq> []" and "0 < sz"
  shows "\<exists>ctx sg' tr'. rdma_init C W npages ip port (int sz) sg tr = Inr (Some ctx, sg', tr')"
proof -
  obtain ctx1 tr1 where 1: "rdma_create C W npages sg tr = (Some ctx1, tr1)" "ctx_qp ctx1 \<noteq> 0"
    using kind_create [OF assms(1)] by blast
  obtain ctx2 tr2 where 2: "connect W ip port ctx1 tr1 = Inr (0, ctx2, tr2)"
    using kind_connect [OF assms(1-3)] by blast
  then have q: "ctx_qp ctx2 \<noteq> 0"
    using connect_ok [OF 2] 1(2) by auto
  obtain sg3 tr3 where 3: "populate_port_data W sg tr2 = (0, sg3, tr3)"
    using assms(1) by (simp add: populate_port_data_def kind_world_def ask_simps Let_def)
  have 4: "\<exists>ctx' tr'. client_handshake W ctx tr = (0, ctx', tr')" for ctx tr
    by (simp add: client_handshake_def Let_def split: prod.splits)
  have 5: "\<exists>ctx' tr'. rdma_setup W sg3 ctx tr = (0, ctx', tr')" for ctx tr
    using assms(1) by (simp add: rdma_setup_def kind_world_def ask_simps Let_def)
  have 6: "\<exists>p. get_batch_request_pool C (w_vm W tr) (w_batch W) (int sz) = Inr p" for tr
    using get_batch_request_pool_ok [OF assms(4), of "w_vm W tr" C "w_batch W"] assms(1) by (auto simp: kind_world_def)
  let ?ctx3 = "ctx2\<lparr>ctx_lid := ucast (pa_lid (sg_attr sg3)), ctx_qpn := w_qp_num W (ctx_qp ctx2),
      ctx_psn := w_random W tr3 AND 0xffffff\<rparr>"
  obtain ctx4 tr4 where hs: "client_handshake W ?ctx3 tr3 = (0, ctx4, tr4)"
    using 4 by blast
  obtain ctx5 tr5 where su: "rdma_setup W sg3 ctx4 tr4 = (0, ctx5, tr5)"
    using 5 by blast
  obtain p where "get_batch_request_pool C (w_vm W (tell (Sock_Release (ctx_sock ctx5)) tr5)) (w_batch W) (int sz) = Inr p"
    using 6 by blast
  with 1 2 q 3 hs su show ?thesis
    by (simp add: rdma_init_def Let_def)
qed

section \<open>What a failed start leaves behind\<close>

text \<open>
  A step that gives nothing back: each of its calls obtains something, asks a question,
  or talks over a socket.
\<close>

definition acquires :: "kcall \<Rightarrow> bool" where
  "acquires c \<longleftrightarrow> (case c of Kmalloc_Ctx \<Rightarrow> True | Kmalloc n \<Rightarrow> True | Alloc_Pd d \<Rightarrow> True | Create_Cq d n \<Rightarrow> True
     | Req_Notify_Cq q \<Rightarrow> True | Create_Qp pd i \<Rightarrow> True | Get_Dma_Mr pd a \<Rightarrow> True | Dma_Map p n \<Rightarrow> True
     | Sock_Create \<Rightarrow> True | Sock_Connect s a \<Rightarrow> True | Sock_Send s m \<Rightarrow> True | Sock_Recv s m \<Rightarrow> True
     | Query_Port d \<Rightarrow> True | Query_Gid d \<Rightarrow> True | _ \<Rightarrow> False)"

definition keeps :: "ktrace \<Rightarrow> ktrace \<Rightarrow> bool" where
  "keeps tr tr' \<longleftrightarrow> (\<exists>ext. tr' = tr @ ext \<and> (\<forall>e \<in> set ext. acquires (call_of e)))"

lemma keeps_trans [trans]: "keeps tr1 tr2 \<Longrightarrow> keeps tr2 tr3 \<Longrightarrow> keeps tr1 tr3"
  by (auto simp: keeps_def)

lemma rdma_create_keeps: "rdma_create C W npages sg tr = (r, tr') \<Longrightarrow> keeps tr tr'"
  by (auto simp: rdma_create_def ask_simps Let_def keeps_def acquires_def split: if_splits)

lemma connect_keeps: "connect W ip port ctx tr = Inr (r, ctx', tr') \<Longrightarrow> keeps tr tr'"
  by (cases "translate_ip (w_ints W tr) ip [0, 0, 0, 0]")
    (auto simp: connect_def ask_simps Let_def keeps_def acquires_def result_simps split: if_splits)

lemma populate_port_data_keeps: "populate_port_data W sg tr = (r, sg', tr') \<Longrightarrow> keeps tr tr'"
  by (auto simp: populate_port_data_def ask_simps Let_def keeps_def acquires_def split: if_splits)

lemma client_handshake_keeps: "client_handshake W ctx tr = (r, ctx', tr') \<Longrightarrow> keeps tr tr'"
  by (auto simp: client_handshake_def Let_def keeps_def acquires_def split: prod.splits)

lemma rdma_setup_keeps: "rdma_setup W sg ctx tr = (r, ctx', tr') \<Longrightarrow> r \<noteq> 0 \<Longrightarrow> keeps tr tr'"
  by (auto simp: rdma_setup_def ask_simps Let_def keeps_def acquires_def split: if_splits)

section \<open>Leaving\<close>

lemma rdma_init_reached:
  assumes "rdma_init C W npages ip port sz sg tr = Inr (Some ctx, sg', tr')"
  shows "length ip < 100 \<and> sscanf_dots 4 ip \<noteq> [] \<and> server_addr ctx = ip \<and> ctx_pool ctx \<noteq> None"
proof -
  obtain ctx1 tr1 where 1: "rdma_create C W npages sg tr = (Some ctx1, tr1)"
    using assms by (auto simp: rdma_init_def split: prod.splits option.splits)
  obtain ctx2 tr2 where 2: "connect W ip port ctx1 tr1 = Inr (0, ctx2, tr2)"
    using assms 1 by (auto simp: rdma_init_def result_simps split: if_splits)
  have "server_addr ctx = ip \<and> ctx_pool ctx \<noteq> None"
    by (rule rdma_init_some [OF assms]) simp
  then show ?thesis
    using connect_ok [OF 2] by (auto simp: translate_ip_def Let_def)
qed

lemma rdma_init_socket:
  assumes "rdma_init C W npages ip port sz sg tr = Inr (Some ctx, sg', tr')"
  shows "ctx_sock ctx \<noteq> 0 \<and> \<not> sock_live ctx"
  by (rule rdma_init_some [OF assms]) simp

lemma connect_socket:
  assumes "length ip < 100" and "sscanf_dots 4 ip \<noteq> []" and "w_int W tr Sock_Create = 0" and "w_ptr W tr Sock_Create \<noteq> 0"
  shows "\<exists>r ctx' tr'. connect W ip port ctx tr = Inr (r, ctx', tr') \<and> ctx_sock ctx' \<noteq> 0 \<and> sock_live ctx'"
  using assms by (simp add: connect_def translate_ip_def ask_simps Let_def)

lemma rdma_exit_runs:
  assumes "kind_world W" and "length (server_addr ctx) < 100" and "sscanf_dots 4 (server_addr ctx) \<noteq> []"
    and "ctx_pool ctx = Some p" and "pool_inv p" and "\<forall>tr. w_inbox W tr = [''done'']"
  shows "\<exists>sock addr freed. rdma_exit W ctx tr = Inr (0, tr @ [I Sock_Create 0, I (Sock_Connect sock addr) 0,
      V (Sock_Send sock ''teardown''), V (Sock_Recv sock ''done''), V (Sock_Release sock)] @
      map (\<lambda>a. V (Vfree a)) freed @ [V Kfree_Ctx]) \<and>
    mset freed = mset (pool_items p) + {#data_at p, io_req_at p, pool_at p#}"
proof -
  obtain ctx' tr' where run: "connect W (server_addr ctx) (server_port ctx) ctx tr = Inr (0, ctx', tr')"
    using kind_connect [OF assms(1-3)] by blast
  from connect_ok [OF run] obtain sock addr where "sock \<noteq> 0" "ctx_sock ctx' = sock" "sock_live ctx'" "ctx_pool ctx' = Some p"
      "tr' = tr @ [I Sock_Create 0, I (Sock_Connect sock addr) 0]"
    using assms(4) by auto
  moreover have "mset (destroy_batch_request_pool p) = mset (pool_items p) + {#data_at p, io_req_at p, pool_at p#}"
    using assms(5) by (rule destroy_mset)
  ultimately show ?thesis
    using run assms(6)
    by (intro exI [of _ sock] exI [of _ addr] exI [of _ "destroy_batch_request_pool p"])
      (simp add: rdma_exit_def reconnect_def client_teardown_def teardown_once tell_def)
qed

section \<open>An example\<close>

definition ex_kworld :: kworld where
  "ex_kworld = \<lparr>w_ptr = (\<lambda>tr c. 0x1000), w_int = (\<lambda>tr c. case c of Register_Blkdev n \<Rightarrow> 254 | _ \<Rightarrow> 0), w_devices = [5, 6],
     w_port = (\<lambda>tr d. \<lparr>pa_active_mtu = 5, pa_lid = 3\<rparr>), w_connect_op = (\<lambda>s. True), w_qp_num = (\<lambda>q. 77),
     w_mr_keys = (\<lambda>p. \<lparr>mr_lkey = 7, mr_rkey = 8\<rparr>), w_map_error = (\<lambda>a. False), w_random = (\<lambda>tr. 0x12345678),
     w_inbox = (\<lambda>tr. [''done'']), w_chars = (\<lambda>tr. replicate 500 NUL), w_ints = (\<lambda>tr. [0, 0, 0, 0]),
     w_vm = (\<lambda>tr k. 2 * word_of_nat k + 1),
     w_batch = \<lparr>br_id = 0, br_req = 0, br_nsec = 0, br_outstanding_reqs = 0, br_next = 0,
       br_all_request_sent = False, br_comp_reqs = 0, br_start_time = 0, br_first = False\<rparr>\<rparr>"

lemma ex_kworld_sel [simp]:
  "w_ptr ex_kworld tr c = 0x1000" "(\<forall>n. c \<noteq> Register_Blkdev n) \<Longrightarrow> w_int ex_kworld tr c = 0"
  "w_int ex_kworld tr (Register_Blkdev n) = 254" "w_devices ex_kworld = [5, 6]"
  "w_port ex_kworld tr d = \<lparr>pa_active_mtu = 5, pa_lid = 3\<rparr>" "w_inbox ex_kworld tr = [''done'']"
  "w_chars ex_kworld tr = replicate 500 NUL" "w_connect_op ex_kworld p" "\<not> w_map_error ex_kworld a"
  by (simp_all add: ex_kworld_def split: kcall.splits)

lemma ex_kind: "kind_world ex_kworld"
proof -
  have "odd (2 * x + 1 :: ptr)" for x
    by simp
  then have "2 * x + 1 \<noteq> (0 :: ptr)" for x
    by (metis even_zero)
  then show ?thesis
    by (simp add: kind_world_def ex_kworld_def split: kcall.splits)
qed

lemma ex_address: "length (dotted 10 0 0 1) < 100" "sscanf_dots 4 (dotted 10 0 0 1) \<noteq> []"
  by (simp add: dotted_def show_digits.simps) (simp only: sscanf_dotted list.distinct(2) not_False_eq_True)

section \<open>Properties\<close>

text \<open>
  C26. After \<open>rdma_library_init\<close> the library is ready exactly when some device present
  answers the port query and has the MTU that the code takes as the mark of the right
  card, and then it works with the last such device.
\<close>
theorem library_settles:
  assumes "steady W ret port" and "rdma_library_init W tr = (r, sg, tr')"
  shows "r = 0 \<and> (rdma_library_ready sg \<longleftrightarrow> (\<exists>d \<in> set (w_devices W). usable ret port d)) \<and>
    (rdma_library_ready sg \<longrightarrow> sg_dev sg = last (filter (usable ret port) (w_devices W)))"
proof -
  have "sg = fst (fold (add_device W) (w_devices W) (zero_singleton, tell Register_Client tr))" "r = 0"
    using assms(2) by (auto simp: rdma_library_init_def init_ib_def dest: arg_cong [of _ _ fst])
  then show ?thesis
    using add_devices_steady [OF assms(1), of "w_devices W" zero_singleton "tell Register_Client tr"]
    by (auto simp: rdma_library_ready_def zero_singleton_def filter_empty_conv)
qed

theorem library_settles_witness:
  "sg_dev (fst (snd (rdma_library_init ex_kworld []))) = 6"
proof -
  obtain r sg tr' where run: "rdma_library_init ex_kworld [] = (r, sg, tr')"
    by (cases "rdma_library_init ex_kworld []")
  have "steady ex_kworld (\<lambda>d. 0) (\<lambda>d. \<lparr>pa_active_mtu = 5, pa_lid = 3\<rparr>)"
    by (simp add: steady_def)
  from library_settles [OF this run] run show ?thesis
    by (auto simp: usable_def)
qed

text \<open>
  C25. A successful \<open>connect\<close> to an address in dotted decimal has connected a socket to
  exactly that address and port, both in network byte order, and has noted them, so
  that \<open>reconnect\<close> goes to the same place.
\<close>
theorem connect_reaches:
  assumes "connect W (dotted a b c d) port ctx tr = Inr (0, ctx', tr')"
  shows "\<exists>sock. sock \<noteq> 0 \<and> ctx' = ctx\<lparr>server_addr := dotted a b c d, server_port := port, ctx_sock := sock, sock_live := True\<rparr> \<and>
    tr' = tr @ [I Sock_Create 0, I (Sock_Connect sock \<lparr>sin_port = htons (word_of_int port), sin_addr = [a, b, c, d]\<rparr>) 0] \<and>
    (\<forall>W' tr1. reconnect W' ctx' tr1 = connect W' (dotted a b c d) port ctx' tr1)"
  using connect_ok [OF assms] by (auto simp: translate_dotted htonl_create_address reconnect_def)

theorem connect_reaches_witness:
  "\<exists>ctx' sock. connect ex_kworld (dotted 10 0 0 1) 8888 zero_ctx [] = Inr (0, ctx',
     [I Sock_Create 0, I (Sock_Connect sock \<lparr>sin_port = [34, 184], sin_addr = [10, 0, 0, 1]\<rparr>) 0])"
proof -
  obtain ctx' tr' where run: "connect ex_kworld (dotted 10 0 0 1) 8888 zero_ctx [] = Inr (0, ctx', tr')"
    using kind_connect [OF ex_kind ex_address] by blast
  have "htons (word_of_int 8888) = [34, 184]"
    by (simp add: htons_def)
  then show ?thesis
    using connect_reaches [OF run] run by auto
qed

text \<open>
  A server name of 100 characters or more overruns \<open>server_addr\<close>.
\<close>
lemma connect_overflow:
  assumes "100 \<le> length ip"
  shows "connect W ip port ctx tr = Inl Out_Of_Bounds"
  using assms by (simp add: connect_def)

lemma connect_overflow_instance:
  "\<forall>W ctx. connect W (replicate 100 (CHR ''1'')) 8888 ctx [] = Inl Out_Of_Bounds"
  using connect_overflow by simp

text \<open>
  C17. \<open>modify_qp\<close> takes the queue pair through its states in the order and with the
  attributes that the verbs prescribe. It returns 0 exactly when the queue pair can
  send, and then it is set up for the peer that the handshake named, with the MTU
  of the port; otherwise it returns -1.
\<close>
theorem modify_qp_order:
  "\<exists>r ext q. modify_qp W sg ctx tr = (r, tr @ ext) \<and> qp_path new_qp (qp_changes (ctx_qp ctx) ext) q \<and>
     r \<in> {0, - 1} \<and> (r = 0 \<longleftrightarrow> q_state q = QPS_RTS) \<and>
     (r = 0 \<longrightarrow> rts_qp q (ctx_psn ctx) (rem_qpn ctx) (rem_psn ctx) (rem_lid ctx) \<and>
       q_mtu q = pa_active_mtu (sg_attr sg))"
proof -
  let ?c = "(pa_active_mtu (sg_attr sg), ctx)"
  obtain k ext where m: "modify_qp W sg ctx tr = ((if k = 3 then 0 else - 1), tr @ ext)" "k \<le> 3"
      "qp_changes (ctx_qp ctx) ext = take k (client_script ?c)"
    using modify_qp_steps by blast
  obtain q where q: "qp_path new_qp (take k (client_script ?c)) q"
    using client_script_prefix by blast
  show ?thesis
  proof (cases "k = 3")
    case True
    then have "qp_path new_qp (client_script ?c) q"
      using q by (simp add: client_script_def)
    then show ?thesis
      using m True q cl_qp.script_rts [of ?c q] client_script_mtu [of _ ctx q] by (intro exI) (auto simp: rts_qp_def)
  next
    case False
    then show ?thesis
      using m q cl_qp.no_prefix_rts [OF q] by auto
  qed
qed

theorem modify_qp_order_witness:
  "\<exists>r ext q. modify_qp ex_kworld zero_singleton zero_ctx [] = (r, ext) \<and> qp_path new_qp (qp_changes 0 ext) q \<and>
     (r = 0 \<longrightarrow> q_state q = QPS_RTS)"
  using modify_qp_order [of ex_kworld zero_singleton zero_ctx "[]"] by (auto simp: zero_ctx_def)

text \<open>
  \<open>rdma_setup\<close> does not look at the result of \<open>modify_qp\<close>: when the card refuses the
  first change, it still returns 0, with a queue pair that never left its first
  state.
\<close>
lemma rdma_setup_ignores:
  assumes "w_ptr W tr (Kmalloc RDMA_BUFFER_SIZE) \<noteq> 0" and "\<forall>tr pd a. w_ptr W tr (Get_Dma_Mr pd a) \<noteq> 0"
    and "\<forall>a. \<not> w_map_error W a" and "\<forall>tr. w_int W tr (modify_call (ctx_qp ctx) init_attr) \<noteq> 0"
  shows "\<exists>ctx' ext. rdma_setup W sg ctx tr = (0, ctx', tr @ ext) \<and> qp_changes (ctx_qp ctx) ext = []"
  using assms by (simp add: rdma_setup_def modify_qp_def ask_simps Let_def)

lemma rdma_setup_ignores_instance:
  "\<exists>ctx' ext. rdma_setup (ex_kworld\<lparr>w_int := \<lambda>tr c. - 22\<rparr>) zero_singleton zero_ctx [] = (0, ctx', ext) \<and>
     qp_changes (ctx_qp zero_ctx) ext = []"
  using rdma_setup_ignores [of "ex_kworld\<lparr>w_int := \<lambda>tr c. - 22\<rparr>" "[]" zero_ctx zero_singleton]
  by (simp add: ex_kworld_def)

text \<open>
  C16. When no call fails, \<open>rdma_init\<close> returns a context: it asks for as many bytes as
  the pages take, its sequence number has 24 bits, its queue pair can send to the
  peer of the handshake, its pool of batch requests is full, nothing is
  outstanding, and the socket has been released.
\<close>
theorem rdma_init_returns:
  assumes "kind_world W" and "length ip < 100" and "sscanf_dots 4 ip \<noteq> []" and "0 < sz"
  shows "\<exists>ctx sg' ext q pool. rdma_init C W npages ip port (int sz) sg tr =
      Inr (Some ctx, sg', tr @ ext @ [V (Sock_Release (ctx_sock ctx))]) \<and>
    rem_mem_size ctx = word_of_int npages * 4096 \<and> unat (ctx_psn ctx) < 2 ^ 24 \<and> outstanding_requests ctx = 0 \<and>
    ctx_mr ctx \<noteq> None \<and> qp_path new_qp (qp_changes (ctx_qp ctx) ext) q \<and>
    rts_qp q (ctx_psn ctx) (rem_qpn ctx) (rem_psn ctx) (rem_lid ctx) \<and>
    ctx_pool ctx = Some pool \<and> pool_inv pool \<and> length (pool_items pool) = sz"
proof -
  obtain ctx sg' tr' where run: "rdma_init C W npages ip port (int sz) sg tr = Inr (Some ctx, sg', tr')"
    using kind_rdma_init [OF assms] by blast
  from rdma_init_some [OF run] obtain ctx3 ctx4 trh buf keys dma pool k ext where
    c3: "rem_mem_size ctx3 = word_of_int npages * 4096" "ctx_psn ctx3 = w_random W trh AND 0xffffff"
      "outstanding_requests ctx3 = 0"
    and c4: "ctx4 = fst (handshake (w_chars W trh) (first_message (w_inbox W trh)) ctx3)"
    and c: "ctx = ctx4\<lparr>rdma_recv_buffer := buf, ctx_mr := Some keys, ctx_rkey := mr_rkey keys, ctx_dma_addr := dma,
      sock_live := False, ctx_pool := Some pool\<rparr>"
    and pool: "get_batch_request_pool C (w_vm W tr') (w_batch W) (int sz) = Inr pool"
    and t: "tr' = trh @ [V (Sock_Send (ctx_sock ctx3) (snd (handshake (w_chars W trh) (first_message (w_inbox W trh)) ctx3) ! 0)),
       V (Sock_Recv (ctx_sock ctx3) (first_message (w_inbox W trh))),
       V (Sock_Send (ctx_sock ctx3) (snd (handshake (w_chars W trh) (first_message (w_inbox W trh)) ctx3) ! 1))] @
       ext @ [V (Sock_Release (ctx_sock ctx))]" "quiet tr trh"
    and k: "qp_changes (ctx_qp ctx) ext = take k (client_script (5, ctx))" "(\<forall>tr q c. w_int W tr (modify_call q c) = 0) \<longrightarrow> k = 3"
    by metis
  from k assms(1) have k3: "qp_changes (ctx_qp ctx) ext = client_script (5, ctx)"
    by (simp add: kind_world_def client_script_def modify_call_def)
  obtain ext0 where ext0: "trh = tr @ ext0" "\<forall>q. qp_changes q ext0 = []"
    using t(2) by (auto simp: quiet_def)
  obtain q where q: "qp_path new_qp (client_script (5, ctx)) q"
      "rts_qp q (ctx_psn ctx) (rem_qpn ctx) (rem_psn ctx) (rem_lid ctx)"
    using cl_qp.script_path [of "(5, ctx)"] by auto
  obtain ext1 where ext1: "tr' = tr @ ext1 @ [V (Sock_Release (ctx_sock ctx))]" "qp_changes (ctx_qp ctx) ext1 = client_script (5, ctx)"
    using t(1) ext0 k3 by simp
  have p: "pool_inv pool \<and> length (pool_items pool) = sz"
    using get_batch_request_pool_ok [OF assms(4), of "w_vm W tr'" C "w_batch W"] pool assms(1)
    by (auto simp: kind_world_def)
  have f: "rem_mem_size ctx = word_of_int npages * 4096" "unat (ctx_psn ctx) < 2 ^ 24" "outstanding_requests ctx = 0"
    "ctx_mr ctx \<noteq> None" "ctx_pool ctx = Some pool"
    using c3 c4 c unat_and_24 by simp_all
  show ?thesis
    using run ext1 q p f by (intro exI [of _ ctx] exI [of _ sg'] exI [of _ ext1] exI [of _ q] exI [of _ pool]) simp
qed

theorem rdma_init_returns_witness:
  "\<exists>ctx sg' tr'. rdma_init conf_h ex_kworld 16 (dotted 10 0 0 1) 8888 4 zero_singleton [] = Inr (Some ctx, sg', tr') \<and>
     rem_mem_size ctx = 65536"
  using rdma_init_returns [OF ex_kind ex_address, of 4 conf_h 16 8888 zero_singleton "[]"] by auto

text \<open>
  C39. When \<open>rdma_init\<close> returns \<open>NULL\<close> it has given nothing back, whatever the step that
  failed: every call it has made obtains something, asks a question or talks over the
  socket. The context, the protection domain, the completion queues, the queue pair, the
  socket, the buffer and the memory region that it had obtained by then are lost.
\<close>
theorem rdma_init_leaks:
  assumes "rdma_init C W npages ip port sz sg tr = Inr (None, sg', tr')"
  shows "keeps tr tr'"
proof -
  obtain o1 tr1 where 1: "rdma_create C W npages sg tr = (o1, tr1)"
    by (cases "rdma_create C W npages sg tr")
  note k1 = rdma_create_keeps [OF 1]
  show ?thesis
  proof (cases o1)
    case None
    then show ?thesis
      using assms 1 k1 by (simp add: rdma_init_def)
  next
    case (Some ctx1)
    then obtain r ctx2 tr2 where 2: "connect W ip port ctx1 tr1 = Inr (r, ctx2, tr2)"
      using assms 1 by (auto simp: rdma_init_def result_simps)
    note k2 = keeps_trans [OF k1 connect_keeps [OF 2]]
    obtain r3 sg3 tr3 where 3: "populate_port_data W sg tr2 = (r3, sg3, tr3)"
      by (cases "populate_port_data W sg tr2")
    note k3 = keeps_trans [OF k2 populate_port_data_keeps [OF 3]]
    let ?ctx3 = "ctx2\<lparr>ctx_lid := ucast (pa_lid (sg_attr sg3)), ctx_qpn := w_qp_num W (ctx_qp ctx2),
      ctx_psn := w_random W tr3 AND 0xffffff\<rparr>"
    obtain r4 ctx4 tr4 where 4: "client_handshake W ?ctx3 tr3 = (r4, ctx4, tr4)"
      by (cases "client_handshake W ?ctx3 tr3")
    note k4 = keeps_trans [OF k3 client_handshake_keeps [OF 4]]
    obtain r5 ctx5 tr5 where 5: "rdma_setup W sg3 ctx4 tr4 = (r5, ctx5, tr5)"
      by (cases "rdma_setup W sg3 ctx4 tr4")
    have k5: "r5 \<noteq> 0 \<Longrightarrow> keeps tr tr5"
      using keeps_trans [OF k4 rdma_setup_keeps [OF 5]] by blast
    show ?thesis
      using assms 1 Some 2 3 4 5 k2 k3 k4 k5
      by (auto simp: rdma_init_def result_simps Let_def split: if_splits)
  qed
qed

theorem rdma_init_leaks_witness:
  "\<exists>sg' tr'. rdma_init conf_h (ex_kworld\<lparr>w_int := \<lambda>tr c. - 111\<rparr>) 16 (dotted 10 0 0 1) 8888 4 zero_singleton [] =
     Inr (None, sg', tr') \<and> P Kmalloc_Ctx 0x1000 \<in> set tr' \<and> V Kfree_Ctx \<notin> set tr' \<and> V (Ib_Dealloc_Pd 0x1000) \<notin> set tr'"
proof -
  let ?W = "ex_kworld\<lparr>w_int := \<lambda>tr c. - 111\<rparr>"
  obtain tr' where run: "rdma_init conf_h ?W 16 (dotted 10 0 0 1) 8888 4 zero_singleton [] = Inr (None, zero_singleton, tr')"
      "P Kmalloc_Ctx 0x1000 \<in> set tr'"
    by (simp add: rdma_init_def rdma_create_def ask_simps Let_def ex_kworld_def)
  then show ?thesis
    using rdma_init_leaks [OF run(1)] by (auto simp: keeps_def acquires_def)
qed

text \<open>
  C23. When no call fails and the server answers, \<open>rdma_exit\<close> returns 0 and has done
  exactly this: connected again to the server it knows, said goodbye, released the
  socket, freed the batch requests in the pool, three of its four arrays and the
  context. The queue pair, the completion queues, the protection domain, the memory
  region and the receive buffer are not given back.
\<close>
theorem rdma_exit_frees:
  assumes "kind_world W" and "length (server_addr ctx) < 100" and "sscanf_dots 4 (server_addr ctx) \<noteq> []"
    and "ctx_pool ctx = Some p" and "pool_inv p" and "\<forall>tr. w_inbox W tr = [''done'']"
  shows "\<exists>sock addr freed. rdma_exit W ctx tr = Inr (0, tr @ [I Sock_Create 0, I (Sock_Connect sock addr) 0,
      V (Sock_Send sock ''teardown''), V (Sock_Recv sock ''done''), V (Sock_Release sock)] @
      map (\<lambda>a. V (Vfree a)) freed @ [V Kfree_Ctx]) \<and>
    mset freed = mset (pool_items p) + {#data_at p, io_req_at p, pool_at p#}"
  by (rule rdma_exit_runs [OF assms])

theorem rdma_exit_frees_witness:
  "\<exists>ctx tr'. rdma_exit ex_kworld ctx [] = Inr (0, tr') \<and> V Kfree_Ctx \<in> set tr'"
proof -
  obtain p where p: "pool_inv p"
    using get_batch_request_pool_ok [of 2 "\<lambda>k. 9" conf_h "w_batch ex_kworld"] by auto
  let ?ctx = "zero_ctx\<lparr>server_addr := dotted 10 0 0 1, ctx_pool := Some p\<rparr>"
  show ?thesis
    using rdma_exit_frees [OF ex_kind, of ?ctx p "[]"] ex_address p by fastforce
qed

text \<open>
  C38. When the server is gone \<open>rdma_exit\<close> never returns: it gets a socket, which may or
  may not be connected, and every receive on it comes back empty. Since neither the
  result of \<open>reconnect\<close> nor that of the receive is looked at, it is still sending after
  any number of receives.
\<close>
theorem rdma_exit_hangs:
  assumes "length (server_addr ctx) < 100" and "sscanf_dots 4 (server_addr ctx) \<noteq> []"
    and "w_int W tr Sock_Create = 0" and "w_ptr W tr Sock_Create \<noteq> 0" and "\<forall>tr. w_inbox W tr = replicate n []"
  shows "rdma_exit W ctx tr = Inl Spinning"
proof -
  obtain r ctx' tr' where "reconnect W ctx tr = Inr (r, ctx', tr')" "ctx_sock ctx' \<noteq> 0" "sock_live ctx'"
    using connect_socket [OF assms(1-4)] unfolding reconnect_def by blast
  then show ?thesis
    using assms(5) by (simp add: rdma_exit_def client_teardown_def teardown_silent)
qed

theorem rdma_exit_hangs_witness:
  "rdma_exit (ex_kworld\<lparr>w_int := \<lambda>tr c. case c of Sock_Connect s a \<Rightarrow> - 111 | _ \<Rightarrow> 0, w_inbox := \<lambda>tr. replicate 1000 []\<rparr>)
     (zero_ctx\<lparr>server_addr := dotted 10 0 0 1, server_port := 8888\<rparr>) [] = Inl Spinning"
  by (rule rdma_exit_hangs [where n = 1000]) (use ex_address in \<open>simp_all add: ex_kworld_def\<close>)

text \<open>
  C0. When no socket can be had, \<open>rdma_exit\<close> uses one that no longer exists: \<open>rdma_init\<close>
  releases the socket but leaves its address in the context, a failed \<open>reconnect\<close> does
  not replace it, and \<open>teardown\<close> sends through it. This holds for every context that
  \<open>rdma_init\<close> has returned.
\<close>
theorem rdma_exit_stale_socket:
  assumes "rdma_init C W npages ip port sz sg tr = Inr (Some ctx, sg', tr')" and "w_int W' tr1 Sock_Create \<noteq> 0"
  shows "rdma_exit W' ctx tr1 = Inl Use_After_Free"
proof -
  have "length (server_addr ctx) < 100" "sscanf_dots 4 (server_addr ctx) \<noteq> []"
    using rdma_init_reached [OF assms(1)] by auto
  moreover have "ctx_sock ctx \<noteq> 0" "\<not> sock_live ctx"
    using rdma_init_socket [OF assms(1)] by auto
  ultimately show ?thesis
    using assms(2) by (simp add: rdma_exit_def reconnect_def connect_def client_teardown_def translate_ip_def ask_simps Let_def)
qed

theorem rdma_exit_stale_socket_witness:
  "\<exists>ctx sg' tr'. rdma_init conf_h ex_kworld 16 (dotted 10 0 0 1) 8888 4 zero_singleton [] = Inr (Some ctx, sg', tr') \<and>
     rdma_exit (ex_kworld\<lparr>w_int := \<lambda>tr c. - 24\<rparr>) ctx tr' = Inl Use_After_Free"
proof -
  obtain ctx sg' tr' where run: "rdma_init conf_h ex_kworld 16 (dotted 10 0 0 1) 8888 4 zero_singleton [] = Inr (Some ctx, sg', tr')"
    using kind_rdma_init [OF ex_kind ex_address, of 4 conf_h 16 8888 zero_singleton "[]"] by auto
  then show ?thesis
    using rdma_exit_stale_socket [OF run, of "ex_kworld\<lparr>w_int := \<lambda>tr c. - 24\<rparr>" tr'] by auto
qed

end
