(* ===== verification/Server.thy ===== *)
theory Server
  imports Control Handshake Address Complex_Main
begin

unbundle bit_operations_syntax

text \<open>
  The memory server, \<open>src/server/server.c\<close>: \<open>get_port_data\<close> (lines 142 to 162),
  \<open>setup_rdma_2\<close> and \<open>setup_rdma_1\<close> (169 to 320), \<open>shutdown_rdma_1\<close> (323 to 351),
  \<open>wait_for_tcp_connection\<close> (354 to 397) and \<open>main\<close> (399 to 454). Every failed check of
  the code ends the process, which is the fault \<open>Exit\<close>.
\<close>

section \<open>Calls of the server\<close>

datatype scall =
    Socket | Setsockopt int | Bind int "u8 list" | Listen int nat | Accept int | Close int
  | Send int string | Recv int string
  | Malloc u64 | Get_Device_List | Open_Device ptr | Srv_Alloc_Pd ptr | Reg_Mr ptr ptr u64 "access list"
  | Create_Comp_Channel ptr | Srv_Create_Cq ptr nat ptr | Srv_Create_Qp ptr qp_init
  | Srv_Modify_Qp ptr qp_attr "qp_mask list" | Srv_Query_Port ptr | Srv_Query_Gid ptr | Srv_Req_Notify_Cq ptr
  | Destroy_Qp ptr | Destroy_Cq ptr | Destroy_Comp_Channel ptr | Dereg_Mr ptr | Dealloc_Pd ptr | Close_Device ptr

type_synonym strace = "scall event list"

record sworld = "scall world" +
  sw_device :: "ptr \<Rightarrow> ptr"
  sw_port :: "strace \<Rightarrow> ptr \<Rightarrow> port_attr"
  sw_qp_num :: "ptr \<Rightarrow> u32"
  sw_mr_rkey :: "ptr \<Rightarrow> u32"
  sw_rand :: "strace \<Rightarrow> u32"
  sw_inbox :: "strace \<Rightarrow> string list"
  sw_chars :: "strace \<Rightarrow> string"

text \<open>\<open>CHECK_MSG(call(...) == 0, ...)\<close>\<close>

definition must :: "sworld \<Rightarrow> scall \<Rightarrow> strace \<Rightarrow> strace result" where
  "must W c tr = (let (ret, tr') = ask_int W c tr in bindR (check (ret = 0)) (\<lambda>_. Inr tr'))"

definition must_ptr :: "sworld \<Rightarrow> scall \<Rightarrow> strace \<Rightarrow> (ptr \<times> strace) result" where
  "must_ptr W c tr = (let (p, tr') = ask_ptr W c tr in bindR (check (p \<noteq> 0)) (\<lambda>_. Inr (p, tr')))"

section \<open>The queue pair\<close>

definition srv_init_attr :: qp_change where
  "srv_init_attr = (zero_attr\<lparr>qa_state := QPS_INIT, qa_pkey_index := 0, qa_port_num := 1,
       qa_access_flags := [REMOTE_WRITE, REMOTE_READ, REMOTE_ATOMIC]\<rparr>,
     [QP_STATE, QP_PKEY_INDEX, QP_PORT, QP_ACCESS_FLAGS])"

definition srv_rtr_attr :: "srv_context \<Rightarrow> qp_change" where
  "srv_rtr_attr s = (zero_attr\<lparr>qa_state := QPS_RTR, qa_path_mtu := s_active_mtu s, qa_dest_qp_num := s_rem_qpn s,
       qa_rq_psn := s_rem_psn s, qa_max_dest_rd_atomic := 1, qa_min_rnr_timer := 12,
       qa_dlid := ucast (s_rem_lid s), qa_sl := 0, qa_src_path_bits := 0, qa_ah_port_num := 1\<rparr>,
     [QP_STATE, QP_AV, QP_PATH_MTU, QP_DEST_QPN, QP_RQ_PSN, QP_MAX_DEST_RD_ATOMIC, QP_MIN_RNR_TIMER])"

definition srv_rts_attr :: "srv_context \<Rightarrow> qp_change" where
  "srv_rts_attr s = (zero_attr\<lparr>qa_state := QPS_RTS, qa_sq_psn := s_psn s, qa_timeout := 14, qa_retry_cnt := 7,
       qa_rnr_retry := 7, qa_max_rd_atomic := 1\<rparr>,
     [QP_STATE, QP_TIMEOUT, QP_RETRY_CNT, QP_RNR_RETRY, QP_SQ_PSN, QP_MAX_QP_RD_ATOMIC])"

definition srv_modify :: "sworld \<Rightarrow> srv_context \<Rightarrow> qp_change \<Rightarrow> strace \<Rightarrow> strace result" where
  "srv_modify W s c tr = must W (Srv_Modify_Qp (s_qp s) (fst c) (snd c)) tr"

definition setup_rdma_2 :: "sworld \<Rightarrow> srv_context \<Rightarrow> strace \<Rightarrow> strace result" where
  "setup_rdma_2 W s tr =
     bindR (srv_modify W s (srv_rtr_attr s) tr) (\<lambda>tr1. srv_modify W s (srv_rts_attr s) tr1)"

section \<open>Setting up and shutting down\<close>

definition get_port_data :: "sworld \<Rightarrow> srv_context \<Rightarrow> strace \<Rightarrow> (srv_context \<times> strace) result" where
  "get_port_data W s tr =
     bindR (must W (Srv_Query_Port (s_context s)) tr) (\<lambda>tr1.
     let attr = sw_port W tr (s_context s) in
     bindR (check (pa_active_mtu attr = 5)) (\<lambda>_.
     Inr (s\<lparr>s_lid := ucast (pa_lid attr), s_qpn := sw_qp_num W (s_qp s), s_psn := sw_rand W tr1 AND 0xffffff,
            s_local_rkey := sw_mr_rkey W (s_mr s), s_active_mtu := pa_active_mtu attr\<rparr>,
          tell (Srv_Query_Gid (s_context s)) tr1)))"

text \<open>
  The size comparison is done in 64-bit arithmetic, after \<open>int buf_size_gb\<close> was
  converted. The result of \<open>ibv_create_comp_channel\<close> is not checked; a null pointer comes
  to light when \<open>shutdown_rdma_1\<close> destroys the channel.
\<close>

definition setup_rdma_1 :: "sworld \<Rightarrow> srv_context \<Rightarrow> ptr \<Rightarrow> int \<Rightarrow> strace \<Rightarrow> (srv_context \<times> strace) result" where
  "setup_rdma_1 W s buffer buf_size_gb tr =
     (let (dev_list, tr1) = ask_ptr W Get_Device_List tr in
      bindR (assertR (dev_list \<noteq> 0) Null_Deref) (\<lambda>_.
      let ibv_dev = sw_device W dev_list in
      bindR (check (ibv_dev \<noteq> 0)) (\<lambda>_.
      bindR (must_ptr W (Open_Device ibv_dev) tr1) (\<lambda>(ctx, tr2).
      bindR (must_ptr W (Srv_Alloc_Pd ctx) tr2) (\<lambda>(pd, tr3).
      bindR (check (\<not> word_of_int buf_size_gb * 1024 * 1024 * 1024 < s_rdma_mem_size s)) (\<lambda>_.
      bindR (check (buffer \<noteq> 0)) (\<lambda>_.
      bindR (must_ptr W (Reg_Mr pd buffer (s_rdma_mem_size s) [LOCAL_WRITE, REMOTE_WRITE, REMOTE_READ]) tr3) (\<lambda>(mr, tr4).
      let (chan, tr5) = ask_ptr W (Create_Comp_Channel ctx) tr4 in
      bindR (must_ptr W (Srv_Create_Cq ctx 100 chan) tr5) (\<lambda>(scq, tr6).
      bindR (must_ptr W (Srv_Create_Cq ctx 100 chan) tr6) (\<lambda>(rcq, tr7).
      bindR (must_ptr W (Srv_Create_Qp pd
        \<lparr>qi_send_cq = scq, qi_recv_cq = rcq, qi_max_send_wr = 10, qi_max_recv_wr = 10, qi_max_send_sge = 1,
         qi_max_recv_sge = 1, qi_max_inline_data = 0, qi_signal_all = False\<rparr>) tr7) (\<lambda>(q, tr8).
      let s' = s\<lparr>s_context := ctx, s_pd := pd, s_rdma_buffer := buffer, s_mr := mr, s_event_channel := chan,
                 s_send_cq := scq, s_recv_cq := rcq, s_qp := q\<rparr> in
      bindR (srv_modify W s' srv_init_attr tr8) (\<lambda>tr9. Inr (s', tr9)))))))))))))"

definition shutdown_rdma_1 :: "sworld \<Rightarrow> srv_context \<Rightarrow> strace \<Rightarrow> strace result" where
  "shutdown_rdma_1 W s tr =
     bindR (must W (Destroy_Qp (s_qp s)) tr) (\<lambda>tr1.
     bindR (must W (Destroy_Cq (s_recv_cq s)) tr1) (\<lambda>tr2.
     bindR (must W (Destroy_Cq (s_send_cq s)) tr2) (\<lambda>tr3.
     bindR (assertR (s_event_channel s \<noteq> 0) Null_Deref) (\<lambda>_.
     bindR (must W (Destroy_Comp_Channel (s_event_channel s)) tr3) (\<lambda>tr4.
     bindR (must W (Dereg_Mr (s_mr s)) tr4) (\<lambda>tr5.
     bindR (must W (Dealloc_Pd (s_pd s)) tr5) (\<lambda>tr6.
     must W (Close_Device (s_context s)) tr6)))))))"

section \<open>Connections\<close>

text \<open>A system call that reports failure by -1.\<close>

definition syscall :: "sworld \<Rightarrow> scall \<Rightarrow> int \<Rightarrow> strace \<Rightarrow> (int \<times> strace) result" where
  "syscall W c code tr =
     (let (ret, tr') = ask_int W c tr in bindR (assertR (ret \<noteq> - 1) (Exit code)) (\<lambda>_. Inr (ret, tr')))"

definition wait_for_tcp_connection :: "sworld \<Rightarrow> int \<Rightarrow> strace \<Rightarrow> (int \<times> strace) result" where
  "wait_for_tcp_connection W port tr =
     bindR (syscall W Socket 1 tr) (\<lambda>(sockfd, tr1).
     bindR (syscall W (Setsockopt sockfd) 1 tr1) (\<lambda>(_, tr2).
     bindR (syscall W (Bind sockfd (htons (word_of_int port))) 1 tr2) (\<lambda>(_, tr3).
     bindR (syscall W (Listen sockfd 10) 1 tr3) (\<lambda>(_, tr4).
     bindR (syscall W (Accept sockfd) (- 1) tr4) (\<lambda>(new_fd, tr5).
     Inr (new_fd, tell (Close sockfd) tr5))))))"

section \<open>The main loop\<close>

text \<open>The conversion of a double, here a rational number, to an integer type drops the fraction.\<close>

definition c_trunc :: "rat \<Rightarrow> int" where
  "c_trunc r = (if 0 \<le> r then \<lfloor>r\<rfloor> else \<lceil>r\<rceil>)"

definition next_message :: "sworld \<Rightarrow> strace \<Rightarrow> string" where
  "next_message W tr = (case sw_inbox W tr of [] \<Rightarrow> [] | m # _ \<Rightarrow> m)"

text \<open>
  One session up to the point where the client can work (lines 419 to 441). The size is
  a \<open>double\<close>, and the parameter of \<open>setup_rdma_1\<close> an \<open>int\<close>.
\<close>

definition open_session :: "sworld \<Rightarrow> int \<Rightarrow> ptr \<Rightarrow> rat \<Rightarrow> strace \<Rightarrow> (srv_context \<times> strace) result" where
  "open_session W port buffer size_gb tr =
     bindR (wait_for_tcp_connection W port tr) (\<lambda>(new_fd, tr1).
     let m1 = next_message W tr1 in
     bindR (handshake_get_memsize (sw_chars W tr1) m1 zero_context) (\<lambda>s1.
     bindR (setup_rdma_1 W s1 buffer (c_trunc size_gb) (tell (Recv new_fd m1) tr1)) (\<lambda>(s2, tr2).
     bindR (get_port_data W s2 tr2) (\<lambda>(s3, tr3).
     let m2 = next_message W (tr3 @ [V (Send new_fd (boot_message s3))]) in
     bindR (server_handshake m2 s3) (\<lambda>(s4, sent).
     let tr4 = tell (Close new_fd) (tell (Recv new_fd m2) (tr3 @ map (\<lambda>m. V (Send new_fd m)) sent)) in
     bindR (setup_rdma_2 W s4 tr4) (\<lambda>tr5.
     bindR (must W (Srv_Req_Notify_Cq (s_send_cq s4)) tr5) (\<lambda>tr6.
     bindR (must W (Srv_Req_Notify_Cq (s_recv_cq s4)) tr6) (\<lambda>tr7.
     Inr (s4, tr7)))))))))"

text \<open>The rest of the session (lines 443 to 452).\<close>

definition close_session :: "sworld \<Rightarrow> int \<Rightarrow> srv_context \<Rightarrow> strace \<Rightarrow> strace result" where
  "close_session W port s tr =
     bindR (wait_for_tcp_connection W port tr) (\<lambda>(new_fd, tr1).
     bindR (wait_for_tearingdown (sw_chars W tr1) (sw_inbox W tr1)) (\<lambda>sent.
     bindR (shutdown_rdma_1 W s (tr1 @ map (\<lambda>m. V (Send new_fd m)) sent)) (\<lambda>tr2.
     Inr (tell (Close new_fd) tr2))))"

text \<open>\<open>while(1)\<close>: the state after \<open>n\<close> sessions.\<close>

fun serve :: "sworld \<Rightarrow> int \<Rightarrow> ptr \<Rightarrow> rat \<Rightarrow> nat \<Rightarrow> strace \<Rightarrow> strace result" where
  "serve W port buffer size_gb 0 tr = Inr tr"
| "serve W port buffer size_gb (Suc n) tr =
     bindR (open_session W port buffer size_gb tr) (\<lambda>(s, tr1).
     bindR (close_session W port s tr1) (\<lambda>tr2.
     serve W port buffer size_gb n tr2))"

text \<open>
  \<open>main\<close>: \<open>atoi\<close> reads the port; \<open>strtod\<close> is a parameter that gives the value of its
  double. Multiplying a double by 1024 is exact.
\<close>

definition atoi :: "string \<Rightarrow> int" where
  "atoi cs0 =
     (let cs = dropWhile is_space cs0 in
      wrap_int 32 (if cs \<noteq> [] \<and> hd cs = CHR ''-'' then - int (fst (scan_digits 10 (length cs) 0 (tl cs)))
        else if cs \<noteq> [] \<and> hd cs = CHR ''+'' then int (fst (scan_digits 10 (length cs) 0 (tl cs)))
        else int (fst (scan_digits 10 (length cs) 0 cs))))"

definition server_main :: "sworld \<Rightarrow> (string \<Rightarrow> rat) \<Rightarrow> string list \<Rightarrow> nat \<Rightarrow> strace result" where
  "server_main W strtod argv n =
     bindR (check (length argv = 3)) (\<lambda>_.
     let port = atoi (argv ! 1); size_gb = strtod (argv ! 2);
         (buffer, tr) = ask_ptr W (Malloc (word_of_int (c_trunc (size_gb * 1024 * 1024 * 1024)))) [] in
     serve W port buffer size_gb n tr)"

end
