(* ===== verification/Server_Correct.thy ===== *)
theory Server_Correct
  imports Server "HOL-Library.Multiset"
begin

unbundle bit_operations_syntax

text \<open>
  The memory server keeps its promises: a session gives back everything it took, the
  memory it offers lies inside the memory it has, its queue pair goes through its
  states in order, and requests it cannot serve are refused.
\<close>

section \<open>What a successful call leaves in the trace\<close>

lemma mustD: "must W c tr = Inr tr' \<Longrightarrow> tr' = tr @ [I c 0]"
  by (auto simp: must_def ask_int_def split: if_splits)

lemma must_ptrD: "must_ptr W c tr = Inr (p, tr') \<Longrightarrow> p \<noteq> 0 \<and> tr' = tr @ [P c p]"
  by (auto simp: must_ptr_def ask_ptr_def split: if_splits)

lemma syscallD: "syscall W c code tr = Inr (r, tr') \<Longrightarrow> tr' = tr @ [I c r]"
  by (auto simp: syscall_def ask_int_def split: if_splits)

lemma setup_rdma_2_ok:
  assumes "setup_rdma_2 W s tr = Inr tr'"
  shows "tr' = tr @ [I (Srv_Modify_Qp (s_qp s) (fst (srv_rtr_attr s)) (snd (srv_rtr_attr s))) 0,
    I (Srv_Modify_Qp (s_qp s) (fst (srv_rts_attr s)) (snd (srv_rts_attr s))) 0]"
  using assms by (auto simp: setup_rdma_2_def srv_modify_def result_simps dest!: mustD)

lemma answer_range: "w_ptr W t c \<in> range (case_prod (w_ptr W))"
  by (rule range_eqI [of _ _ "(t, c)"]) simp

lemma setup_rdma_1_ok:
  assumes "setup_rdma_1 W s buffer gb tr = Inr (s', tr')"
  obtains dl dev ctx pd mr chan scq rcq q qi where
    "s' = s\<lparr>s_context := ctx, s_pd := pd, s_rdma_buffer := buffer, s_mr := mr, s_event_channel := chan,
       s_send_cq := scq, s_recv_cq := rcq, s_qp := q\<rparr>"
    "tr' = tr @ [P Get_Device_List dl, P (Open_Device dev) ctx, P (Srv_Alloc_Pd ctx) pd,
       P (Reg_Mr pd buffer (s_rdma_mem_size s) [LOCAL_WRITE, REMOTE_WRITE, REMOTE_READ]) mr,
       P (Create_Comp_Channel ctx) chan, P (Srv_Create_Cq ctx 100 chan) scq, P (Srv_Create_Cq ctx 100 chan) rcq,
       P (Srv_Create_Qp pd qi) q, I (Srv_Modify_Qp q (fst srv_init_attr) (snd srv_init_attr)) 0]"
    "buffer \<noteq> 0" "chan \<in> range (case_prod (w_ptr W))" "\<not> word_of_int gb * 1024 * 1024 * 1024 < s_rdma_mem_size s"
  using assms
  by (auto simp: setup_rdma_1_def srv_modify_def result_simps ask_ptr_def Let_def answer_range split: if_splits dest!: mustD must_ptrD)

lemma get_port_data_ok:
  assumes "get_port_data W s tr = Inr (s', tr')"
  shows "s' = s\<lparr>s_lid := ucast (pa_lid (sw_port W tr (s_context s))), s_qpn := sw_qp_num W (s_qp s),
      s_psn := sw_rand W (tr @ [I (Srv_Query_Port (s_context s)) 0]) AND 0xffffff,
      s_local_rkey := sw_mr_rkey W (s_mr s), s_active_mtu := 5\<rparr> \<and>
    tr' = tr @ [I (Srv_Query_Port (s_context s)) 0, V (Srv_Query_Gid (s_context s))]"
  using assms by (auto simp: get_port_data_def result_simps tell_def Let_def split: if_splits dest!: mustD)

lemma shutdown_rdma_1_ok:
  assumes "shutdown_rdma_1 W s tr = Inr tr'"
  shows "tr' = tr @ [I (Destroy_Qp (s_qp s)) 0, I (Destroy_Cq (s_recv_cq s)) 0, I (Destroy_Cq (s_send_cq s)) 0,
    I (Destroy_Comp_Channel (s_event_channel s)) 0, I (Dereg_Mr (s_mr s)) 0, I (Dealloc_Pd (s_pd s)) 0,
    I (Close_Device (s_context s)) 0]"
  using assms by (auto simp: shutdown_rdma_1_def result_simps split: if_splits dest!: mustD)

lemma wait_for_tcp_ok:
  assumes "wait_for_tcp_connection W port tr = Inr (fd, tr')"
  obtains sockfd r1 r2 r3 where "tr' = tr @ [I Socket sockfd, I (Setsockopt sockfd) r1,
    I (Bind sockfd (htons (word_of_int port))) r2, I (Listen sockfd 10) r3, I (Accept sockfd) fd, V (Close sockfd)]"
  using assms by (auto simp: wait_for_tcp_connection_def result_simps tell_def dest!: syscallD)

lemma exchange_stores:
  "server_handshake m s = Inr (s', sent) \<Longrightarrow> sent = [boot_message s] \<and> (\<exists>vs. s' = store_server vs s)"
  by (auto simp: server_handshake_def exchange_bootstrap_data_def Let_def result_simps cstr_write_str
      boot_message_def boot_line_no_nul split: if_splits)

lemma memsize_stores:
  "handshake_get_memsize stack m s = Inr s' \<Longrightarrow> \<exists>n. s' = s\<lparr>s_rdma_mem_size := n\<rparr> \<and> 0 < n"
  by (auto simp: handshake_get_memsize_def Let_def split: if_splits)

text \<open>What an open session consists of.\<close>

lemma open_session_ok:
  assumes "open_session W port buffer gb tr = Inr (s, tr')"
  obtains fd tr1 s1 s2 tr2 s3 tr3 m2 tr5 where
    "wait_for_tcp_connection W port tr = Inr (fd, tr1)"
    "handshake_get_memsize (sw_chars W tr1) (next_message W tr1) zero_context = Inr s1"
    "setup_rdma_1 W s1 buffer (c_trunc gb) (tr1 @ [V (Recv fd (next_message W tr1))]) = Inr (s2, tr2)"
    "get_port_data W s2 tr2 = Inr (s3, tr3)"
    "m2 = next_message W (tr3 @ [V (Send fd (boot_message s3))])" "server_handshake m2 s3 = Inr (s, [boot_message s3])"
    "setup_rdma_2 W s (tr3 @ [V (Send fd (boot_message s3)), V (Recv fd m2), V (Close fd)]) = Inr tr5"
    "tr' = tr5 @ [I (Srv_Req_Notify_Cq (s_send_cq s)) 0, I (Srv_Req_Notify_Cq (s_recv_cq s)) 0]"
proof -
  obtain fd tr1 where 1: "wait_for_tcp_connection W port tr = Inr (fd, tr1)"
    using assms by (auto simp: open_session_def result_simps)
  then obtain s1 where 2: "handshake_get_memsize (sw_chars W tr1) (next_message W tr1) zero_context = Inr s1"
    using assms by (auto simp: open_session_def result_simps Let_def)
  with 1 obtain s2 tr2 where 3: "setup_rdma_1 W s1 buffer (c_trunc gb) (tr1 @ [V (Recv fd (next_message W tr1))]) = Inr (s2, tr2)"
    using assms by (auto simp: open_session_def result_simps Let_def tell_def)
  with 1 2 obtain s3 tr3 where 4: "get_port_data W s2 tr2 = Inr (s3, tr3)"
    using assms by (auto simp: open_session_def result_simps Let_def tell_def)
  let ?m2 = "next_message W (tr3 @ [V (Send fd (boot_message s3))])"
  from 1 2 3 4 obtain s4 sent where 5: "server_handshake ?m2 s3 = Inr (s4, sent)"
    using assms by (auto simp: open_session_def result_simps Let_def tell_def)
  have sent: "sent = [boot_message s3]"
    using exchange_stores [OF 5] by blast
  let ?tr4 = "tr3 @ [V (Send fd (boot_message s3)), V (Recv fd ?m2), V (Close fd)]"
  obtain tr5 where 6: "setup_rdma_2 W s4 ?tr4 = Inr tr5" "s = s4"
      "tr' = tr5 @ [I (Srv_Req_Notify_Cq (s_send_cq s)) 0, I (Srv_Req_Notify_Cq (s_recv_cq s)) 0]"
    using assms 1 2 3 4 5 sent by (auto simp: open_session_def result_simps Let_def tell_def dest!: mustD)
  show ?thesis
    by (rule that [OF 1 2 3 4 refl]) (use 5 6 sent in auto)
qed

text \<open>
  Its trace and what the context holds: the region that is registered is the one that
  is announced.
\<close>

definition session_trace :: "int \<Rightarrow> int \<times> int \<times> int \<times> int \<Rightarrow> int \<Rightarrow> string \<Rightarrow> ptr \<times> ptr \<times> qp_init \<Rightarrow> string \<Rightarrow> srv_context \<Rightarrow> strace" where
  "session_trace port = (\<lambda>(sockfd, r1, r2, r3) fd m1 (dl, dev, qi) m2 s.
     [I Socket sockfd, I (Setsockopt sockfd) r1, I (Bind sockfd (htons (word_of_int port))) r2,
      I (Listen sockfd 10) r3, I (Accept sockfd) fd, V (Close sockfd), V (Recv fd m1),
      P Get_Device_List dl, P (Open_Device dev) (s_context s), P (Srv_Alloc_Pd (s_context s)) (s_pd s),
      P (Reg_Mr (s_pd s) (s_rdma_buffer s) (s_rdma_mem_size s) [LOCAL_WRITE, REMOTE_WRITE, REMOTE_READ]) (s_mr s),
      P (Create_Comp_Channel (s_context s)) (s_event_channel s),
      P (Srv_Create_Cq (s_context s) 100 (s_event_channel s)) (s_send_cq s),
      P (Srv_Create_Cq (s_context s) 100 (s_event_channel s)) (s_recv_cq s),
      P (Srv_Create_Qp (s_pd s) qi) (s_qp s),
      I (Srv_Modify_Qp (s_qp s) (fst srv_init_attr) (snd srv_init_attr)) 0,
      I (Srv_Query_Port (s_context s)) 0, V (Srv_Query_Gid (s_context s)),
      V (Send fd (boot_message s)), V (Recv fd m2), V (Close fd),
      I (Srv_Modify_Qp (s_qp s) (fst (srv_rtr_attr s)) (snd (srv_rtr_attr s))) 0,
      I (Srv_Modify_Qp (s_qp s) (fst (srv_rts_attr s)) (snd (srv_rts_attr s))) 0,
      I (Srv_Req_Notify_Cq (s_send_cq s)) 0, I (Srv_Req_Notify_Cq (s_recv_cq s)) 0])"

lemma open_session_trace:
  assumes "open_session W port buffer gb tr = Inr (s, tr')"
  obtains sk fd m1 ob m2 s3 where "tr' = tr @ session_trace port sk fd m1 ob m2 s"
    "handshake_get_memsize (sw_chars W (tr @ take 6 (session_trace port sk fd m1 ob m2 s))) m1 zero_context = Inr (zero_context\<lparr>s_rdma_mem_size := s_rdma_mem_size s\<rparr>)"
    "server_handshake m2 s3 = Inr (s, [boot_message s])" "boot_message s3 = boot_message s"
    "s_rdma_buffer s = buffer" "s_local_rkey s = sw_mr_rkey W (s_mr s)" "s_qpn s = sw_qp_num W (s_qp s)"
    "\<exists>t. s_psn s = sw_rand W t AND 0xffffff" "\<exists>t d. s_lid s = ucast (pa_lid (sw_port W t d))"
    "\<exists>t k. m1 = next_message W (t @ [V (Close k)])" "\<exists>t m. m2 = next_message W (t @ [V (Send fd m)])"
    "\<not> word_of_int (c_trunc gb) * 1024 * 1024 * 1024 < s_rdma_mem_size s" "0 < s_rdma_mem_size s"
    "s_event_channel s \<in> range (case_prod (w_ptr W))"
proof -
  from assms obtain fd tr1 s1 s2 tr2 s3 tr3 m2 tr5 where
    1: "wait_for_tcp_connection W port tr = Inr (fd, tr1)"
    and 2: "handshake_get_memsize (sw_chars W tr1) (next_message W tr1) zero_context = Inr s1"
    and 3: "setup_rdma_1 W s1 buffer (c_trunc gb) (tr1 @ [V (Recv fd (next_message W tr1))]) = Inr (s2, tr2)"
    and 4: "get_port_data W s2 tr2 = Inr (s3, tr3)"
    and 5: "m2 = next_message W (tr3 @ [V (Send fd (boot_message s3))])" "server_handshake m2 s3 = Inr (s, [boot_message s3])"
    and 6: "setup_rdma_2 W s (tr3 @ [V (Send fd (boot_message s3)), V (Recv fd m2), V (Close fd)]) = Inr tr5"
    and 7: "tr' = tr5 @ [I (Srv_Req_Notify_Cq (s_send_cq s)) 0, I (Srv_Req_Notify_Cq (s_recv_cq s)) 0]"
    by (rule open_session_ok)
  from 1 obtain sockfd r1 r2 r3 where tr1: "tr1 = tr @ [I Socket sockfd, I (Setsockopt sockfd) r1,
      I (Bind sockfd (htons (word_of_int port))) r2, I (Listen sockfd 10) r3, I (Accept sockfd) fd, V (Close sockfd)]"
    by (rule wait_for_tcp_ok)
  from 3 obtain dl dev ctx pd mr chan scq rcq q qi where
    s2: "s2 = s1\<lparr>s_context := ctx, s_pd := pd, s_rdma_buffer := buffer, s_mr := mr, s_event_channel := chan,
       s_send_cq := scq, s_recv_cq := rcq, s_qp := q\<rparr>"
    and tr2: "tr2 = (tr1 @ [V (Recv fd (next_message W tr1))]) @ [P Get_Device_List dl, P (Open_Device dev) ctx,
       P (Srv_Alloc_Pd ctx) pd, P (Reg_Mr pd buffer (s_rdma_mem_size s1) [LOCAL_WRITE, REMOTE_WRITE, REMOTE_READ]) mr,
       P (Create_Comp_Channel ctx) chan, P (Srv_Create_Cq ctx 100 chan) scq, P (Srv_Create_Cq ctx 100 chan) rcq,
       P (Srv_Create_Qp pd qi) q, I (Srv_Modify_Qp q (fst srv_init_attr) (snd srv_init_attr)) 0]"
    and chan: "chan \<in> range (case_prod (w_ptr W))" and size: "\<not> word_of_int (c_trunc gb) * 1024 * 1024 * 1024 < s_rdma_mem_size s1"
    by (rule setup_rdma_1_ok)
  obtain vs where s: "s = store_server vs s3"
    using exchange_stores [OF 5(2)] by blast
  obtain n where s1: "s1 = zero_context\<lparr>s_rdma_mem_size := n\<rparr>" "0 < n"
    using memsize_stores [OF 2] by blast
  note port = get_port_data_ok [OF 4] and m = setup_rdma_2_ok [OF 6]
  have f: "s_context s = ctx" "s_pd s = pd" "s_mr s = mr" "s_event_channel s = chan" "s_send_cq s = scq"
    "s_recv_cq s = rcq" "s_qp s = q" "s_context s2 = ctx" "s_rdma_buffer s = buffer"
    "s_rdma_mem_size s = n" "s_rdma_mem_size s1 = n" "boot_message s3 = boot_message s"
    using port by (simp_all add: s store_server_def s2 s1 boot_message_def)
  have g: "s_local_rkey s = sw_mr_rkey W mr" "s_qpn s = sw_qp_num W q" "\<exists>t. s_psn s = sw_rand W t AND 0xffffff"
    "\<exists>t d. s_lid s = ucast (pa_lid (sw_port W t d))"
    using port by (auto simp: s store_server_def s2)
  have m1: "\<exists>t k. next_message W tr1 = next_message W (t @ [V (Close k)])"
    using tr1 by (intro exI [of _ "butlast tr1"] exI [of _ sockfd]) (simp add: butlast_append)
  have t3: "tr3 = tr2 @ [I (Srv_Query_Port ctx) 0, V (Srv_Query_Gid ctx)]"
    using port f(8) by simp
  show ?thesis
  proof (rule that [where ?m1.0 = "next_message W tr1" and ?s3.0 = s3])
    show "tr' = tr @ session_trace port (sockfd, r1, r2, r3) fd (next_message W tr1) (dl, dev, qi) m2 s"
      unfolding 7 m t3 tr2 f session_trace_def by (simp add: tr1 f)
    have "tr @ take 6 (session_trace port (sockfd, r1, r2, r3) fd (next_message W tr1) (dl, dev, qi) m2 s) = tr1"
      by (simp add: session_trace_def tr1)
    then show "handshake_get_memsize (sw_chars W (tr @ take 6 (session_trace port (sockfd, r1, r2, r3) fd (next_message W tr1)
        (dl, dev, qi) m2 s))) (next_message W tr1) zero_context = Inr (zero_context\<lparr>s_rdma_mem_size := s_rdma_mem_size s\<rparr>)"
      using 2 f s1 by simp
    show "\<exists>t m. m2 = next_message W (t @ [V (Send fd m)])"
      using 5(1) by blast
  qed (use 5(2) f g m1 s1 size chan in simp_all)
qed

section \<open>Taking and giving back\<close>

datatype resource = R_Fd int | R_List ptr | R_Dev ptr | R_Pd ptr | R_Mr ptr | R_Chan ptr | R_Cq ptr | R_Qp ptr

definition gain :: "scall event \<Rightarrow> resource multiset" where
  "gain e = (case e of
     P c p \<Rightarrow> (case c of Get_Device_List \<Rightarrow> {#R_List p#} | Open_Device _ \<Rightarrow> {#R_Dev p#} | Srv_Alloc_Pd _ \<Rightarrow> {#R_Pd p#}
       | Reg_Mr _ _ _ _ \<Rightarrow> {#R_Mr p#} | Create_Comp_Channel _ \<Rightarrow> {#R_Chan p#} | Srv_Create_Cq _ _ _ \<Rightarrow> {#R_Cq p#}
       | Srv_Create_Qp _ _ \<Rightarrow> {#R_Qp p#} | _ \<Rightarrow> {#})
   | I c r \<Rightarrow> (case c of Socket \<Rightarrow> {#R_Fd r#} | Accept _ \<Rightarrow> {#R_Fd r#} | _ \<Rightarrow> {#})
   | V c \<Rightarrow> {#})"

definition loss :: "scall event \<Rightarrow> resource multiset" where
  "loss e = (case e of
     P c p \<Rightarrow> {#}
   | I c r \<Rightarrow> (if r \<noteq> 0 then {#} else
       case c of Close_Device p \<Rightarrow> {#R_Dev p#} | Dealloc_Pd p \<Rightarrow> {#R_Pd p#} | Dereg_Mr p \<Rightarrow> {#R_Mr p#}
       | Destroy_Comp_Channel p \<Rightarrow> {#R_Chan p#} | Destroy_Cq p \<Rightarrow> {#R_Cq p#} | Destroy_Qp p \<Rightarrow> {#R_Qp p#} | _ \<Rightarrow> {#})
   | V c \<Rightarrow> (case c of Close fd \<Rightarrow> {#R_Fd fd#} | _ \<Rightarrow> {#}))"

definition taken :: "strace \<Rightarrow> resource multiset" where
  "taken tr = sum_list (map gain tr)"

definition returned :: "strace \<Rightarrow> resource multiset" where
  "returned tr = sum_list (map loss tr)"

lemma taken_simps [simp]:
  "taken [] = {#}" "taken (e # tr) = gain e + taken tr" "taken (tr @ tr') = taken tr + taken tr'"
  by (simp_all add: taken_def)

lemma returned_simps [simp]:
  "returned [] = {#}" "returned (e # tr) = loss e + returned tr" "returned (tr @ tr') = returned tr + returned tr'"
  by (simp_all add: returned_def)

lemma open_session_takes:
  assumes "open_session W port buffer gb tr = Inr (s, tr')"
  obtains ext dl where "tr' = tr @ ext" "taken ext = returned ext + {#R_List dl, R_Dev (s_context s), R_Pd (s_pd s),
    R_Mr (s_mr s), R_Chan (s_event_channel s), R_Cq (s_send_cq s), R_Cq (s_recv_cq s), R_Qp (s_qp s)#}"
proof -
  from assms obtain sk fd m1 ob m2 where t: "tr' = tr @ session_trace port sk fd m1 ob m2 s"
    by (rule open_session_trace)
  obtain dl dev qi where ob: "ob = (dl, dev, qi)"
    by (cases ob)
  show ?thesis
    by (rule that [OF t, of dl]) (cases sk, simp add: ob session_trace_def gain_def loss_def)
qed

lemma close_session_returns:
  assumes "close_session W port s tr = Inr tr'"
  obtains ext where "tr' = tr @ ext" "returned ext = taken ext + {#R_Dev (s_context s), R_Pd (s_pd s),
    R_Mr (s_mr s), R_Chan (s_event_channel s), R_Cq (s_send_cq s), R_Cq (s_recv_cq s), R_Qp (s_qp s)#}"
proof -
  from assms obtain fd tr1 sent tr2 where 1: "wait_for_tcp_connection W port tr = Inr (fd, tr1)"
      and 2: "shutdown_rdma_1 W s (tr1 @ map (\<lambda>m. V (Send fd m)) sent) = Inr tr2" "tr' = tr2 @ [V (Close fd)]"
    by (auto simp: close_session_def result_simps tell_def)
  from 1 obtain sockfd r1 r2 r3 where tr1: "tr1 = tr @ [I Socket sockfd, I (Setsockopt sockfd) r1,
      I (Bind sockfd (htons (word_of_int port))) r2, I (Listen sockfd 10) r3, I (Accept sockfd) fd, V (Close sockfd)]"
    by (rule wait_for_tcp_ok)
  have sends: "taken (map (\<lambda>m. V (Send fd m)) sent) = {#}" "returned (map (\<lambda>m. V (Send fd m)) sent) = {#}"
    by (induction sent) (simp_all add: gain_def loss_def)
  show ?thesis
    using tr1 2(2) shutdown_rdma_1_ok [OF 2(1)] sends
    by (intro that) (simp add: tr1, simp add: gain_def loss_def)
qed

lemma serve_balance:
  assumes "serve W port buffer gb n tr = Inr tr'"
  shows "\<exists>ext dls. tr' = tr @ ext \<and> length dls = n \<and> taken ext = returned ext + mset (map R_List dls)"
  using assms
proof (induction n arbitrary: tr)
  case (Suc n)
  from Suc.prems obtain s tr1 tr2 where o: "open_session W port buffer gb tr = Inr (s, tr1)"
      and c: "close_session W port s tr1 = Inr tr2" and r: "serve W port buffer gb n tr2 = Inr tr'"
    by (auto simp: result_simps)
  from o obtain e1 dl where e1: "tr1 = tr @ e1" "taken e1 = returned e1 + {#R_List dl, R_Dev (s_context s), R_Pd (s_pd s),
      R_Mr (s_mr s), R_Chan (s_event_channel s), R_Cq (s_send_cq s), R_Cq (s_recv_cq s), R_Qp (s_qp s)#}"
    by (rule open_session_takes)
  from c obtain e2 where e2: "tr2 = tr1 @ e2" "returned e2 = taken e2 + {#R_Dev (s_context s), R_Pd (s_pd s),
      R_Mr (s_mr s), R_Chan (s_event_channel s), R_Cq (s_send_cq s), R_Cq (s_recv_cq s), R_Qp (s_qp s)#}"
    by (rule close_session_returns)
  from Suc.IH [OF r] obtain e3 dls where "tr' = tr2 @ e3" "length dls = n" "taken e3 = returned e3 + mset (map R_List dls)"
    by blast
  with e1 e2 show ?case
    by (intro exI [of _ "e1 @ e2 @ e3"] exI [of _ "dl # dls"]) (simp add: ac_simps)
qed simp

section \<open>The queue pair\<close>

definition server_script :: "srv_context \<Rightarrow> qp_change list" where
  "server_script s = [srv_init_attr, srv_rtr_attr s, srv_rts_attr s]"

interpretation sv_qp: bring_up server_script s_psn s_rem_qpn s_rem_psn s_rem_lid
proof
  fix s :: srv_context
  show "\<exists>q. qp_path new_qp (server_script s) q \<and> rts_qp q (s_psn s) (s_rem_qpn s) (s_rem_psn s) (s_rem_lid s)"
  proof (rule exI conjI)+
    show "qp_path new_qp (server_script s)
      \<lparr>q_state = QPS_RTS, q_access = [REMOTE_WRITE, REMOTE_READ, REMOTE_ATOMIC], q_port = 1, q_mtu = s_active_mtu s,
       q_dest_qpn = s_rem_qpn s, q_dlid = ucast (s_rem_lid s), q_rq_psn = s_rem_psn s, q_sq_psn = s_psn s\<rparr>"
      using qp_path_three [of "fst srv_init_attr" "snd srv_init_attr" "fst (srv_rtr_attr s)" "snd (srv_rtr_attr s)"
          "fst (srv_rts_attr s)" "snd (srv_rts_attr s)"]
      by (simp add: server_script_def srv_init_attr_def srv_rtr_attr_def srv_rts_attr_def needed_def)
  qed (simp add: rts_qp_def)
qed

definition srv_change :: "ptr \<Rightarrow> scall event \<Rightarrow> qp_change list" where
  "srv_change q e = (case e of I c r \<Rightarrow>
       (case c of Srv_Modify_Qp q' a m \<Rightarrow> if q' = q \<and> r = 0 then [(a, m)] else [] | _ \<Rightarrow> []) | _ \<Rightarrow> [])"

definition srv_changes :: "ptr \<Rightarrow> strace \<Rightarrow> qp_change list" where
  "srv_changes q tr = concat (map (srv_change q) tr)"

lemma srv_changes_simps [simp]:
  "srv_changes q [] = []" "srv_changes q (e # tr) = srv_change q e @ srv_changes q tr"
  "srv_changes q (tr @ tr') = srv_changes q tr @ srv_changes q tr'"
  by (simp_all add: srv_changes_def)

lemma session_trace_facts:
  "srv_changes (s_qp s) (session_trace port sk fd m1 ob m2 s) = server_script s"
  "P (Reg_Mr (s_pd s) (s_rdma_buffer s) (s_rdma_mem_size s) [LOCAL_WRITE, REMOTE_WRITE, REMOTE_READ]) (s_mr s) \<in>
     set (session_trace port sk fd m1 ob m2 s)"
  "P (Reg_Mr pd b n acc) p \<in> set (session_trace port sk fd m1 ob m2 s) \<Longrightarrow> b = s_rdma_buffer s \<and> n = s_rdma_mem_size s"
  by (cases sk; cases ob; simp add: session_trace_def srv_change_def server_script_def)+

text \<open>Dropping the fraction before multiplying gives no more than dropping it after.\<close>

lemma trunc_gb:
  fixes n :: u64
  assumes "0 \<le> r" and "r < 2 ^ 31" and "\<not> word_of_int (c_trunc r) * 1024 * 1024 * 1024 < n"
  shows "n \<le> word_of_int (c_trunc (r * 1024 * 1024 * 1024))"
proof -
  let ?k = "\<lfloor>r\<rfloor>" and ?m = "\<lfloor>r * 1024 * 1024 * 1024\<rfloor>"
  have k: "0 \<le> ?k" "?k < 2 ^ 31"
    using assms(1,2) by (simp_all add: floor_less_iff)
  have m: "?k * 2 ^ 30 \<le> ?m" "?m < 2 ^ 61"
    using assms(1,2) of_int_floor_le [of r] by (simp_all add: le_floor_iff floor_less_iff)
  have "uint (word_of_int ?k * 1024 * 1024 * 1024 :: u64) = ?k * 2 ^ 30"
    using k by (simp add: uint_word_ariths uint_word_of_int take_bit_int_eq_self)
  moreover have "uint (word_of_int ?m :: u64) = ?m"
    using k m by (simp add: uint_word_of_int take_bit_int_eq_self)
  ultimately show ?thesis
    using assms(1,3) m by (simp add: c_trunc_def word_less_def word_le_def)
qed

text \<open>The regions registered along a trace: address and size.\<close>

definition regions :: "strace \<Rightarrow> (ptr \<times> u64) list" where
  "regions tr = concat (map (\<lambda>e. case e of P c p \<Rightarrow> (case c of Reg_Mr pd b n acc \<Rightarrow> [(b, n)] | _ \<Rightarrow> []) | _ \<Rightarrow> []) tr)"

lemma regions_simps [simp]:
  "regions [] = []" "regions (I c r # tr) = regions tr" "regions (V c # tr) = regions tr"
  "regions (tr @ tr') = regions tr @ regions tr'"
  by (simp_all add: regions_def)

lemma regions_session: "regions (session_trace port sk fd m1 ob m2 s) = [(s_rdma_buffer s, s_rdma_mem_size s)]"
  by (cases sk; cases ob) (simp add: session_trace_def regions_def)

lemma regions_close:
  assumes "close_session W port s tr = Inr tr'"
  shows "\<exists>ext. tr' = tr @ ext \<and> regions ext = []"
proof -
  from assms obtain fd tr1 sent tr2 where 1: "wait_for_tcp_connection W port tr = Inr (fd, tr1)"
      and 2: "shutdown_rdma_1 W s (tr1 @ map (\<lambda>m. V (Send fd m)) sent) = Inr tr2" "tr' = tr2 @ [V (Close fd)]"
    by (auto simp: close_session_def result_simps tell_def)
  have "regions (map (\<lambda>m. V (Send fd m)) sent) = []"
    by (induction sent) simp_all
  moreover from 1 obtain sockfd r1 r2 r3 where "tr1 = tr @ [I Socket sockfd, I (Setsockopt sockfd) r1,
      I (Bind sockfd (htons (word_of_int port))) r2, I (Listen sockfd 10) r3, I (Accept sockfd) fd, V (Close sockfd)]"
    by (rule wait_for_tcp_ok)
  ultimately show ?thesis
    by (simp add: 2(2) shutdown_rdma_1_ok [OF 2(1)])
qed

lemma serve_regions:
  assumes "serve W port buffer gb n tr = Inr tr'"
  shows "\<exists>ext. tr' = tr @ ext \<and> length (regions ext) = n \<and>
    (\<forall>(b, k) \<in> set (regions ext). b = buffer \<and> \<not> word_of_int (c_trunc gb) * 1024 * 1024 * 1024 < k)"
  using assms
proof (induction n arbitrary: tr)
  case (Suc n)
  from Suc.prems obtain s tr1 tr2 where o: "open_session W port buffer gb tr = Inr (s, tr1)"
      and c: "close_session W port s tr1 = Inr tr2" and r: "serve W port buffer gb n tr2 = Inr tr'"
    by (auto simp: result_simps)
  from o obtain sk fd m1 ob m2 where e1: "tr1 = tr @ session_trace port sk fd m1 ob m2 s" "s_rdma_buffer s = buffer"
      "\<not> word_of_int (c_trunc gb) * 1024 * 1024 * 1024 < s_rdma_mem_size s"
    by (rule open_session_trace)
  obtain e2 where e2: "tr2 = tr1 @ e2" "regions e2 = []"
    using regions_close [OF c] by blast
  from Suc.IH [OF r] obtain e3 where "tr' = tr2 @ e3" "length (regions e3) = n"
      "\<forall>(b, k) \<in> set (regions e3). b = buffer \<and> \<not> word_of_int (c_trunc gb) * 1024 * 1024 * 1024 < k"
    by blast
  with e1 e2 show ?case
    by (intro exI [of _ "session_trace port sk fd m1 ob m2 s @ e2 @ e3"]) (simp add: regions_session)
qed simp

section \<open>Kind surroundings\<close>

definition kind_server :: "sworld \<Rightarrow> bool" where
  "kind_server W \<longleftrightarrow> (\<forall>tr c. w_int W tr c = 0) \<and> (\<forall>tr c. w_ptr W tr c \<noteq> 0) \<and> (\<forall>p. sw_device W p \<noteq> 0) \<and>
     (\<forall>tr d. pa_active_mtu (sw_port W tr d) = 5)"

lemma kind_must: "kind_server W \<Longrightarrow> must W c tr = Inr (tr @ [I c 0])"
  by (simp add: must_def ask_int_def kind_server_def)

lemma kind_must_ptr: "kind_server W \<Longrightarrow> must_ptr W c tr = Inr (w_ptr W tr c, tr @ [P c (w_ptr W tr c)])"
  by (simp add: must_ptr_def ask_ptr_def kind_server_def)

lemma kind_syscall: "kind_server W \<Longrightarrow> syscall W c code tr = Inr (0, tr @ [I c 0])"
  by (simp add: syscall_def ask_int_def kind_server_def)

definition accept_trace :: "int \<Rightarrow> strace" where
  "accept_trace port = [I Socket 0, I (Setsockopt 0) 0, I (Bind 0 (htons (word_of_int port))) 0, I (Listen 0 10) 0,
     I (Accept 0) 0, V (Close 0)]"

lemma kind_tcp: "kind_server W \<Longrightarrow> wait_for_tcp_connection W port tr = Inr (0, tr @ accept_trace port)"
  by (simp add: wait_for_tcp_connection_def kind_syscall tell_def accept_trace_def)

lemma kind_setup_1:
  assumes "kind_server W" and "buffer \<noteq> 0" and "\<not> word_of_int gb * 1024 * 1024 * 1024 < s_rdma_mem_size s"
  shows "\<exists>s' tr'. setup_rdma_1 W s buffer gb tr = Inr (s', tr')"
proof -
  have "w_ptr W tr Get_Device_List \<noteq> 0" "sw_device W (w_ptr W tr Get_Device_List) \<noteq> 0"
    using assms(1) by (simp_all add: kind_server_def)
  then show ?thesis
    using assms(2,3)
    by (simp add: setup_rdma_1_def ask_ptr_def Let_def kind_must [OF assms(1)] kind_must_ptr [OF assms(1)] srv_modify_def)
qed

text \<open>
  A session opens when the client asks for no more than there is and sends something in
  the handshake, and it closes when the client asks for that.
\<close>

lemma kind_open:
  assumes "kind_server W" and "buffer \<noteq> 0"
    and "handshake_get_memsize (sw_chars W (tr @ accept_trace port)) (next_message W (tr @ accept_trace port)) zero_context =
      Inr (zero_context\<lparr>s_rdma_mem_size := n\<rparr>)" and "\<not> word_of_int (c_trunc gb) * 1024 * 1024 * 1024 < n"
    and "\<And>t m. next_message W (t @ [V (Send 0 m)]) \<noteq> []"
  shows "\<exists>s tr'. open_session W port buffer gb tr = Inr (s, tr')"
proof -
  let ?tr1 = "tr @ accept_trace port"
  from assms(4) have "\<not> word_of_int (c_trunc gb) * 1024 * 1024 * 1024 < s_rdma_mem_size (zero_context\<lparr>s_rdma_mem_size := n\<rparr>)"
    by simp
  then obtain s2 tr2 where 3: "setup_rdma_1 W (zero_context\<lparr>s_rdma_mem_size := n\<rparr>) buffer (c_trunc gb)
      (tell (Recv 0 (next_message W ?tr1)) ?tr1) = Inr (s2, tr2)"
    using kind_setup_1 [OF assms(1,2)] by blast
  obtain s3 tr3 where 4: "get_port_data W s2 tr2 = Inr (s3, tr3)"
    using assms(1) by (simp add: get_port_data_def kind_must) (simp add: kind_server_def)
  obtain s4 where 5: "server_handshake (next_message W (tr3 @ [V (Send 0 (boot_message s3))])) s3 = Inr (s4, [boot_message s3])"
    using assms(5) by (simp add: server_handshake_def exchange_bootstrap_data_def Let_def cstr_write_str boot_message_def
        boot_line_no_nul)
  show ?thesis
    using assms(3) 3 4 5 by (simp add: open_session_def setup_rdma_2_def srv_modify_def kind_must [OF assms(1)] kind_tcp [OF assms(1)])
qed

lemma kind_close:
  assumes "kind_server W"
    and "wait_for_tearingdown (sw_chars W (tr @ accept_trace port)) (sw_inbox W (tr @ accept_trace port)) = Inr sent" and "s_event_channel s \<noteq> 0"
  shows "\<exists>tr'. close_session W port s tr = Inr tr'"
  using assms(2,3) by (simp add: close_session_def shutdown_rdma_1_def kind_must [OF assms(1)] kind_tcp [OF assms(1)])

section \<open>An example\<close>

definition ex_sworld :: "u64 \<Rightarrow> sworld" where
  "ex_sworld n = \<lparr>w_ptr = (\<lambda>tr c. 0x2000), w_int = (\<lambda>tr c. 0), sw_device = (\<lambda>p. 1),
     sw_port = (\<lambda>tr d. \<lparr>pa_active_mtu = 5, pa_lid = 4\<rparr>), sw_qp_num = (\<lambda>q. 88), sw_mr_rkey = (\<lambda>p. 9),
     sw_rand = (\<lambda>tr. 0x87654321), sw_inbox = (\<lambda>tr. [show_digits 10 (unat n)]), sw_chars = (\<lambda>tr. replicate 1000 NUL)\<rparr>"

lemma ex_kind_server: "kind_server (ex_sworld n)"
  by (simp add: kind_server_def ex_sworld_def)

lemma ex_memsize:
  "handshake_get_memsize (replicate 1000 NUL) (show_digits 10 (unat (65536 :: u64))) zero_context =
     Inr (zero_context\<lparr>s_rdma_mem_size := 65536\<rparr>)"
proof (rule memsize_reads)
  show "field_end 10 (cstr (drop (length (show_digits 10 (unat (65536 :: u64)))) (replicate 1000 NUL)))"
    by (simp only: drop_replicate cstr_zeros field_end_Nil)
qed simp

text \<open>The client sends the size first and \<open>teardown\<close> once the session is open.\<close>

definition opens :: "scall event \<Rightarrow> bool" where
  "opens e \<longleftrightarrow> (case call_of e of Srv_Req_Notify_Cq q \<Rightarrow> True | _ \<Rightarrow> False)"

definition ex_sworld2 :: sworld where
  "ex_sworld2 = (ex_sworld 65536)\<lparr>sw_inbox := (\<lambda>tr. if list_ex opens tr
     then [''teardown''] else [show_digits 10 (unat (65536 :: u64))])\<rparr>"

lemma ex_kind_server2: "kind_server ex_sworld2"
  using ex_kind_server by (simp add: kind_server_def ex_sworld2_def)

lemma ex_sworld2_chars [simp]: "sw_chars ex_sworld2 t = replicate 1000 NUL"
  by (simp add: ex_sworld2_def ex_sworld_def)

lemma c_trunc_1 [simp]: "c_trunc 1 = 1" "c_trunc (3 / 2) = 1" "c_trunc (1 / 2) = 0"
  by (simp_all add: c_trunc_def floor_eq_iff)

lemma ex_open:
  assumes "\<not> list_ex opens tr" and "buffer \<noteq> 0" and "c_trunc gb = 1"
  shows "\<exists>s tr'. open_session ex_sworld2 8888 buffer gb tr = Inr (s, tr')"
proof (rule kind_open [OF ex_kind_server2 assms(2)])
  show "handshake_get_memsize (sw_chars ex_sworld2 (tr @ accept_trace 8888)) (next_message ex_sworld2 (tr @ accept_trace 8888))
      zero_context = Inr (zero_context\<lparr>s_rdma_mem_size := 65536\<rparr>)"
    unfolding ex_sworld2_chars
    using ex_memsize assms(1) by (simp add: ex_sworld2_def next_message_def accept_trace_def opens_def)
  show "next_message ex_sworld2 (t @ [V (Send 0 m)]) \<noteq> []" for t m
    by (simp add: ex_sworld2_def next_message_def)
qed (simp add: assms(3))

lemma ex_serve:
  assumes "\<not> list_ex opens tr" and "buffer \<noteq> 0" and "c_trunc gb = 1"
  shows "\<exists>tr'. serve ex_sworld2 8888 buffer gb 1 tr = Inr tr'"
proof -
  obtain s tr1 where o: "open_session ex_sworld2 8888 buffer gb tr = Inr (s, tr1)"
    using ex_open [OF assms] by blast
  then obtain sk fd m1 ob m2 where "tr1 = tr @ session_trace 8888 sk fd m1 ob m2 s" and "s_event_channel s \<in> range (case_prod (w_ptr ex_sworld2))"
    by (rule open_session_trace)
  then have "sw_inbox ex_sworld2 (tr1 @ accept_trace 8888) = [''teardown'']" "s_event_channel s \<noteq> 0"
    using ex_kind_server2 by (cases sk; cases ob; auto simp: session_trace_def ex_sworld2_def kind_server_def opens_def)+
  then obtain tr2 where "close_session ex_sworld2 8888 s tr1 = Inr tr2"
    using kind_close [OF ex_kind_server2, of tr1 8888 "[''done'']" s]
    by (auto simp: wait_for_tearingdown_def recv_into_def cstr_def)
  with o show ?thesis
    by simp
qed

lemma atoi_8888: "atoi ''8888'' = 8888"
  by (simp add: atoi_def Let_def is_space_def wrap_int_def digit_val_def)

section \<open>Properties\<close>

text \<open>
  C12. The server gives back what it takes: however many sessions it has served, every
  socket, device handle, protection domain, memory region, completion channel,
  completion queue and queue pair that was obtained has been returned. The one
  exception are the device lists, one per session, which are never freed.
\<close>
theorem server_balanced:
  assumes "serve W port buffer gb n tr = Inr tr'"
  shows "\<exists>ext dls. tr' = tr @ ext \<and> length dls = n \<and> taken ext = returned ext + mset (map R_List dls)"
  by (rule serve_balance [OF assms])

theorem server_balanced_witness:
  "\<exists>tr' dl. serve ex_sworld2 8888 0x10000 1 1 [] = Inr tr' \<and> taken tr' = returned tr' + {#R_List dl#}"
proof -
  obtain tr' where run: "serve ex_sworld2 8888 0x10000 1 1 [] = Inr tr'"
    using ex_serve [of "[]" "0x10000" 1] by auto
  from server_balanced [OF run] obtain dls where "length dls = 1" "taken tr' = returned tr' + mset (map R_List dls)"
    by auto
  with run show ?thesis
    by (cases dls) auto
qed

text \<open>
  C18. The memory clients are offered belongs to the server. The first thing \<open>main\<close> does
  is to allocate memory; after that it registers one region per session, at the address
  of that memory and not larger than it, for every size in gigabytes that an \<open>int\<close> can
  hold, fractions included.
\<close>
theorem server_offers_owned:
  assumes "server_main W strtod argv n = Inr tr" and "0 \<le> strtod (argv ! 2)" and "strtod (argv ! 2) < 2 ^ 31"
  shows "\<exists>sz buffer rest. tr = P (Malloc sz) buffer # rest \<and> length (regions rest) = n \<and>
    (\<forall>(b, k) \<in> set (regions rest). b = buffer \<and> k \<le> sz)"
proof -
  let ?sz = "word_of_int (c_trunc (strtod (argv ! 2) * 1024 * 1024 * 1024)) :: u64"
  let ?buf = "w_ptr W [] (Malloc ?sz)"
  have "serve W (atoi (argv ! 1)) ?buf (strtod (argv ! 2)) n [P (Malloc ?sz) ?buf] = Inr tr"
    using assms(1) by (simp add: server_main_def ask_ptr_def Let_def split: if_splits)
  from serve_regions [OF this] obtain ext where "tr = P (Malloc ?sz) ?buf # ext" "length (regions ext) = n"
      "\<forall>(b, k) \<in> set (regions ext). b = ?buf \<and> \<not> word_of_int (c_trunc (strtod (argv ! 2))) * 1024 * 1024 * 1024 < k"
    by auto
  then show ?thesis
    using trunc_gb [OF assms(2,3)] by blast
qed

theorem server_offers_owned_witness:
  "\<exists>tr sz buffer rest k. server_main ex_sworld2 (\<lambda>_. 3 / 2) [''server'', ''8888'', ''1.5''] 1 = Inr tr \<and>
     tr = P (Malloc sz) buffer # rest \<and> regions rest = [(buffer, k)] \<and> k \<le> sz"
proof -
  let ?argv = "[''server'', ''8888'', ''1.5'']" and ?e = "P (Malloc 1610612736) 0x2000 :: scall event"
  have "c_trunc ((3 / 2) * 1024 * 1024 * 1024) = 1610612736"
    by (simp add: c_trunc_def floor_eq_iff)
  moreover obtain tr where "serve ex_sworld2 8888 0x2000 (3 / 2) 1 [?e] = Inr tr"
    using ex_serve [of "[?e]" "0x2000" "3 / 2"] by (auto simp: opens_def)
  moreover have "w_ptr ex_sworld2 t c = 0x2000" for t c
    by (simp add: ex_sworld2_def ex_sworld_def)
  ultimately have run: "server_main ex_sworld2 (\<lambda>_. 3 / 2) ?argv 1 = Inr tr"
    by (simp add: server_main_def atoi_8888 ask_ptr_def)
  from server_offers_owned [OF run] obtain sz buffer rest where t: "tr = P (Malloc sz) buffer # rest" "length (regions rest) = 1"
      "\<forall>(b, k) \<in> set (regions rest). b = buffer \<and> k \<le> sz"
    by auto
  then obtain b k where "regions rest = [(b, k)]"
    by (cases "regions rest") auto
  with run t show ?thesis
    by auto
qed

text \<open>
  C40. A server started with less than one gigabyte serves nobody: the size it compares
  requests with has lost its fraction and is 0, so that \<open>main\<close> never completes a session,
  not even for a request that would fit.
\<close>
theorem server_below_one_gb:
  assumes "0 \<le> strtod (argv ! 2)" and "strtod (argv ! 2) < 1"
  shows "server_main W strtod argv (Suc n) \<noteq> Inr tr"
proof
  assume run: "server_main W strtod argv (Suc n) = Inr tr"
  let ?sz = "word_of_int (c_trunc (strtod (argv ! 2) * 1024 * 1024 * 1024)) :: u64"
  obtain s tr1 where "open_session W (atoi (argv ! 1)) (w_ptr W [] (Malloc ?sz)) (strtod (argv ! 2))
      [P (Malloc ?sz) (w_ptr W [] (Malloc ?sz))] = Inr (s, tr1)"
    using run by (auto simp: server_main_def ask_ptr_def Let_def result_simps split: if_splits)
  then have "\<not> word_of_int (c_trunc (strtod (argv ! 2))) * 1024 * 1024 * 1024 < s_rdma_mem_size s" "0 < s_rdma_mem_size s"
    by (rule open_session_trace, blast)+
  moreover have "c_trunc (strtod (argv ! 2)) = 0"
    using assms by (simp add: c_trunc_def floor_eq_iff)
  ultimately show False
    by simp
qed

theorem server_below_one_gb_witness:
  "\<forall>n tr. server_main ex_sworld2 (\<lambda>_. 1 / 2) [''server'', ''8888'', ''0.5''] (Suc n) \<noteq> Inr tr"
  using server_below_one_gb [of "\<lambda>_. 1 / 2"] by simp

end
