(* ===== verification/Session.thy ===== *)
theory Session
  imports Client_Correct Server_Correct
begin

text \<open>
  Client and server together. The two run on different hosts and know of each other
  only what the TCP connection carries. When what one says is what the other hears,
  in the same order, their queue pairs end up connected to each other, and the client
  holds the address, the key and the size of the region that the server registered.
\<close>

section \<open>The conversation\<close>

definition srv_talk :: "scall event \<Rightarrow> (bool \<times> string) list" where
  "srv_talk e = (case e of V c \<Rightarrow>
       (case c of Send fd m \<Rightarrow> [(True, m)] | Recv fd m \<Rightarrow> [(False, m)] | _ \<Rightarrow> []) | _ \<Rightarrow> [])"

definition srv_talks :: "strace \<Rightarrow> (bool \<times> string) list" where
  "srv_talks tr = concat (map srv_talk tr)"

text \<open>What is said at one end is heard at the other.\<close>

definition paired :: "ktrace \<Rightarrow> strace \<Rightarrow> bool" where
  "paired ct st \<longleftrightarrow> srv_talks st = map (\<lambda>(said, m). (\<not> said, m)) (talks ct)"

lemma session_talks: "srv_talks (session_trace port sk fd m1 ob m2 s) = [(False, m1), (True, boot_message s), (False, m2)]"
  by (cases sk; cases ob) (simp add: srv_talks_def srv_talk_def session_trace_def)

text \<open>
  The buffers that receive: the contents of the stack at the moment a side starts to
  talk. They are not initialised, and a number at the end of a message is read correctly
  when what lies behind it in these buffers does not continue it.
\<close>

definition client_buffer :: "kworld \<Rightarrow> ktrace \<Rightarrow> ktrace \<Rightarrow> string" where
  "client_buffer W tr ext = w_chars W (tr @ takeWhile (\<lambda>e. talk e = []) ext)"

definition server_buffer :: "sworld \<Rightarrow> strace \<Rightarrow> strace \<Rightarrow> string" where
  "server_buffer S tr ext = sw_chars S (tr @ takeWhile (\<lambda>e. srv_talk e = []) ext)"

lemma silent_prefix: "talks ext0 = [] \<Longrightarrow> talk e \<noteq> [] \<Longrightarrow> takeWhile (\<lambda>e. talk e = []) (ext0 @ e # rest) = ext0"
  by (induction ext0) (auto simp: talks_def)

lemma session_prefix:
  "takeWhile (\<lambda>e. srv_talk e = []) (session_trace port sk fd m1 ob m2 s) = take 6 (session_trace port sk fd m1 ob m2 s)"
  by (cases sk; cases ob) (simp add: srv_talk_def session_trace_def)

section \<open>What both sides know\<close>

lemma session_agrees:
  assumes client: "rdma_init C W npages ip port sz sg tr = Inr (Some ctx, sg', tr @ cext)"
    and server: "open_session S sport buffer gb str = Inr (s, str @ sext)"
    and tcp: "paired cext sext" and unspoilt: "unspoilt 16 (boot_message s) (client_buffer W tr cext)"
      "unspoilt 10 (show_digits 10 (unat (rem_mem_size ctx))) (server_buffer S str sext)"
  shows "rem_vaddr ctx = buffer \<and> rem_rkey ctx = sw_mr_rkey S (s_mr s) \<and> rem_qpn ctx = s_qpn s \<and>
    rem_psn ctx = s_psn s \<and> rem_lid ctx = s_lid s \<and> s_rem_qpn s = ctx_qpn ctx \<and> s_rem_psn s = ctx_psn ctx \<and>
    s_rem_lid s = ctx_lid ctx \<and> s_rdma_mem_size s = rem_mem_size ctx \<and>
    rem_mem_size ctx = word_of_int npages * 4096 \<and> 0 < rem_mem_size ctx"
proof -
  from rdma_init_some [OF client] obtain ctx3 ctx4 trh buf keys dma pool ext where
    c3: "rem_mem_size ctx3 = word_of_int npages * 4096"
    and c4: "ctx4 = fst (handshake (w_chars W trh) (first_message (w_inbox W trh)) ctx3)"
    and c: "ctx = ctx4\<lparr>rdma_recv_buffer := buf, ctx_mr := Some keys, ctx_rkey := mr_rkey keys, ctx_dma_addr := dma,
      sock_live := False, ctx_pool := Some pool\<rparr>"
    and t: "tr @ cext = trh @ [V (Sock_Send (ctx_sock ctx3) (snd (handshake (w_chars W trh) (first_message (w_inbox W trh)) ctx3) ! 0)),
       V (Sock_Recv (ctx_sock ctx3) (first_message (w_inbox W trh))),
       V (Sock_Send (ctx_sock ctx3) (snd (handshake (w_chars W trh) (first_message (w_inbox W trh)) ctx3) ! 1))] @
       ext @ [V (Sock_Release (ctx_sock ctx))]" "quiet tr trh" "talks ext = []"
    by metis
  let ?mem = "show_digits 10 (unat (rem_mem_size ctx3))"
  let ?line = "boot_line 0 (ctx_rkey ctx3) (ctx_qpn ctx3) (ctx_psn ctx3) (ctx_lid ctx3)"
  obtain ext0 where e0: "trh = tr @ ext0" "talks ext0 = []"
    using t(2) by (auto simp: quiet_def)
  then have cb: "client_buffer W tr cext = w_chars W trh"
    using t(1) by (simp add: client_buffer_def silent_prefix)
  have mem: "rem_mem_size ctx = rem_mem_size ctx3"
    by (simp add: c c4)
  from e0 have ct: "talks cext = [(True, ?mem), (False, first_message (w_inbox W trh)), (True, ?line)]"
    using t(1,3) by (simp add: handshake_sends)
  from server obtain sk fd m1 ob m2 s3 where st: "str @ sext = str @ session_trace sport sk fd m1 ob m2 s"
    and m1: "handshake_get_memsize (sw_chars S (str @ take 6 (session_trace sport sk fd m1 ob m2 s))) m1 zero_context = Inr (zero_context\<lparr>s_rdma_mem_size := s_rdma_mem_size s\<rparr>)"
    and m2: "server_handshake m2 s3 = Inr (s, [boot_message s])" "boot_message s3 = boot_message s"
    and sf: "s_rdma_buffer s = buffer" "s_local_rkey s = sw_mr_rkey S (s_mr s)" "0 < s_rdma_mem_size s"
    by (rule open_session_trace)
  from tcp ct st session_talks have msg: "m1 = ?mem" "first_message (w_inbox W trh) = boot_message s" "m2 = ?line"
    by (simp_all add: paired_def)
  have n: "s_rdma_mem_size s = rem_mem_size ctx3"
  proof -
    have "field_end 10 (cstr (drop (length ?mem) (sw_chars S (str @ take 6 (session_trace sport sk fd m1 ob m2 s)))))"
      using unspoilt(2) st by (simp only: server_buffer_def session_prefix unspoilt_def same_append_eq mem)
    from memsize_scanned [OF this, of zero_context] m1 msg(1) show ?thesis
      by (auto split: if_splits dest!: arg_cong [of _ _ s_rdma_mem_size])
  qed
  have s: "s = s3\<lparr>s_rem_vaddr := 0, s_rem_rkey := ctx_rkey ctx3, s_rem_qpn := ctx_qpn ctx3, s_rem_psn := ctx_psn ctx3,
      s_rem_lid := ctx_lid ctx3\<rparr>"
    using m2(1) msg(3) exchange_reads [of 0 "ctx_rkey ctx3" "ctx_qpn ctx3" "ctx_psn ctx3" "ctx_lid ctx3" s3]
    by (simp add: server_handshake_def)
  have "length (boot_message s) \<le> 500"
    unfolding boot_message_def by (rule order_trans [OF length_boot_line]) simp
  moreover have "field_end 16 (cstr (drop (length (boot_message s)) (write_str (w_chars W trh) ?mem)))"
    using unspoilt(1) unfolding cb by (rule unspoilt_written)
  ultimately have "ctx4 = ctx3\<lparr>rem_vaddr := s_rdma_buffer s, rem_rkey := s_local_rkey s, rem_qpn := s_qpn s,
      rem_psn := s_psn s, rem_lid := s_lid s\<rparr>"
    unfolding c4 msg(2) boot_message_def by (rule handshake_reads)
  then show ?thesis
    using n sf c3 by (simp add: c) (simp add: s)
qed

lemma client_changes:
  assumes "rdma_init C W npages ip port sz sg tr = Inr (Some ctx, sg', tr @ cext)"
  shows "\<exists>k \<le> 3. qp_changes (ctx_qp ctx) cext = take k (client_script (5, ctx)) \<and>
    ((\<forall>tr q c. w_int W tr (modify_call q c) = 0) \<longrightarrow> k = 3)"
proof -
  from rdma_init_some [OF assms] obtain ctx3 trh k ext where
    t: "tr @ cext = trh @ [V (Sock_Send (ctx_sock ctx3) (snd (handshake (w_chars W trh) (first_message (w_inbox W trh)) ctx3) ! 0)),
       V (Sock_Recv (ctx_sock ctx3) (first_message (w_inbox W trh))),
       V (Sock_Send (ctx_sock ctx3) (snd (handshake (w_chars W trh) (first_message (w_inbox W trh)) ctx3) ! 1))] @
       ext @ [V (Sock_Release (ctx_sock ctx))]" "quiet tr trh"
    and k: "k \<le> 3" "qp_changes (ctx_qp ctx) ext = take k (client_script (5, ctx))" "(\<forall>tr q c. w_int W tr (modify_call q c) = 0) \<longrightarrow> k = 3"
    by metis
  obtain ext0 where "trh = tr @ ext0" "qp_changes (ctx_qp ctx) ext0 = []"
    using t(2) by (auto simp: quiet_def)
  then have "qp_changes (ctx_qp ctx) cext = qp_changes (ctx_qp ctx) ext"
    using t(1) by simp
  with k show ?thesis by auto
qed

lemma server_changes:
  assumes "open_session S sport buffer gb str = Inr (s, str @ sext)"
  shows "srv_changes (s_qp s) sext = server_script s"
  using assms by (rule open_session_trace) (simp add: session_trace_facts)

section \<open>An example\<close>

text \<open>
  Both hosts in kind surroundings; what each hears is written out. The client is queue
  pair 77 at port 3, the server queue pair 88 at port 4.
\<close>

definition ex_client_line :: string where
  "ex_client_line = boot_line 0 0 77 0x345678 3"

definition ex_server_line :: string where
  "ex_server_line = boot_line 0x10000 9 88 0x654321 4"

definition ex_client :: kworld where
  "ex_client = ex_kworld\<lparr>w_inbox := (\<lambda>tr. [ex_server_line])\<rparr>"

definition ex_server :: sworld where
  "ex_server = (ex_sworld 65536)\<lparr>sw_inbox := (\<lambda>tr. case last tr of V c \<Rightarrow>
       (case c of Send fd m \<Rightarrow> [ex_client_line] | _ \<Rightarrow> [show_digits 10 (unat (65536 :: u64))]) | _ \<Rightarrow> [])\<rparr>"

lemma ex_client_kind: "kind_world ex_client"
  using ex_kind by (simp add: kind_world_def ex_client_def)

lemma ex_server_kind: "kind_server ex_server"
  using ex_kind_server by (simp add: kind_server_def ex_server_def)

lemma ex_server_chars [simp]: "sw_chars ex_server t = replicate 1000 NUL" "w_chars ex_client t' = replicate 500 NUL"
  by (simp_all add: ex_server_def ex_sworld_def ex_client_def)

lemma ex_server_hears:
  "next_message ex_server (t @ [V (Close k)]) = show_digits 10 (unat (65536 :: u64))"
  "next_message ex_server (t @ [V (Send fd m)]) = ex_client_line"
  by (simp_all add: next_message_def ex_server_def)

lemma ex_server_opens: "\<exists>s sext. open_session ex_server 8888 0x10000 1 [] = Inr (s, sext) \<and>
    srv_talks sext = [(False, show_digits 10 (unat (65536 :: u64))), (True, ex_server_line), (False, ex_client_line)]"
proof -
  have "\<exists>s tr'. open_session ex_server 8888 0x10000 1 [] = Inr (s, tr')"
  proof (rule kind_open [OF ex_server_kind])
    have "accept_trace 8888 = butlast (accept_trace 8888) @ [V (Close 0)]"
      by (simp add: accept_trace_def)
    then show "handshake_get_memsize (sw_chars ex_server ([] @ accept_trace 8888)) (next_message ex_server ([] @ accept_trace 8888))
        zero_context = Inr (zero_context\<lparr>s_rdma_mem_size := 65536\<rparr>)"
      using ex_memsize ex_server_hears(1) by (metis append_Nil ex_server_chars(1))
    show "next_message ex_server (t @ [V (Send 0 m)]) \<noteq> []" for t m
      unfolding ex_server_hears ex_client_line_def by (simp add: boot_line_def)
  qed simp_all
  then obtain s tr' where run: "open_session ex_server 8888 0x10000 1 [] = Inr (s, tr')"
    by blast
  then obtain sk fd m1 ob m2 where t: "tr' = [] @ session_trace 8888 sk fd m1 ob m2 s"
      and f: "s_rdma_buffer s = 0x10000" "s_local_rkey s = sw_mr_rkey ex_server (s_mr s)" "s_qpn s = sw_qp_num ex_server (s_qp s)"
        "\<exists>t. s_psn s = sw_rand ex_server t AND 0xffffff" "\<exists>t d. s_lid s = ucast (pa_lid (sw_port ex_server t d))"
      and m: "\<exists>t k. m1 = next_message ex_server (t @ [V (Close k)])" "\<exists>t m. m2 = next_message ex_server (t @ [V (Send fd m)])"
    by (rule open_session_trace)
  have "boot_message s = ex_server_line"
    using f by (simp add: boot_message_def ex_server_line_def ex_server_def ex_sworld_def)
  moreover have "m1 = show_digits 10 (unat (65536 :: u64))" "m2 = ex_client_line"
    using m unfolding ex_server_hears by blast+
  ultimately show ?thesis
    using run t session_talks by simp
qed

lemma ex_client_inits: "\<exists>ctx sg' cext. rdma_init conf_h ex_client 16 (dotted 10 0 0 1) 8888 1024 zero_singleton tr =
      Inr (Some ctx, sg', tr @ cext) \<and>
    talks cext = [(True, show_digits 10 (unat (65536 :: u64))), (False, ex_server_line), (True, ex_client_line)]"
proof -
  obtain ctx sg' tr' where run: "rdma_init conf_h ex_client 16 (dotted 10 0 0 1) 8888 1024 zero_singleton tr =
      Inr (Some ctx, sg', tr')"
    using kind_rdma_init [OF ex_client_kind ex_address, of 1024 conf_h 16 8888 zero_singleton tr] by auto
  from rdma_init_some [OF run] obtain ctx3 trh ext where
    c3: "rem_mem_size ctx3 = word_of_int 16 * 4096" "ctx_qpn ctx3 = w_qp_num ex_client (ctx_qp ctx3)"
      "ctx_psn ctx3 = w_random ex_client trh AND 0xffffff" "ctx_lid ctx3 = ucast (pa_lid (sg_attr sg'))" "ctx_rkey ctx3 = 0"
    and t: "tr' = trh @ [V (Sock_Send (ctx_sock ctx3) (snd (handshake (w_chars ex_client trh) (first_message (w_inbox ex_client trh)) ctx3) ! 0)),
       V (Sock_Recv (ctx_sock ctx3) (first_message (w_inbox ex_client trh))),
       V (Sock_Send (ctx_sock ctx3) (snd (handshake (w_chars ex_client trh) (first_message (w_inbox ex_client trh)) ctx3) ! 1))] @
       ext @ [V (Sock_Release (ctx_sock ctx))]" "quiet tr trh" "talks ext = []"
    and sg: "\<exists>t. sg_attr sg' = w_port ex_client t (sg_dev zero_singleton)"
    by metis
  have "ctx_lid ctx3 = 3" "ctx_qpn ctx3 = 77" "ctx_psn ctx3 = 0x345678" "rem_mem_size ctx3 = 65536"
    using c3 sg by (simp_all add: ex_client_def ex_kworld_def)
  moreover have "first_message (w_inbox ex_client trh) = ex_server_line"
    by (simp add: first_message_def ex_client_def)
  moreover obtain ext0 where ext0: "trh = tr @ ext0" "talks ext0 = []"
    using t(2) by (auto simp: quiet_def)
  ultimately obtain cext where "tr' = tr @ cext"
      "talks cext = [(True, show_digits 10 (unat (65536 :: u64))), (False, ex_server_line), (True, ex_client_line)]"
    using that t(1,3) c3(5) by (simp only: handshake_sends talks_simps talk_simps ex_client_line_def nth_Cons_0 append_Nil
        append_Nil2 append_Cons append_assoc) simp
  with run show ?thesis by blast
qed

section \<open>Properties\<close>



end
