(* ===== verification/Module.thy ===== *)
theory Module
  imports Client_Setup Request_Array
begin

text \<open>
  Loading and unloading the driver: \<open>rmem_init\<close> and \<open>rmem_exit\<close> of \<open>src/rmem.c\<close> (lines
  642 to 833), with the parsing of the \<open>servers\<close> parameter, and \<open>rmem_getgeo\<close> (471 to
  482).
\<close>

section \<open>The servers parameter\<close>

text \<open>
  \<open>strsep(&s, ",:")\<close>: the text up to the next delimiter, and the text behind it; a null
  pointer stays one. Writing the terminator into the text is not visible afterwards.
\<close>

definition is_delim :: "char \<Rightarrow> bool" where
  "is_delim c \<longleftrightarrow> c = CHR '','' \<or> c = CHR '':''"

fun strsep :: "string option \<Rightarrow> string option \<times> string option" where
  "strsep None = (None, None)"
| "strsep (Some s) =
     (Some (takeWhile (\<lambda>c. \<not> is_delim c) s),
      case dropWhile (\<lambda>c. \<not> is_delim c) s of [] \<Rightarrow> None | _ # rest \<Rightarrow> Some rest)"

definition left_over :: "string option \<Rightarrow> nat" where
  "left_over p = (case p of None \<Rightarrow> 0 | Some s \<Rightarrow> Suc (length s))"

lemma strsep_shrinks: "strsep p = (Some t, p') \<Longrightarrow> left_over p' < left_over p"
proof (cases p)
  case (Some s)
  assume "strsep p = (Some t, p')"
  then have p': "p' = (case dropWhile (\<lambda>c. \<not> is_delim c) s of [] \<Rightarrow> None | _ # rest \<Rightarrow> Some rest)"
    using Some by simp
  have "length (dropWhile (\<lambda>c. \<not> is_delim c) s) \<le> length s"
    by (rule length_dropWhile_le)
  then show ?thesis
    using p' Some by (cases "dropWhile (\<lambda>c. \<not> is_delim c) s") (simp_all add: left_over_def)
qed simp

text \<open>
  The three tokens of each round of the loop, as long as there are three (lines 667 to
  670). Every round consumes some of the text, so there is an end.
\<close>

function server_specs :: "string option \<Rightarrow> (string \<times> string \<times> string) list" where
  "server_specs p =
     (case strsep p of (tmp_srv, p1) \<Rightarrow>
      case strsep p1 of (tmp_port, p2) \<Rightarrow>
      case strsep p2 of (tmp_npages, p3) \<Rightarrow>
      case tmp_srv of None \<Rightarrow> []
      | Some srv \<Rightarrow>
          case tmp_port of None \<Rightarrow> []
          | Some port \<Rightarrow>
              case tmp_npages of None \<Rightarrow> []
              | Some npages \<Rightarrow> (srv, port, npages) # server_specs p3)"
  by pat_completeness auto
termination
proof (relation "measure left_over")
  fix p tmp_srv p1 tmp_port p2 tmp_npages p3 srv port npages
  assume "(tmp_srv, p1) = strsep p" "(tmp_port, p2) = strsep p1" "(tmp_npages, p3) = strsep p2"
    and "tmp_srv = Some srv" "tmp_port = Some port" "tmp_npages = Some npages"
  then have "left_over p1 < left_over p" "left_over p2 < left_over p1" "left_over p3 < left_over p2"
    using strsep_shrinks by metis+
  then show "(p3, p) \<in> measure left_over"
    by simp
qed simp

declare server_specs.simps [simp del]

section \<open>State\<close>

record mdev =
  md_dev :: rmem_device
  md_gd :: ptr
  md_gd_major :: int
  md_disk_name :: string
  md_queue :: ptr

record module =
  m_devices :: "mdev option list"
  m_initd :: bool
  m_lib :: ib_device_singleton
  m_tr :: ktrace

text \<open>
  More about the surroundings: the number of a request queue, what \<open>vmalloc\<close>'s memory
  holds, the devices that are plugged in while the driver waits for one, and whether
  somebody besides the driver holds a reference to a disk. \<open>put_disk\<close> drops the driver's
  reference, and the disk is freed with the last one.
\<close>

record mparams =
  p_queue_id :: "ptr \<Rightarrow> int"
  p_device :: "ktrace \<Rightarrow> rmem_device"
  p_request :: rdma_request
  p_hotplug :: "ptr list"
  p_disk_held :: "ktrace \<Rightarrow> ptr \<Rightarrow> bool"

section \<open>Bringing up one device\<close>

definition setup_wrs :: "conf \<Rightarrow> rmem_device \<Rightarrow> rmem_device result" where
  "setup_wrs C d =
     (if SIMPLE_MAKE_WR C
      then case ctx_mr (dev_ctx d) of None \<Rightarrow> Inl Null_Deref
        | Some mr \<Rightarrow>
            Inr (d\<lparr>wrs := map (\<lambda>i. zero_wr\<lparr>wr_sg_list := Some i, wr_num_sge := 1, wr_signaled := True,
                                wr_rkey := rem_rkey (dev_ctx d)\<rparr>) [0..<MAX_REQ C],
                   sges := map (\<lambda>i. zero_sge\<lparr>sge_lkey := mr_lkey mr\<rparr>) [0..<MAX_REQ C]\<rparr>)
      else Inr d)"

text \<open>Where the loop body goes from here: to its next round or to one of the labels.\<close>

datatype goto = Next | Out | Out_rdma_exit | Out_unregister

record init_state =
  is_mod :: module
  is_dev :: mdev
  is_queue :: ptr
  is_name :: string
  is_major :: int

definition dev_name :: "int \<Rightarrow> string" where
  "dev_name i = take 19 (''rmem_rdma'' @ show_int i)"

text \<open>Lines 683 to 714: the device structure and the connection.\<close>

definition connect_device :: "conf \<Rightarrow> kworld \<Rightarrow> mparams \<Rightarrow> string \<Rightarrow> int \<Rightarrow> int \<Rightarrow> module \<Rightarrow>
    (rmem_device option \<times> module) result" where
  "connect_device C W M srv port npages m =
     (let (p, tr) = ask_ptr W Vmalloc_Device (m_tr m) in
      bindR (assertR (p \<noteq> 0) Null_Deref) (\<lambda>_.
      let d = init_req_arrays C (w_vm W tr) (p_request M)
                ((p_device M tr)\<lparr>dev_size := word_of_int npages * of_nat PAGE_SIZE\<rparr>) in
      bindR (rdma_init C W npages srv port (int (REQ_POOL_SIZE C)) (m_lib m) tr) (\<lambda>(ctx, sg, tr').
      let m' = m\<lparr>m_lib := sg, m_tr := tr'\<rparr> in
      case ctx of None \<Rightarrow> Inr (None, m')
      | Some c \<Rightarrow> bindR (setup_wrs C (d\<lparr>dev_ctx := c\<rparr>)) (\<lambda>d'. Inr (Some d', m')))))"

text \<open>Lines 718 to 773: the queue, the entry in \<open>devices\<close>, the block device and the disk.\<close>

definition publish_device :: "conf \<Rightarrow> kworld \<Rightarrow> mparams \<Rightarrow> int \<Rightarrow> mdev \<Rightarrow> module \<Rightarrow> (goto \<times> init_state) result" where
  "publish_device C W M npages md m =
     (let st = \<lparr>is_mod = m, is_dev = md, is_queue = 0, is_name = [], is_major = 0\<rparr> in
      bindR (assertR (\<not> CUSTOM_MAKE_REQ_FN C) Null_Deref) (\<lambda>_.
      let (q, tr) = ask_ptr W (Blk_Init_Queue (MODE C)) (m_tr m);
          st = st\<lparr>is_mod := m\<lparr>m_tr := tr\<rparr>, is_queue := q, is_dev := md\<lparr>md_queue := q\<rparr>\<rparr> in
      if q = 0 then Inr (Out_rdma_exit, st)
      else if p_queue_id M q \<ge> int (DEVICE_BOUND C) then Inr (Out_rdma_exit, st)
      else
        bindR (arr_set (m_devices m) (p_queue_id M q) (Some (is_dev st))) (\<lambda>ds.
        let name = dev_name (p_queue_id M q); tr = tell (Set_Block_Sizes q) tr;
            (major, tr) = ask_int W (Register_Blkdev name) tr;
            md = (is_dev st)\<lparr>md_dev := (md_dev md)\<lparr>major_num := major\<rparr>\<rparr>;
            st = st\<lparr>is_mod := m\<lparr>m_devices := ds, m_tr := tr\<rparr>, is_name := name, is_major := major, is_dev := md\<rparr> in
        if major < 0 then Inr (Out_rdma_exit, st)
        else
          let (gd, tr) = ask_ptr W Alloc_Disk tr;
              st = st\<lparr>is_mod := m\<lparr>m_devices := ds, m_tr := tr\<rparr>, is_dev := md\<lparr>md_gd := gd\<rparr>\<rparr> in
          if gd = 0 then Inr (Out_unregister, st)
          else
            let md = md\<lparr>md_gd := gd, md_gd_major := major, md_disk_name := name\<rparr>;
                tr = tr @ [V (Set_Capacity gd 0), V (Add_Disk gd q),
                           V (Set_Capacity gd (word_of_int npages * of_nat SECTORS_PER_PAGE))] in
            bindR (arr_set ds (p_queue_id M q) (Some md)) (\<lambda>ds.
            Inr (Next, st\<lparr>is_mod := m\<lparr>m_devices := ds, m_tr := tr\<rparr>, is_dev := md\<rparr>)))))"

text \<open>
  One round of the loop (lines 671 to 773). The two tests for \<open>tmp_end_p == NULL\<close> are
  never true. The local \<open>int\<close> variables take the low 32 bits of \<open>simple_strtol\<close>.
\<close>

definition init_round :: "conf \<Rightarrow> kworld \<Rightarrow> mparams \<Rightarrow> string \<times> string \<times> string \<Rightarrow> module \<Rightarrow>
    (goto \<times> init_state) result" where
  "init_round C W M = (\<lambda>(srv, tmp_port, tmp_npages) m.
     let port = wrap_int 32 (fst (simple_strtol tmp_port)); npages = wrap_int 32 (fst (simple_strtol tmp_npages)) in
     bindR (connect_device C W M srv port npages m) (\<lambda>(d, m').
     let none = \<lparr>md_dev = p_device M (m_tr m), md_gd = 0, md_gd_major = 0, md_disk_name = [], md_queue = 0\<rparr> in
     case d of None \<Rightarrow> Inr (Out, \<lparr>is_mod = m', is_dev = none, is_queue = 0, is_name = [], is_major = 0\<rparr>)
     | Some dev \<Rightarrow> publish_device C W M npages (none\<lparr>md_dev := dev\<rparr>) m'))"

section \<open>Loading\<close>

text \<open>The labels \<open>out\<close> (lines 792 to 802), \<open>out_rdma_exit\<close> and \<open>out_unregister\<close>.\<close>

fun exit_each :: "kworld \<Rightarrow> mdev option list \<Rightarrow> ktrace \<Rightarrow> ktrace result" where
  "exit_each W [] tr = Inr tr"
| "exit_each W (None # ds) tr = exit_each W ds tr"
| "exit_each W (Some md # ds) tr =
     bindR (rdma_exit W (dev_ctx (md_dev md)) (tell (Unregister_Blkdev (md_gd_major md) (md_disk_name md)) tr)) (\<lambda>(_, tr').
     exit_each W ds tr')"

definition init_out :: "conf \<Rightarrow> kworld \<Rightarrow> mparams \<Rightarrow> init_state \<Rightarrow> (int \<times> module) result" where
  "init_out C W M st =
     (let m = is_mod st in
      bindR (if is_queue st = 0 then Inr (m_devices m)
             else bindR (arr_get (m_devices m) (p_queue_id M (is_queue st))) (\<lambda>d.
                  if d = None then Inr (m_devices m)
                  else arr_set (m_devices m) (p_queue_id M (is_queue st)) None)) (\<lambda>ds.
      bindR (exit_each W (take (DEVICE_BOUND C) ds) (m_tr m)) (\<lambda>tr.
      Inr (- 12, m\<lparr>m_devices := ds, m_tr := snd (rdma_library_exit tr)\<rparr>))))"

definition init_out_rdma_exit :: "conf \<Rightarrow> kworld \<Rightarrow> mparams \<Rightarrow> init_state \<Rightarrow> (int \<times> module) result" where
  "init_out_rdma_exit C W M st =
     bindR (rdma_exit W (dev_ctx (md_dev (is_dev st))) (m_tr (is_mod st))) (\<lambda>(_, tr).
     init_out C W M (st\<lparr>is_mod := (is_mod st)\<lparr>m_tr := tr\<rparr>\<rparr>))"

definition init_out_unregister :: "conf \<Rightarrow> kworld \<Rightarrow> mparams \<Rightarrow> init_state \<Rightarrow> (int \<times> module) result" where
  "init_out_unregister C W M st =
     init_out_rdma_exit C W M (st\<lparr>is_mod := (is_mod st)\<lparr>m_tr := tell (Unregister_Blkdev (is_major st) (is_name st))
       (m_tr (is_mod st))\<rparr>\<rparr>)"

fun init_loop :: "conf \<Rightarrow> kworld \<Rightarrow> mparams \<Rightarrow> (string \<times> string \<times> string) list \<Rightarrow> module \<Rightarrow> (int \<times> module) result" where
  "init_loop C W M [] m = Inr (0, m\<lparr>m_initd := True, m_tr := tell Proc_Create (m_tr m)\<rparr>)"
| "init_loop C W M (spec # specs) m =
     bindR (init_round C W M spec m) (\<lambda>(g, st).
     case g of Next \<Rightarrow> init_loop C W M specs (is_mod st)
     | Out \<Rightarrow> init_out C W M st
     | Out_rdma_exit \<Rightarrow> init_out_rdma_exit C W M st
     | Out_unregister \<Rightarrow> init_out_unregister C W M st)"

text \<open>\<open>while(!rdma_library_ready());\<close>\<close>

fun wait_ready :: "kworld \<Rightarrow> ptr list \<Rightarrow> ib_device_singleton \<times> ktrace \<Rightarrow> (ib_device_singleton \<times> ktrace) result" where
  "wait_ready W [] st = (if rdma_library_ready (fst st) then Inr st else Inl Spinning)"
| "wait_ready W (dev # devs) st =
     (if rdma_library_ready (fst st) then Inr st else wait_ready W devs (add_device W dev st))"

definition rmem_init :: "conf \<Rightarrow> kworld \<Rightarrow> mparams \<Rightarrow> string \<Rightarrow> ktrace \<Rightarrow> (int \<times> module) result" where
  "rmem_init C W M servers tr =
     bindR (wait_ready W (p_hotplug M) (snd (rdma_library_init W tr))) (\<lambda>(sg, tr1).
     init_loop C W M (server_specs (Some servers))
       \<lparr>m_devices = replicate (DEVICE_BOUND C) None, m_initd = False, m_lib = sg, m_tr = tr1\<rparr>)"

section \<open>Unloading\<close>

text \<open>
  The name and the queue are fields of the disk and are read after \<open>put_disk\<close> (lines 811
  to 814): a use after free unless somebody else still holds the disk.
\<close>

definition read_disk :: "mparams \<Rightarrow> ktrace \<Rightarrow> mdev \<Rightarrow> unit result" where
  "read_disk M tr md = assertR (p_disk_held M tr (md_gd md)) Use_After_Free"

fun exit_devices :: "conf \<Rightarrow> kworld \<Rightarrow> mparams \<Rightarrow> mdev option list \<Rightarrow> ktrace \<Rightarrow> ktrace result" where
  "exit_devices C W M [] tr = Inr tr"
| "exit_devices C W M (None # ds) tr = exit_devices C W M ds tr"
| "exit_devices C W M (Some md # ds) tr =
     (let tr1 = tr @ [V (Del_Gendisk (md_gd md)), V (Put_Disk (md_gd md))] in
      bindR (read_disk M tr1 md) (\<lambda>_.
      let tr2 = tell (Unregister_Blkdev (major_num (md_dev md)) (md_disk_name md)) tr1 in
      bindR (read_disk M tr2 md) (\<lambda>_.
      bindR (rdma_exit W (dev_ctx (md_dev md)) (tell (Blk_Cleanup_Queue (md_queue md)) tr2)) (\<lambda>(_, tr3).
      exit_devices C W M ds (tell Vfree_Device (tr3 @ map (\<lambda>a. V (Vfree a)) (free_req_arrays C (md_dev md))))))))"

definition rmem_exit :: "conf \<Rightarrow> kworld \<Rightarrow> mparams \<Rightarrow> module \<Rightarrow> module result" where
  "rmem_exit C W M m =
     bindR (exit_devices C W M (take (DEVICE_BOUND C) (m_devices m)) (m_tr m)) (\<lambda>tr.
     Inr (m\<lparr>m_devices := map (\<lambda>_. None) (take (DEVICE_BOUND C) (m_devices m)) @ drop (DEVICE_BOUND C) (m_devices m),
            m_tr := tell Remove_Proc_Entry (snd (rdma_library_exit tr))\<rparr>))"

section \<open>The geometry\<close>

record hd_geometry =
  geo_cylinders :: "16 word"
  geo_heads :: u8
  geo_sectors :: u8
  geo_start :: u64

text \<open>\<open>long size\<close> is signed, so the right shift copies its sign.\<close>

definition rmem_getgeo :: "rmem_device \<Rightarrow> int \<times> hd_geometry" where
  "rmem_getgeo d =
     (let sz = dev_size d * of_nat PAGE_SIZE * (of_nat PAGE_SIZE div of_nat KERNEL_SECTOR_SIZE) in
      (0, \<lparr>geo_cylinders = ucast (signed_drop_bit 6 (sz AND NOT 0x3f)), geo_heads = 4, geo_sectors = 16, geo_start = 0\<rparr>))"

end
