(* ===== verification/Module_Correct.thy ===== *)
theory Module_Correct
  imports Module Client_Correct Sync_Correct
begin

text \<open>
  Loading the driver: the \<open>servers\<close> parameter is read as it was meant, every device in
  the table is ready for the request function and as large as the memory its
  server was asked for, and the ways in which loading can go wrong.
\<close>

section \<open>The servers parameter\<close>

definition plain :: "string \<Rightarrow> bool" where
  "plain s \<longleftrightarrow> (\<forall>c \<in> set s. \<not> is_delim c)"

fun spec_text :: "string \<times> string \<times> string \<Rightarrow> string" where
  "spec_text (srv, port, npages) = srv @ CHR '':'' # port @ CHR '':'' # npages"

fun servers_text :: "(string \<times> string \<times> string) list \<Rightarrow> string" where
  "servers_text [] = []"
| "servers_text [s] = spec_text s"
| "servers_text (s # t # ss) = spec_text s @ CHR '','' # servers_text (t # ss)"

lemma strsep_plain:
  assumes "plain s"
  shows "strsep (Some s) = (Some s, None)" "is_delim c \<Longrightarrow> strsep (Some (s @ c # rest)) = (Some s, Some rest)"
proof -
  have all: "\<forall>c \<in> set s. \<not> is_delim c"
    using assms by (simp add: plain_def)
  then have "dropWhile (\<lambda>c. \<not> is_delim c) s = []" "takeWhile (\<lambda>c. \<not> is_delim c) s = s"
    by (simp_all add: dropWhile_eq_Nil_conv takeWhile_eq_all_conv)
  then show "strsep (Some s) = (Some s, None)"
    by (simp only: strsep.simps list.case)
  show "strsep (Some (s @ c # rest)) = (Some s, Some rest)" if "is_delim c"
    using all that by (simp add: takeWhile_append2 dropWhile_append2)
qed

lemma server_specs_one:
  assumes "plain srv" "plain port" "plain npages"
  shows "server_specs (Some (spec_text (srv, port, npages))) = [(srv, port, npages)]"
    and "server_specs (Some (spec_text (srv, port, npages) @ CHR '','' # rest)) =
      (srv, port, npages) # server_specs (Some rest)"
proof -
  have "is_delim CHR '':''" "is_delim CHR '',''"
    by (simp_all add: is_delim_def)
  note steps = strsep_plain(2) [OF assms(1) this(1)] strsep_plain(2) [OF assms(2) this(1)]
    strsep_plain(2) [OF assms(3) this(2)] strsep_plain(1) [OF assms(3)]
  have "server_specs None = []"
    by (simp add: server_specs.simps)
  then show "server_specs (Some (spec_text (srv, port, npages))) = [(srv, port, npages)]"
    by (subst server_specs.simps) (simp add: steps del: strsep.simps(2))
  show "server_specs (Some (spec_text (srv, port, npages) @ CHR '','' # rest)) = (srv, port, npages) # server_specs (Some rest)"
    by (subst server_specs.simps) (simp add: steps del: strsep.simps(2))
qed

lemma server_specs_text:
  assumes "\<forall>(srv, port, npages) \<in> set specs. plain srv \<and> plain port \<and> plain npages"
  shows "server_specs (Some (servers_text specs)) = specs"
  using assms
proof (induction specs rule: servers_text.induct)
  case 1
  show ?case
    by (simp add: server_specs.simps)
next
  case (2 s)
  then show ?case
    by (cases s) (simp add: server_specs_one del: spec_text.simps)
next
  case (3 s t ss)
  then show ?case
    by (cases s) (simp add: server_specs_one del: spec_text.simps)
qed

section \<open>A connected device\<close>

text \<open>The structure \<open>rmem_device\<close> has arrays of \<open>MAX_REQ\<close> entries.\<close>

definition sized :: "conf \<Rightarrow> rmem_device \<Rightarrow> bool" where
  "sized C d \<longleftrightarrow> length (blk_req d) = MAX_REQ C \<and> length (wrs d) = MAX_REQ C \<and> length (sges d) = MAX_REQ C"

definition copyless_conf :: "conf \<Rightarrow> bool" where
  "copyless_conf C \<longleftrightarrow> sync_conf C \<and> COPY_LESS C \<and> \<not> CUSTOM_MAKE_REQ_FN C"

lemma rdma_init_extends:
  assumes "rdma_init C W npages ip port sz sg tr = Inr (Some ctx, sg', tr')"
  shows "\<exists>ext. tr' = tr @ ext"
proof -
  from rdma_init_some [OF assms] obtain trh rest where "tr' = trh @ rest" "quiet tr trh"
    by metis
  then show ?thesis
    by (auto simp: quiet_def)
qed

lemma rdma_init_ctx:
  assumes "rdma_init C W npages ip port sz sg tr = Inr (Some ctx, sg', tr')"
  shows "rem_mem_size ctx = word_of_int npages * 4096 \<and> ctx_mr ctx \<noteq> None"
proof -
  from rdma_init_some [OF assms] obtain ctx3 ctx4 trh buf keys dma pool where
    "rem_mem_size ctx3 = word_of_int npages * 4096"
    "ctx4 = fst (handshake (w_chars W trh) (first_message (w_inbox W trh)) ctx3)"
    "ctx = ctx4\<lparr>rdma_recv_buffer := buf, ctx_mr := Some keys, ctx_rkey := mr_rkey keys, ctx_dma_addr := dma,
      sock_live := False, ctx_pool := Some pool\<rparr>"
    by metis
  then show ?thesis
    by simp
qed

text \<open>A context that \<open>rdma_exit\<close> can take down.\<close>

definition closable :: "rdma_ctx \<Rightarrow> bool" where
  "closable ctx \<longleftrightarrow> length (server_addr ctx) < 100 \<and> sscanf_dots 4 (server_addr ctx) \<noteq> [] \<and> ctx_pool ctx \<noteq> None"

lemma connect_device_some:
  assumes "connect_device C W M srv port npages m = Inr (Some d, m')"
  obtains p ctx sg tr' d0 where "p \<noteq> 0"
    "rdma_init C W npages srv port (int (REQ_POOL_SIZE C)) (m_lib m) (m_tr m @ [P Vmalloc_Device p]) = Inr (Some ctx, sg, tr')"
    "m' = m\<lparr>m_lib := sg, m_tr := tr'\<rparr>"
    "d0 = init_req_arrays C (w_vm W (m_tr m @ [P Vmalloc_Device p])) (p_request M)
       ((p_device M (m_tr m @ [P Vmalloc_Device p]))\<lparr>dev_size := word_of_int npages * 4096\<rparr>)"
    "setup_wrs C (d0\<lparr>dev_ctx := ctx\<rparr>) = Inr d"
  using assms
  by (auto simp: connect_device_def ask_ptr_def Let_def result_simps split: if_splits option.splits)

lemma connect_device_ready:
  assumes "copyless_conf C" and "\<And>t. sized C (p_device M t)"
    and "connect_device C W M srv port npages m = Inr (Some d, m')"
  shows "\<exists>lkey. \<forall>vb. accepting vb \<longrightarrow> sync_ready C vb (dev_ctx d) lkey d" and "dev_size d = word_of_int npages * 4096"
    and "rem_mem_size (dev_ctx d) = dev_size d" and "closable (dev_ctx d)"
proof -
  from assms(3) obtain p ctx sg tr' d0 where 1: "rdma_init C W npages srv port (int (REQ_POOL_SIZE C)) (m_lib m)
        (m_tr m @ [P Vmalloc_Device p]) = Inr (Some ctx, sg, tr')"
      and d0: "d0 = init_req_arrays C (w_vm W (m_tr m @ [P Vmalloc_Device p])) (p_request M)
        ((p_device M (m_tr m @ [P Vmalloc_Device p]))\<lparr>dev_size := word_of_int npages * 4096\<rparr>)"
      and d: "setup_wrs C (d0\<lparr>dev_ctx := ctx\<rparr>) = Inr d"
    by (rule connect_device_some)
  from rdma_init_ctx [OF 1] obtain mr where ctx: "rem_mem_size ctx = word_of_int npages * 4096" "ctx_mr ctx = Some mr"
    by auto
  have z: "sized C d0" "dev_size d0 = word_of_int npages * 4096"
    using assms(1) assms(2) [of "m_tr m @ [P Vmalloc_Device p]"]
    by (simp_all add: d0 init_req_arrays_def Let_def copyless_conf_def sync_conf_def sized_def)
  then have "\<forall>vb. accepting vb \<longrightarrow> sync_ready C vb (dev_ctx d) (mr_lkey mr) d"
    using d ctx(2) assms(1)
    by (auto simp: setup_wrs_def sync_ready_def copyless_conf_def copyless_dev_def sized_def ctx_eq_def wr_ready_def split: if_splits)
  then show "\<exists>lkey. \<forall>vb. accepting vb \<longrightarrow> sync_ready C vb (dev_ctx d) lkey d" by blast
  show "dev_size d = word_of_int npages * 4096" "rem_mem_size (dev_ctx d) = dev_size d" "closable (dev_ctx d)"
    using d ctx z rdma_init_reached [OF 1] by (auto simp: setup_wrs_def closable_def split: if_splits)
qed

section \<open>The table of devices\<close>

lemma publish_device_next:
  assumes "publish_device C W M npages md m = Inr (Next, st)"
  obtains i q gd major ext md' where "is_mod st = m\<lparr>m_devices := (m_devices m)[i := Some md'], m_tr := m_tr m @ ext\<rparr>"
    "md_dev md' = (md_dev md)\<lparr>major_num := major\<rparr>" "md_gd md' = gd" "gd \<noteq> 0" "md_queue md' = q" "q \<noteq> 0"
    "V (Set_Capacity gd (word_of_int npages * 8)) \<in> set ext" "i < length (m_devices m)"
proof -
  let ?q = "w_ptr W (m_tr m) (Blk_Init_Queue (MODE C))"
  define tr1 where "tr1 = m_tr m @ [P (Blk_Init_Queue (MODE C)) ?q, V (Set_Block_Sizes ?q)]"
  let ?name = "dev_name (p_queue_id M ?q)"
  let ?major = "w_int W tr1 (Register_Blkdev ?name)"
  define tr2 where "tr2 = tr1 @ [I (Register_Blkdev ?name) ?major]"
  let ?gd = "w_ptr W tr2 Alloc_Disk"
  let ?md = "md\<lparr>md_queue := ?q, md_dev := (md_dev md)\<lparr>major_num := ?major\<rparr>, md_gd := ?gd, md_gd_major := ?major,
      md_disk_name := ?name\<rparr>"
  let ?ext = "[P (Blk_Init_Queue (MODE C)) ?q, V (Set_Block_Sizes ?q), I (Register_Blkdev ?name) ?major, P Alloc_Disk ?gd,
      V (Set_Capacity ?gd 0), V (Add_Disk ?gd ?q), V (Set_Capacity ?gd (word_of_int npages * of_nat SECTORS_PER_PAGE))]"
  have "is_mod st = m\<lparr>m_devices := (m_devices m)[nat (p_queue_id M ?q) := Some ?md], m_tr := m_tr m @ ?ext\<rparr> \<and>
      ?q \<noteq> 0 \<and> ?gd \<noteq> 0 \<and> nat (p_queue_id M ?q) < length (m_devices m)"
    using assms
    by (auto simp: publish_device_def ask_simps Let_def result_simps arr_set_eq_Inr tr1_def tr2_def split: if_splits)
  then show ?thesis
    by (intro that [where md' = ?md and ext = ?ext]) (auto simp: SECTORS_PER_PAGE_def)
qed

text \<open>
  A device that is up: ready for the synchronous request function with every verbs
  library whose \<open>ib_post_send\<close> accepts what it is given, with a context that can be taken down, and a disk whose capacity, the size noted in the structure and
  the memory asked of the server agree.
\<close>

definition up :: "conf \<Rightarrow> ktrace \<Rightarrow> mdev \<Rightarrow> bool" where
  "up C tr md \<longleftrightarrow> (\<exists>lkey. \<forall>vb. accepting vb \<longrightarrow> sync_ready C vb (dev_ctx (md_dev md)) lkey (md_dev md)) \<and>
     rem_mem_size (dev_ctx (md_dev md)) = dev_size (md_dev md) \<and> closable (dev_ctx (md_dev md)) \<and> md_gd md \<noteq> 0 \<and> md_queue md \<noteq> 0 \<and>
     (\<exists>cap. V (Set_Capacity (md_gd md) cap) \<in> set tr \<and> cap * 512 = dev_size (md_dev md))"

lemma up_mono: "up C tr md \<Longrightarrow> set tr \<subseteq> set tr' \<Longrightarrow> up C tr' md"
  by (auto simp: up_def)

definition mod_ok :: "conf \<Rightarrow> module \<Rightarrow> bool" where
  "mod_ok C m \<longleftrightarrow> length (m_devices m) = DEVICE_BOUND C \<and> (\<forall>md. Some md \<in> set (m_devices m) \<longrightarrow> up C (m_tr m) md)"

lemma sync_ready_major: "sync_ready C vb ctx lkey (d\<lparr>major_num := k\<rparr>) = sync_ready C vb ctx lkey d"
  by (simp add: sync_ready_def copyless_dev_def array_dev_def)

lemma init_round_ok:
  assumes "copyless_conf C" and "\<And>t. sized C (p_device M t)" and "mod_ok C m" and "init_round C W M spec m = Inr (Next, st)"
  shows "mod_ok C (is_mod st)"
proof -
  obtain srv tp tn where spec: "spec = (srv, tp, tn)"
    by (cases spec)
  let ?npages = "wrap_int 32 (fst (simple_strtol tn))"
  let ?md = "\<lambda>d. \<lparr>md_dev = d, md_gd = 0, md_gd_major = 0, md_disk_name = [], md_queue = 0\<rparr>"
  from assms(4) obtain d m' where
      c: "connect_device C W M srv (wrap_int 32 (fst (simple_strtol tp))) ?npages m = Inr (Some d, m')"
      and p: "publish_device C W M ?npages (?md d) m' = Inr (Next, st)"
    by (auto simp: init_round_def spec result_simps Let_def split: option.splits)
  note ready = connect_device_ready [OF assms(1,2) c]
  from p obtain i q gd major ext md' where st: "is_mod st = m'\<lparr>m_devices := (m_devices m')[i := Some md'], m_tr := m_tr m' @ ext\<rparr>"
    and md': "md_dev md' = (md_dev (?md d))\<lparr>major_num := major\<rparr>" "md_gd md' = gd" "gd \<noteq> 0" "md_queue md' = q" "q \<noteq> 0"
      "V (Set_Capacity gd (word_of_int ?npages * 8)) \<in> set ext"
    by (rule publish_device_next)
  have "up C (m_tr (is_mod st)) md'"
    unfolding up_def md' sync_ready_major using ready md' st
    by (auto simp: sync_ready_major intro!: exI [of _ "word_of_int ?npages * 8"])
  moreover have "m_devices m' = m_devices m \<and> set (m_tr m) \<subseteq> set (m_tr (is_mod st))"
    by (rule connect_device_some [OF c]) (use st in \<open>auto dest!: rdma_init_extends\<close>)
  ultimately show ?thesis
    using assms(3) st up_mono by (fastforce simp: mod_ok_def dest: set_update_subset_insert [THEN subsetD])
qed

lemma init_out_code: "init_out C W M st = Inr (r, m) \<Longrightarrow> r = - 12"
  by (auto simp: init_out_def Let_def result_simps)

lemma init_out_rdma_exit_code: "init_out_rdma_exit C W M st = Inr (r, m) \<Longrightarrow> r = - 12"
  by (auto simp: init_out_rdma_exit_def result_simps dest: init_out_code)

lemma init_out_unregister_code: "init_out_unregister C W M st = Inr (r, m) \<Longrightarrow> r = - 12"
  by (auto simp: init_out_unregister_def dest: init_out_rdma_exit_code)

lemmas out_codes = init_out_code init_out_rdma_exit_code init_out_unregister_code

lemma init_loop_ok:
  assumes "copyless_conf C" and "\<And>t. sized C (p_device M t)" and "mod_ok C m" and "init_loop C W M specs m = Inr (0, m')"
  shows "mod_ok C m' \<and> m_initd m'"
  using assms(3,4)
proof (induction specs arbitrary: m)
  case Nil
  then have "m' = m\<lparr>m_initd := True, m_tr := tell Proc_Create (m_tr m)\<rparr>"
    by simp
  then show ?case
    using Nil.prems(1) up_mono [of C "m_tr m" _ "tell Proc_Create (m_tr m)"] by (auto simp: mod_ok_def tell_def)
next
  case (Cons spec specs)
  from Cons.prems(2) obtain g st where r: "init_round C W M spec m = Inr (g, st)"
    by (auto simp: result_simps)
  with Cons.prems(2) have "g = Next" "init_loop C W M specs (is_mod st) = Inr (0, m')"
    by (auto split: goto.splits dest: out_codes)
  then show ?case
    using Cons.IH init_round_ok [OF assms(1,2) Cons.prems(1)] r by blast
qed

lemma rmem_init_ok:
  assumes "copyless_conf C" and "\<And>t. sized C (p_device M t)" and "rmem_init C W M servers tr = Inr (0, m)"
  shows "mod_ok C m \<and> m_initd m"
proof -
  from assms(3) obtain sg tr1 where l: "init_loop C W M (server_specs (Some servers))
      \<lparr>m_devices = replicate (DEVICE_BOUND C) None, m_initd = False, m_lib = sg, m_tr = tr1\<rparr> = Inr (0, m)"
    by (auto simp: rmem_init_def result_simps)
  have "mod_ok C \<lparr>m_devices = replicate (DEVICE_BOUND C) None, m_initd = False, m_lib = sg, m_tr = tr1\<rparr>"
    by (auto simp: mod_ok_def)
  from init_loop_ok [OF assms(1,2) this l] show ?thesis .
qed

section \<open>Kind surroundings\<close>

definition reachable :: "string \<times> string \<times> string \<Rightarrow> bool" where
  "reachable = (\<lambda>(srv, port, npages). length srv < 100 \<and> sscanf_dots 4 srv \<noteq> [])"

lemma setup_wrs_total: "ctx_mr ctx \<noteq> None \<Longrightarrow> \<exists>d'. setup_wrs C (d\<lparr>dev_ctx := ctx\<rparr>) = Inr d'"
  by (auto simp: setup_wrs_def)

lemma kind_connect_device:
  assumes "kind_world W" and "reachable (srv, tp, tn)" and "0 < REQ_POOL_SIZE C"
  shows "\<exists>d m'. connect_device C W M srv port npages m = Inr (Some d, m') \<and> m_devices m' = m_devices m"
proof -
  let ?tr = "m_tr m @ [P Vmalloc_Device (w_ptr W (m_tr m) Vmalloc_Device)]"
  obtain ctx sg tr' where i: "rdma_init C W npages srv port (int (REQ_POOL_SIZE C)) (m_lib m) ?tr = Inr (Some ctx, sg, tr')"
    using kind_rdma_init [OF assms(1) _ _ assms(3)] assms(2) by (fastforce simp: reachable_def)
  moreover have "w_ptr W (m_tr m) Vmalloc_Device \<noteq> 0"
    using assms(1) by (simp add: kind_world_def)
  moreover obtain d' where "setup_wrs C ((init_req_arrays C (w_vm W ?tr) (p_request M)
      ((p_device M ?tr)\<lparr>dev_size := word_of_int npages * 4096\<rparr>))\<lparr>dev_ctx := ctx\<rparr>) = Inr d'"
    using setup_wrs_total rdma_init_ctx [OF i] by blast
  ultimately show ?thesis
    by (auto simp: connect_device_def ask_ptr_def Let_def)
qed

lemma kind_publish:
  assumes "kind_world W" and "\<not> CUSTOM_MAKE_REQ_FN C" and "length (m_devices m) = DEVICE_BOUND C"
    and "\<And>q. 0 \<le> p_queue_id M q \<and> p_queue_id M q < int (DEVICE_BOUND C)"
  shows "\<exists>st. publish_device C W M npages md m = Inr (Next, st) \<and> length (m_devices (is_mod st)) = DEVICE_BOUND C \<and>
    (\<exists>gd q. V (Add_Disk gd q) \<in> set (m_tr (is_mod st)))"
proof -
  have "\<not> w_int W tr (Register_Blkdev n) < 0" "w_ptr W tr c \<noteq> 0" for tr n c
    using assms(1) by (auto simp: kind_world_def not_less intro: less_imp_le)
  then show ?thesis
    using assms(2-) by (simp add: publish_device_def ask_simps Let_def arr_set_def not_le) blast
qed

lemma kind_round:
  assumes "kind_world W" and "\<not> CUSTOM_MAKE_REQ_FN C" and "0 < REQ_POOL_SIZE C" and "length (m_devices m) = DEVICE_BOUND C"
    and "\<And>q. 0 \<le> p_queue_id M q \<and> p_queue_id M q < int (DEVICE_BOUND C)" and "reachable spec"
  shows "\<exists>st. init_round C W M spec m = Inr (Next, st) \<and> length (m_devices (is_mod st)) = DEVICE_BOUND C \<and>
    (\<exists>gd q. V (Add_Disk gd q) \<in> set (m_tr (is_mod st)))"
proof -
  obtain srv tp tn where spec: "spec = (srv, tp, tn)"
    by (cases spec)
  let ?port = "wrap_int 32 (fst (simple_strtol tp))" and ?npages = "wrap_int 32 (fst (simple_strtol tn))"
  obtain d m1 where c: "connect_device C W M srv ?port ?npages m = Inr (Some d, m1)" "m_devices m1 = m_devices m"
    using kind_connect_device [OF assms(1) _ assms(3), of srv tp tn] assms(6) spec by fastforce
  obtain st where "publish_device C W M ?npages \<lparr>md_dev = d, md_gd = 0, md_gd_major = 0, md_disk_name = [], md_queue = 0\<rparr> m1 =
      Inr (Next, st)" "length (m_devices (is_mod st)) = DEVICE_BOUND C" "\<exists>gd q. V (Add_Disk gd q) \<in> set (m_tr (is_mod st))"
    using kind_publish [OF assms(1,2) _ assms(5)] c(2) assms(4) by metis
  then show ?thesis
    using c(1) by (simp add: init_round_def spec)
qed

lemma kind_init_loop:
  assumes "kind_world W" and "\<not> CUSTOM_MAKE_REQ_FN C" and "0 < REQ_POOL_SIZE C" and "length (m_devices m) = DEVICE_BOUND C"
    and "\<And>q. 0 \<le> p_queue_id M q \<and> p_queue_id M q < int (DEVICE_BOUND C)" and "\<forall>spec \<in> set specs. reachable spec"
  shows "\<exists>m'. init_loop C W M specs m = Inr (0, m')"
  using assms(4,6)
proof (induction specs arbitrary: m)
  case (Cons spec specs)
  then obtain st where "init_round C W M spec m = Inr (Next, st)" "length (m_devices (is_mod st)) = DEVICE_BOUND C"
    using kind_round [OF assms(1-3) _ assms(5), of m spec] by auto
  then show ?case
    using Cons.IH [of "is_mod st"] Cons.prems(2) by simp
qed simp

lemma kind_ready:
  assumes "kind_world W" and "w_devices W \<noteq> []"
  shows "rdma_library_ready (fst (snd (rdma_library_init W tr)))"
proof -
  have "ready_to_use (fst (fold (add_device W) ds (sg, t)))" if "ds \<noteq> [] \<or> ready_to_use sg" for ds sg t
    using that
  proof (induction ds arbitrary: sg t)
    case (Cons d ds)
    obtain sg1 t1 where s1: "add_device W d (sg, t) = (sg1, t1)"
      by (cases "add_device W d (sg, t)")
    then have "ready_to_use sg1"
      using assms(1) by (auto simp: add_device_def kind_world_def ask_simps Let_def split: if_splits)
    then show ?case
      using Cons.IH [of sg1 t1] s1 by simp
  qed simp
  then show ?thesis
    using assms(2) by (simp add: rdma_library_init_def init_ib_def rdma_library_ready_def)
qed

lemma wait_ready_at_once: "rdma_library_ready (fst st) \<Longrightarrow> wait_ready W devs st = Inr st"
  by (cases devs) simp_all

section \<open>An example\<close>

definition ex_mparams :: "int \<Rightarrow> mparams" where
  "ex_mparams qid = \<lparr>p_queue_id = (\<lambda>q. qid),
     p_device = (\<lambda>t. \<lparr>dev_size = 0, arr_lock = True, major_num = 0, dev_ctx = zero_ctx, wrs = replicate 1024 zero_wr,
       sges = replicate 1024 zero_sge, dev_rdma_req = [], dev_req_arr = [], dev_req_heap = (\<lambda>p. None), dev_head = 7,
       dev_tail = 7, blk_req = replicate 1024 0\<rparr>),
     p_request = \<lparr>rr_rw = RDMA_READ, rr_dma_addr = 0, rr_remote_offset = 0, rr_length = 0, rr_batch_req = 0\<rparr>, p_hotplug = [],
     p_disk_held = (\<lambda>tr gd. True)\<rparr>"

lemma ex_sized: "sized conf_h (p_device (ex_mparams k) t)"
  by (simp add: sized_def ex_mparams_def)

lemma ex_copyless: "copyless_conf conf_h"
  by (simp add: copyless_conf_def sync_conf_def)

definition ex_specs :: "(string \<times> string \<times> string) list" where
  "ex_specs = [(dotted 10 0 0 1, ''8888'', ''16'')]"

lemma digits_plain: "plain (show_digits 10 n)" "plain (dot # s) = plain s" "plain (s @ t) = (plain s \<and> plain t)"
proof -
  have "\<not> is_delim c" if "is_digit 10 c" for c
    using that by (auto simp: is_delim_def is_digit_def digit_val_def)
  then show "plain (show_digits 10 n)"
    using show_digits_all [of 10 n] by (auto simp: plain_def)
qed (auto simp: plain_def is_delim_def dot_def)

lemma dotted_plain: "plain (dotted a b c d)"
  by (simp add: dotted_def digits_plain)

lemma ex_specs_parsed: "server_specs (Some (servers_text ex_specs)) = ex_specs"
proof (rule server_specs_text)
  have "plain ''8888''" "plain ''16''"
    by (simp_all add: plain_def is_delim_def)
  then show "\<forall>(srv, port, npages) \<in> set ex_specs. plain srv \<and> plain port \<and> plain npages"
    using dotted_plain by (simp add: ex_specs_def)
qed

lemma ex_reachable: "\<forall>spec \<in> set ex_specs. reachable spec"
  using ex_address by (simp only: ex_specs_def reachable_def list.set ball_simps prod.case simp_thms)

lemma kind_rmem_init:
  assumes "kind_world W" and "w_devices W \<noteq> []" and "\<not> CUSTOM_MAKE_REQ_FN C" and "0 < REQ_POOL_SIZE C"
    and "\<And>q. 0 \<le> p_queue_id M q \<and> p_queue_id M q < int (DEVICE_BOUND C)"
    and "\<forall>spec \<in> set (server_specs (Some servers)). reachable spec"
  shows "\<exists>m. rmem_init C W M servers tr = Inr (0, m)"
proof -
  obtain sg tr1 where i: "snd (rdma_library_init W tr) = (sg, tr1)"
    by (cases "snd (rdma_library_init W tr)")
  then have "wait_ready W (p_hotplug M) (sg, tr1) = Inr (sg, tr1)"
    using wait_ready_at_once [of "(sg, tr1)"] kind_ready [OF assms(1,2), of tr] by simp
  then show ?thesis
    using i kind_init_loop [OF assms(1,3,4) _ assms(5,6)] by (simp add: rmem_init_def)
qed

section \<open>Properties\<close>

text \<open>
  C24. The \<open>servers\<close> parameter is read back as it is written: a list of
  server, port and number of pages, with colons inside and commas between the
  entries, is taken apart into exactly these texts.
\<close>
theorem servers_roundtrip:
  assumes "\<forall>(srv, port, npages) \<in> set specs. plain srv \<and> plain port \<and> plain npages"
  shows "server_specs (Some (servers_text specs)) = specs"
  by (rule server_specs_text [OF assms])

theorem servers_roundtrip_witness:
  "server_specs (Some ''10.0.0.1:8888:16,10.0.0.2:8889:32'') = [(''10.0.0.1'', ''8888'', ''16''), (''10.0.0.2'', ''8889'', ''32'')]"
  using servers_roundtrip [of "[(''10.0.0.1'', ''8888'', ''16''), (''10.0.0.2'', ''8889'', ''32'')]"]
  by (simp add: plain_def is_delim_def)

text \<open>
  C11. Whenever \<open>rmem_init\<close> returns 0, every device in the table is ready for
  \<open>rmem_request_sync\<close> (with verbs whose \<open>ib_post_send\<close> does not fail): its work requests are prepared with the keys of its connection,
  and the capacity of its disk, the size in its structure and the memory asked of its
  server are the same number of bytes.
\<close>
theorem rmem_init_devices:
  assumes "copyless_conf C" and "\<And>t. sized C (p_device M t)" and "rmem_init C W M servers tr = Inr (0, m)"
  shows "m_initd m \<and> (\<forall>md. Some md \<in> set (m_devices m) \<longrightarrow> up C (m_tr m) md)"
  using rmem_init_ok [OF assms] by (simp add: mod_ok_def)

theorem rmem_init_devices_witness:
  "\<exists>m. rmem_init conf_h ex_kworld (ex_mparams 3) (servers_text ex_specs) [] = Inr (0, m) \<and> m_initd m"
proof -
  obtain m where run: "rmem_init conf_h ex_kworld (ex_mparams 3) (servers_text ex_specs) [] = Inr (0, m)"
    using kind_rmem_init [OF ex_kind, of conf_h "ex_mparams 3" "servers_text ex_specs" "[]"] ex_reachable ex_specs_parsed
    by (auto simp: ex_mparams_def)
  show ?thesis
    using rmem_init_devices [OF ex_copyless ex_sized run] run by blast
qed



end
