(* ===== verification/End_To_End.thy ===== *)
theory End_To_End
  imports Session Module_Correct
begin

text \<open>
  From a file system request on the client to the bytes of the server: a device that
  the driver has connected, the session the server has opened for it, and the
  synchronous request function working on that device.
\<close>

section \<open>A device and its session\<close>

lemma connect_device_session:
  assumes "connect_device C W M srv port npages m = Inr (Some d, m')" and "m_tr m' = m_tr m @ cext"
    and "open_session S sport buffer gb str = Inr (s, str @ sext)"
    and "paired cext sext" and "unspoilt 16 (boot_message s) (client_buffer W (m_tr m) cext)"
    and "unspoilt 10 (show_digits 10 (unat (rem_mem_size (dev_ctx d)))) (server_buffer S str sext)"
  shows "rem_vaddr (dev_ctx d) = buffer \<and> rem_rkey (dev_ctx d) = sw_mr_rkey S (s_mr s) \<and>
    rem_mem_size (dev_ctx d) = s_rdma_mem_size s"
proof -
  from assms(1) obtain p ctx sg tr' d0 where
      i: "rdma_init C W npages srv port (int (REQ_POOL_SIZE C)) (m_lib m) (m_tr m @ [P Vmalloc_Device p]) = Inr (Some ctx, sg, tr')"
      and m': "m' = m\<lparr>m_lib := sg, m_tr := tr'\<rparr>" and d: "setup_wrs C (d0\<lparr>dev_ctx := ctx\<rparr>) = Inr d"
    by (rule connect_device_some)
  from rdma_init_extends [OF i] obtain ext where ext: "tr' = (m_tr m @ [P Vmalloc_Device p]) @ ext"
    by blast
  with assms(2) m' have "cext = P Vmalloc_Device p # ext"
    by simp
  with assms(4,5) have h: "paired ext sext" "unspoilt 16 (boot_message s) (client_buffer W (m_tr m @ [P Vmalloc_Device p]) ext)"
    by (simp_all add: paired_def client_buffer_def)
  have "dev_ctx d = ctx"
    using d by (auto simp: setup_wrs_def split: if_splits option.splits)
  with session_agrees [OF i [unfolded ext] assms(3) h] assms(6) show ?thesis
    by simp
qed

lemma region_registered:
  assumes "open_session S sport buffer gb str = Inr (s, str @ sext)"
  shows "P (Reg_Mr (s_pd s) buffer (s_rdma_mem_size s) [LOCAL_WRITE, REMOTE_WRITE, REMOTE_READ]) (s_mr s) \<in> set sext"
  by (rule open_session_trace [OF assms]) (auto simp: session_trace_def split: prod.splits)

section \<open>Many calls\<close>

text \<open>
  The kernel calls the request function again and again, each time with the requests
  it has gathered; with each call come the answers that polling the completion queue
  will give during it.
\<close>

fun sync_calls :: "conf \<Rightarrow> verbs \<Rightarrow> (poll list \<times> request list) list \<Rightarrow> rmem_device \<Rightarrow> io_event list \<Rightarrow>
    (rmem_device \<times> io_event list) result" where
  "sync_calls C vb [] d tr = Inr (d, tr)"
| "sync_calls C vb ((rs, rqs) # calls) d tr =
     bindR (rmem_request_sync C vb rs d rqs tr) (\<lambda>(d', tr', _). sync_calls C vb calls d' tr')"

text \<open>
  A call that the device can serve: the card completes what is posted, there are at most
  \<open>MAX_REQ\<close> file system requests, the bios are inside the device and plain, their buffers
  can be mapped, and merged lengths do not overflow.
\<close>

definition call_fits :: "conf \<Rightarrow> verbs \<Rightarrow> nat \<Rightarrow> poll list \<times> request list \<Rightarrow> bool" where
  "call_fits C vb bytes = (\<lambda>(rs, rqs).
     serves (map length (batches C (queue_xfers vb rqs))) rs \<and> length (filter rq_fs rqs) \<le> MAX_REQ C \<and>
     all_bios (bio_in bytes) rqs \<and> all_bios bio_plain rqs \<and> all_bios (bio_mapped vb) rqs \<and>
     (MERGE_REQ C \<longrightarrow> total_bytes (queue_xfers vb rqs) < 2 ^ 32))"

lemma request_sync_next:
  assumes "sync_ready C vb ctx lkey dev" and "call_fits C vb bytes (rs, rqs)"
  obtains dev' tr' rs' where "rmem_request_sync C vb rs dev rqs tr = Inr (dev', tr', rs')" "sync_ready C vb ctx lkey dev'"
    "posts_of tr' = posts_of tr @ concat (map (sync_posts C ctx lkey) (batches C (queue_xfers vb rqs)))"
proof -
  let ?ends = "map (\<lambda>rq. End_Request_All (rq_at rq) 0) (filter rq_fs rqs)"
  obtain dev' t rs' where "rmem_request_sync C vb rs dev rqs tr = Inr (dev', t @ ?ends, rs')" "sync_ready C vb ctx lkey dev'"
      "posts_of t = posts_of tr @ concat (map (sync_posts C ctx lkey) (batches C (queue_xfers vb rqs)))"
    using request_sync_run [OF assms(1), of rqs rs tr] assms(2) by (auto simp: call_fits_def)
  then show ?thesis
    by (intro that [of dev' "t @ ?ends" rs']) simp_all
qed

lemma sync_calls_ready:
  assumes "sync_ready C vb ctx lkey dev" and "\<forall>c \<in> set calls. call_fits C vb bytes c"
  shows "\<exists>dev' tr'. sync_calls C vb calls dev tr = Inr (dev', tr') \<and> sync_ready C vb ctx lkey dev'"
  using assms
proof (induction calls arbitrary: dev tr)
  case (Cons c calls)
  obtain rs rqs where c: "c = (rs, rqs)"
    by (cases c)
  from Cons.prems c have "call_fits C vb bytes (rs, rqs)"
    by simp
  with Cons.prems(1) obtain d1 t1 rs1 where "rmem_request_sync C vb rs dev rqs tr = Inr (d1, t1, rs1)" "sync_ready C vb ctx lkey d1"
    by (rule request_sync_next [where tr = tr])
  with Cons.IH [of d1 t1] Cons.prems(2) show ?case
    by (simp add: c)
qed simp

lemma fits_in:
  assumes "call_fits C vb bytes (rs, rqs)" and "bytes < 2 ^ 64"
    and "p \<in> set (concat (concat (map (sync_posts C ctx lkey) (batches C (queue_xfers vb rqs)))))"
  shows "p_rkey p = rem_rkey ctx \<and> (\<exists>off. p_remote_addr p = rem_vaddr ctx + off \<and> unat off + unat (p_length p) \<le> bytes)"
  by (rule posts_in [OF _ _ assms(2,3)]) (use assms(1) in \<open>simp_all add: call_fits_def\<close>)

section \<open>An example\<close>

definition ex_rqs :: "request list" where
  "ex_rqs = [\<lparr>rq_at = 100, rq_fs = True, rq_cur_bytes = 4096, rq_bios = [\<lparr>bi_sector = 8, bi_write = True, bi_size = 4096,
     bi_cur_bytes = 4096, bi_io_vec = [\<lparr>bv_buf = 0x1000, bv_len = 4096\<rparr>]\<rparr>]\<rparr>]"

lemma ex_rqs_xfers: "queue_xfers ex_verbs ex_rqs = [Xfer IB_WR_RDMA_WRITE 0x1000 4096 4096]"
  by (simp add: queue_xfers_def req_xfers_def bi_segs_def ex_rqs_def opcode_of_def bio_op_def rdma_map_address_def ex_verbs_def drop_bit_eq_div)

definition ex_module :: module where
  "ex_module = \<lparr>m_devices = [], m_initd = False, m_lib = zero_singleton, m_tr = []\<rparr>"

lemma ex_connects: "\<exists>d m'. connect_device conf_h ex_client (ex_mparams 3) (dotted 10 0 0 1) 8888 16 ex_module = Inr (Some d, m') \<and>
    talks (m_tr m') = [(True, show_digits 10 (unat (65536 :: u64))), (False, ex_server_line), (True, ex_client_line)]"
proof -
  have "reachable (dotted 10 0 0 1, ''8888'', ''16'')"
    using ex_reachable by (simp add: ex_specs_def)
  from kind_connect_device [OF ex_client_kind this, of conf_h "ex_mparams 3" 8888 16 ex_module]
  obtain d m' where c: "connect_device conf_h ex_client (ex_mparams 3) (dotted 10 0 0 1) 8888 16 ex_module = Inr (Some d, m')"
    by auto
  then obtain p ctx sg tr' where "rdma_init conf_h ex_client 16 (dotted 10 0 0 1) 8888 1024 zero_singleton [P Vmalloc_Device p] =
      Inr (Some ctx, sg, tr')" "m' = ex_module\<lparr>m_lib := sg, m_tr := tr'\<rparr>"
    by (rule connect_device_some) (simp add: ex_module_def)
  with ex_client_inits [of "[P Vmalloc_Device p]"] c show ?thesis
    by auto
qed

definition ex_call :: "poll list \<times> request list" where
  "ex_call = ([Completions [ex_wc], Completions []], ex_rqs)"

lemma ex_call_fits: "call_fits conf_h ex_verbs 65536 ex_call"
proof -
  have "serves (map length (batches conf_h (queue_xfers ex_verbs ex_rqs))) [Completions [ex_wc], Completions []]"
    by (simp add: ex_rqs_xfers batches_def batch_join_def Let_def)
  then show ?thesis
    by (simp add: call_fits_def ex_call_def ex_rqs_xfers) (simp add: ex_rqs_def bio_in_def bio_plain_def bio_mapped_def ex_verbs_def)
qed

section \<open>Properties\<close>



end
