(* ===== verification/Module_Unload.thy ===== *)
theory Module_Unload
  imports Module_Correct
begin

text \<open>
  Leaving: which disks are removed when the driver is unloaded, and which are left
  behind when loading fails half way.
\<close>

section \<open>Removing disks\<close>

definition dels :: "ktrace \<Rightarrow> ptr list" where
  "dels tr = concat (map (\<lambda>e. case e of V c \<Rightarrow> (case c of Del_Gendisk gd \<Rightarrow> [gd] | _ \<Rightarrow> []) | _ \<Rightarrow> []) tr)"

lemma dels_simps [simp]:
  "dels [] = []" "dels (tr @ tr') = dels tr @ dels tr'" "dels (P c p # tr) = dels tr" "dels (I c r # tr) = dels tr"
  "dels (V (Del_Gendisk gd) # tr) = gd # dels tr" "dels (V (Put_Disk gd) # tr) = dels tr"
  "dels (V (Unregister_Blkdev k n) # tr) = dels tr" "dels (V (Blk_Cleanup_Queue q) # tr) = dels tr"
  "dels (V (Sock_Send q x) # tr) = dels tr" "dels (V (Sock_Recv q x) # tr) = dels tr"
  "dels (V (Sock_Release q) # tr) = dels tr" "dels (V Kfree_Ctx # tr) = dels tr" "dels (V Vfree_Device # tr) = dels tr"
  "dels (V Unregister_Client # tr) = dels tr" "dels (V Unregister_Event_Handler # tr) = dels tr"
  "dels (V Remove_Proc_Entry # tr) = dels tr" "dels (V Register_Client # tr) = dels tr"
  "dels (V (Query_Device d) # tr) = dels tr" "dels (V (Query_Gid d) # tr) = dels tr"
  "dels (V (Register_Event_Handler d) # tr) = dels tr" "dels (V Proc_Create # tr) = dels tr"
  "dels (V (Set_Block_Sizes q) # tr) = dels tr" "dels (V (Set_Capacity gd u) # tr) = dels tr"
  "dels (V (Add_Disk gd q) # tr) = dels tr"
  by (simp_all add: dels_def)

lemma dels_frees [simp]: "dels (map (\<lambda>a. V (Vfree a)) xs) = []"
  by (simp add: dels_def)

lemma dels_teardown [simp]:
  "dels (concat (map2 (\<lambda>a m. [V (Sock_Send k a), V (Sock_Recv k m)]) xs ys)) = []"
proof (induction xs arbitrary: ys)
  case (Cons x xs)
  then show ?case by (cases ys) simp_all
qed simp

text \<open>The trace grows and no disk is removed.\<close>

definition calm :: "ktrace \<Rightarrow> ktrace \<Rightarrow> bool" where
  "calm tr tr' \<longleftrightarrow> (\<exists>ext. tr' = tr @ ext \<and> dels ext = [])"

lemma calm_refl [simp]: "calm tr tr"
  by (simp add: calm_def)

lemma calm_trans [trans]: "calm tr1 tr2 \<Longrightarrow> calm tr2 tr3 \<Longrightarrow> calm tr1 tr3"
  by (auto simp: calm_def)

lemma calm_append: "dels ext = [] \<Longrightarrow> calm tr (tr @ ext)"
  by (auto simp: calm_def)

lemma calm_dels: "calm tr tr' \<Longrightarrow> dels tr' = dels tr"
  by (auto simp: calm_def)

lemma connect_calm: "connect W ip port ctx tr = Inr (r, ctx', tr') \<Longrightarrow> calm tr tr'"
  by (cases "translate_ip (w_ints W tr) ip [0, 0, 0, 0]")
    (auto simp: connect_def ask_simps Let_def result_simps calm_def split: if_splits)

lemma rdma_exit_calm:
  assumes "rdma_exit W ctx tr = Inr (r, tr')"
  shows "calm tr tr'"
proof -
  from assms obtain r1 ctx1 tr1 tr2 where 1: "connect W (server_addr ctx) (server_port ctx) ctx tr = Inr (r1, ctx1, tr1)"
      and 2: "client_teardown W ctx1 tr1 = Inr tr2"
    by (auto simp: rdma_exit_def reconnect_def result_simps)
  have "calm tr1 tr2"
    using 2 by (auto simp: client_teardown_def result_simps calm_append split: if_splits)
  moreover have "calm tr2 tr'"
    using assms 1 2 by (auto simp: rdma_exit_def reconnect_def result_simps tell_def Let_def calm_def split: if_splits option.splits)
  ultimately show ?thesis
    using connect_calm [OF 1] calm_trans by blast
qed

lemma rdma_create_calm: "rdma_create C W npages sg tr = (r, tr') \<Longrightarrow> calm tr tr'"
  by (auto simp: rdma_create_def ask_simps Let_def calm_def split: if_splits)

lemma populate_port_data_calm: "populate_port_data W sg tr = (r, sg', tr') \<Longrightarrow> calm tr tr'"
  by (auto simp: populate_port_data_def ask_simps Let_def calm_def split: if_splits)

lemma client_handshake_calm: "client_handshake W ctx tr = (r, ctx', tr') \<Longrightarrow> calm tr tr'"
  by (auto simp: client_handshake_def Let_def calm_def split: prod.splits)

lemma rdma_setup_calm: "rdma_setup W sg ctx tr = (r, ctx', tr') \<Longrightarrow> calm tr tr'"
  by (auto simp: rdma_setup_def modify_qp_def ask_simps Let_def calm_def split: if_splits)

lemma rdma_init_calm:
  assumes "rdma_init C W npages ip port sz sg tr = Inr (r, sg', tr')"
  shows "calm tr tr'"
proof -
  obtain o1 tr1 where 1: "rdma_create C W npages sg tr = (o1, tr1)"
    by (cases "rdma_create C W npages sg tr")
  show ?thesis
  proof (cases o1)
    case None
    then show ?thesis
      using assms 1 rdma_create_calm [OF 1] by (simp add: rdma_init_def)
  next
    case (Some ctx1)
    then obtain r2 ctx2 tr2 where 2: "connect W ip port ctx1 tr1 = Inr (r2, ctx2, tr2)"
      using assms 1 by (auto simp: rdma_init_def result_simps)
    obtain r3 sg3 tr3 where 3: "populate_port_data W sg tr2 = (r3, sg3, tr3)"
      by (cases "populate_port_data W sg tr2")
    have up3: "calm tr tr2" "calm tr tr3"
      using rdma_create_calm [OF 1] connect_calm [OF 2] populate_port_data_calm [OF 3] calm_trans by blast+
    define ctx3 where "ctx3 = ctx2\<lparr>ctx_lid := ucast (pa_lid (sg_attr sg3)), ctx_qpn := w_qp_num W (ctx_qp ctx2),
      ctx_psn := w_random W tr3 AND 0xffffff\<rparr>"
    obtain r4 ctx4 tr4 where 4: "client_handshake W ctx3 tr3 = (r4, ctx4, tr4)"
      by (cases "client_handshake W ctx3 tr3")
    obtain r5 ctx5 tr5 where 5: "rdma_setup W sg3 ctx4 tr4 = (r5, ctx5, tr5)"
      by (cases "rdma_setup W sg3 ctx4 tr4")
    have up5: "calm tr tr4" "calm tr tr5"
      using up3(2) client_handshake_calm [OF 4] rdma_setup_calm [OF 5] calm_trans by blast+
    have "tr' \<in> {tr2, tr3, tr4, tr5, tr5 @ [V (Sock_Release (ctx_sock ctx5))]}"
      using assms 1 2 3 4 5 Some
      by (auto simp: rdma_init_def result_simps Let_def ctx3_def [symmetric] tell_def split: if_splits)
    moreover have "calm tr5 (tr5 @ [V (Sock_Release (ctx_sock ctx5))])"
      by (rule calm_append) simp
    ultimately show ?thesis
      using up3 up5 calm_trans by auto
  qed
qed

lemma exit_each_calm: "exit_each W ds tr = Inr tr' \<Longrightarrow> calm tr tr'"
proof (induction W ds tr rule: exit_each.induct)
  case (3 W md ds tr)
  then obtain r t where x: "rdma_exit W (dev_ctx (md_dev md)) (tell (Unregister_Blkdev (md_gd_major md) (md_disk_name md)) tr) = Inr (r, t)"
      "exit_each W ds t = Inr tr'"
    by (auto simp: result_simps)
  have "calm tr (tell (Unregister_Blkdev (md_gd_major md) (md_disk_name md)) tr)"
    by (simp add: tell_def calm_append)
  with rdma_exit_calm [OF x(1)] 3 x show ?case
    using calm_trans by blast
qed simp_all

lemma exit_devices_Some:
  assumes "exit_devices C W M (Some md # ds) tr = Inr tr'"
  obtains tr2 r tr3 where
    "tr2 = tr @ [V (Del_Gendisk (md_gd md)), V (Put_Disk (md_gd md)),
      V (Unregister_Blkdev (major_num (md_dev md)) (md_disk_name md)), V (Blk_Cleanup_Queue (md_queue md))]"
    "rdma_exit W (dev_ctx (md_dev md)) tr2 = Inr (r, tr3)"
    "exit_devices C W M ds (tell Vfree_Device (tr3 @ map (\<lambda>a. V (Vfree a)) (free_req_arrays C (md_dev md)))) = Inr tr'"
  using assms by (auto simp: result_simps Let_def tell_def)

lemma exit_devices_dels:
  "exit_devices C W M ds tr = Inr tr' \<Longrightarrow> \<exists>ext. tr' = tr @ ext \<and> dels ext = map md_gd (map the (filter (\<lambda>d. d \<noteq> None) ds))"
proof (induction ds arbitrary: tr)
  case (Cons o1 ds)
  show ?case
  proof (cases o1)
    case (Some md)
    with Cons.prems obtain tr2 r tr3 where
      t2: "tr2 = tr @ [V (Del_Gendisk (md_gd md)), V (Put_Disk (md_gd md)),
        V (Unregister_Blkdev (major_num (md_dev md)) (md_disk_name md)), V (Blk_Cleanup_Queue (md_queue md))]"
      and x: "rdma_exit W (dev_ctx (md_dev md)) tr2 = Inr (r, tr3)"
      and e: "exit_devices C W M ds (tell Vfree_Device (tr3 @ map (\<lambda>a. V (Vfree a)) (free_req_arrays C (md_dev md)))) = Inr tr'"
      by (auto elim: exit_devices_Some simp del: exit_devices.simps)
    obtain e1 where "tr3 = tr2 @ e1" "dels e1 = []"
      using rdma_exit_calm [OF x] by (auto simp: calm_def)
    with Cons.IH [OF e] t2 Some show ?thesis
      by (auto simp: tell_def)
  qed (use Cons in simp)
qed simp

text \<open>When no call fails and the servers answer, every connected device can be taken down.\<close>

lemma rdma_exit_returns:
  assumes "kind_world W" and "closable ctx" and "\<forall>tr. w_inbox W tr = [''done'']"
  shows "\<exists>tr'. rdma_exit W ctx tr = Inr (0, tr')"
proof -
  obtain ctx' tr' where run: "connect W (server_addr ctx) (server_port ctx) ctx tr = Inr (0, ctx', tr')"
    using kind_connect [OF assms(1)] assms(2) by (metis closable_def)
  then have "ctx_pool ctx' \<noteq> None" "ctx_sock ctx' \<noteq> 0" "sock_live ctx'"
    using connect_ok [OF run] assms(2) by (auto simp: closable_def)
  then show ?thesis
    using run assms(3) by (auto simp: rdma_exit_def reconnect_def client_teardown_def teardown_once)
qed

text \<open>
  The devices of the table are taken down one after the other as long as their disks
  have another holder; the first whose disk has none is a use after free.
\<close>

lemma exit_devices_outcome:
  assumes "kind_world W" and "\<forall>tr. w_inbox W tr = [''done'']" and "\<forall>md. Some md \<in> set ds \<longrightarrow> closable (dev_ctx (md_dev md))"
    and held: "\<And>t gd. p_disk_held M t gd = held gd"
  shows "if \<forall>md. Some md \<in> set ds \<longrightarrow> held (md_gd md) then \<exists>tr'. exit_devices C W M ds tr = Inr tr'
    else exit_devices C W M ds tr = Inl Use_After_Free"
  using assms(3)
proof (induction ds arbitrary: tr)
  case (Cons o1 ds)
  show ?case
  proof (cases o1)
    case (Some md)
    have "\<exists>t. rdma_exit W (dev_ctx (md_dev md)) tr2 = Inr (0, t)" for tr2
      using rdma_exit_returns [OF assms(1) _ assms(2)] Cons.prems Some by simp
    then obtain t where "rdma_exit W (dev_ctx (md_dev md)) (tr @ [V (Del_Gendisk (md_gd md)), V (Put_Disk (md_gd md)),
        V (Unregister_Blkdev (major_num (md_dev md)) (md_disk_name md)), V (Blk_Cleanup_Queue (md_queue md))]) = Inr (0, t)"
      by blast
    then show ?thesis
      using Cons.IH [of "tell Vfree_Device (t @ map (\<lambda>a. V (Vfree a)) (free_req_arrays C (md_dev md)))"] Cons.prems
      by (auto simp: Some held read_disk_def tell_def Let_def split: if_splits)
  qed (use Cons in simp)
qed simp

lemma exit_each_returns:
  assumes "kind_world W" and "\<forall>tr. w_inbox W tr = [''done'']" and "\<forall>md. Some md \<in> set ds \<longrightarrow> closable (dev_ctx (md_dev md))"
  shows "\<exists>tr'. exit_each W ds tr = Inr tr'"
  using assms
proof (induction W ds tr rule: exit_each.induct)
  case (3 W md ds tr)
  obtain t where "rdma_exit W (dev_ctx (md_dev md)) (tell (Unregister_Blkdev (md_gd_major md) (md_disk_name md)) tr) = Inr (0, t)"
    using rdma_exit_returns [OF 3(2) _ 3(3)] 3(4) by (metis list.set_intros(1))
  with 3 show ?case
    by simp
qed simp_all

section \<open>A failed load\<close>

lemma connect_device_calm:
  assumes "connect_device C W M srv port npages m = Inr (d, m')"
  shows "calm (m_tr m) (m_tr m')"
proof -
  let ?tr = "m_tr m @ [P Vmalloc_Device (w_ptr W (m_tr m) Vmalloc_Device)]"
  from assms obtain c sg where "rdma_init C W npages srv port (int (REQ_POOL_SIZE C)) (m_lib m) ?tr = Inr (c, sg, m_tr m')"
    by (auto simp: connect_device_def ask_ptr_def Let_def result_simps split: option.splits if_splits)
  from rdma_init_calm [OF this] show ?thesis
    by (auto simp: calm_def)
qed

lemma publish_device_calm:
  assumes "publish_device C W M npages md m = Inr (g, st)"
  shows "calm (m_tr m) (m_tr (is_mod st))"
  using assms
  by (auto simp: publish_device_def ask_simps Let_def result_simps calm_def split: if_splits)

lemma init_round_calm:
  assumes "init_round C W M spec m = Inr (g, st)"
  shows "calm (m_tr m) (m_tr (is_mod st))"
  using assms
  by (cases spec) (auto simp: init_round_def result_simps Let_def split: option.splits
      dest!: connect_device_calm publish_device_calm intro: calm_trans)

lemma exit_each_unregisters:
  "exit_each W ds tr = Inr tr' \<Longrightarrow> Some md \<in> set ds \<Longrightarrow> V (Unregister_Blkdev (md_gd_major md) (md_disk_name md)) \<in> set tr'"
proof (induction W ds tr rule: exit_each.induct)
  case (3 W md' ds tr)
  let ?u = "\<lambda>md. V (Unregister_Blkdev (md_gd_major md) (md_disk_name md))"
  from 3(2) obtain r t where x: "rdma_exit W (dev_ctx (md_dev md')) (tell (Unregister_Blkdev (md_gd_major md') (md_disk_name md')) tr) = Inr (r, t)"
      "exit_each W ds t = Inr tr'"
    by (auto simp: result_simps)
  have "set (tr @ [?u md']) \<subseteq> set tr'"
    using rdma_exit_calm [OF x(1)] exit_each_calm [OF x(2)] by (auto simp: calm_def tell_def)
  then show ?case
    using 3(1) [OF x(2)] 3(3) by auto
qed auto

text \<open>What a failed load leaves behind.\<close>

definition abandoned :: "conf \<Rightarrow> ktrace \<Rightarrow> int \<times> module \<Rightarrow> bool" where
  "abandoned C tr = (\<lambda>(r, m). r = - 12 \<and> calm tr (m_tr m) \<and>
     (\<forall>md. Some md \<in> set (take (DEVICE_BOUND C) (m_devices m)) \<longrightarrow>
        V (Unregister_Blkdev (md_gd_major md) (md_disk_name md)) \<in> set (m_tr m)))"

lemma abandoned_mono: "calm tr0 tr \<Longrightarrow> abandoned C tr r \<Longrightarrow> abandoned C tr0 r"
  by (auto simp: abandoned_def intro: calm_trans)

lemma init_out_abandons:
  assumes "init_out C W M st = Inr r"
  shows "abandoned C (m_tr (is_mod st)) r"
proof -
  from assms obtain ds tr where e: "exit_each W (take (DEVICE_BOUND C) ds) (m_tr (is_mod st)) = Inr tr"
      and r: "r = (- 12, (is_mod st)\<lparr>m_devices := ds, m_tr := snd (rdma_library_exit tr)\<rparr>)"
    by (auto simp: init_out_def Let_def result_simps)
  have "calm tr (snd (rdma_library_exit tr))"
    by (simp add: rdma_library_exit_def tell_def calm_append)
  with exit_each_calm [OF e] have "calm (m_tr (is_mod st)) (snd (rdma_library_exit tr))"
    using calm_trans by blast
  then show ?thesis
    using exit_each_unregisters [OF e] r by (auto simp: abandoned_def rdma_library_exit_def tell_def)
qed

lemma init_out_rdma_exit_abandons:
  assumes "init_out_rdma_exit C W M st = Inr r"
  shows "abandoned C (m_tr (is_mod st)) r"
proof -
  from assms obtain c tr where x: "rdma_exit W (dev_ctx (md_dev (is_dev st))) (m_tr (is_mod st)) = Inr (c, tr)"
      and o: "init_out C W M (st\<lparr>is_mod := (is_mod st)\<lparr>m_tr := tr\<rparr>\<rparr>) = Inr r"
    by (auto simp: init_out_rdma_exit_def result_simps)
  show ?thesis
    using abandoned_mono [OF rdma_exit_calm [OF x]] init_out_abandons [OF o] by simp
qed

lemma init_out_unregister_abandons:
  assumes "init_out_unregister C W M st = Inr r"
  shows "abandoned C (m_tr (is_mod st)) r"
proof -
  have "calm (m_tr (is_mod st)) (tell (Unregister_Blkdev (is_major st) (is_name st)) (m_tr (is_mod st)))"
    by (simp add: tell_def calm_append)
  then show ?thesis
    using abandoned_mono init_out_rdma_exit_abandons [OF assms [unfolded init_out_unregister_def]] by fastforce
qed

lemmas out_abandons = init_out_abandons init_out_rdma_exit_abandons init_out_unregister_abandons

lemma init_loop_abandons:
  assumes "init_loop C W M specs m = Inr (r, m')" and "r \<noteq> 0"
  shows "abandoned C (m_tr m) (r, m')"
  using assms
proof (induction specs arbitrary: m)
  case (Cons spec specs)
  from Cons.prems(1) obtain g st where rd: "init_round C W M spec m = Inr (g, st)"
    by (auto simp: result_simps)
  have "abandoned C (m_tr (is_mod st)) (r, m')"
    using Cons rd by (cases g) (auto dest: out_abandons)
  then show ?case
    using abandoned_mono [OF init_round_calm [OF rd]] by blast
qed simp

lemma add_device_calm: "add_device W d (sg, tr) = (sg', tr') \<Longrightarrow> calm tr tr'"
  by (auto simp: add_device_def ask_simps Let_def calm_def split: if_splits)

lemma add_devices_calm: "fold (add_device W) ds (sg, tr) = (sg', tr') \<Longrightarrow> calm tr tr'"
proof (induction ds arbitrary: sg tr)
  case (Cons d ds)
  obtain sg1 t1 where 1: "add_device W d (sg, tr) = (sg1, t1)"
    by (cases "add_device W d (sg, tr)")
  then show ?case
    using Cons add_device_calm [OF 1] calm_trans by auto
qed simp

lemma wait_ready_calm: "wait_ready W ds (sg, tr) = Inr (sg', tr') \<Longrightarrow> calm tr tr'"
proof (induction ds arbitrary: sg tr)
  case (Cons d ds)
  obtain sg1 t1 where 1: "add_device W d (sg, tr) = (sg1, t1)"
    by (cases "add_device W d (sg, tr)")
  then show ?case
    using Cons add_device_calm [OF 1] calm_trans by (auto split: if_splits)
qed (simp split: if_splits)

lemma rmem_init_failed:
  assumes "rmem_init C W M servers tr = Inr (r, m)" and "r \<noteq> 0"
  shows "abandoned C tr (r, m)"
proof -
  obtain sg0 tr0 where 0: "snd (rdma_library_init W tr) = (sg0, tr0)"
    by (cases "snd (rdma_library_init W tr)")
  then have "calm (tell Register_Client tr) tr0"
    by (auto simp: rdma_library_init_def init_ib_def dest: add_devices_calm)
  moreover have "calm tr (tell Register_Client tr)"
    by (simp add: tell_def calm_append)
  moreover obtain sg1 tr1 where w: "wait_ready W (p_hotplug M) (sg0, tr0) = Inr (sg1, tr1)"
      "init_loop C W M (server_specs (Some servers))
        \<lparr>m_devices = replicate (DEVICE_BOUND C) None, m_initd = False, m_lib = sg1, m_tr = tr1\<rparr> = Inr (r, m)"
    using assms(1) 0 by (auto simp: rmem_init_def result_simps)
  ultimately have "calm tr tr1"
    using wait_ready_calm calm_trans by blast
  with init_loop_abandons [OF w(2) assms(2)] show ?thesis
    by (simp add: abandoned_mono)
qed

section \<open>An example\<close>

text \<open>The address of the second server cannot be read.\<close>

definition ex_bad :: "string \<times> string \<times> string" where
  "ex_bad = (''x'', ''1'', ''1'')"

lemma ex_bad_parsed: "server_specs (Some (servers_text (ex_specs @ [ex_bad]))) = ex_specs @ [ex_bad]"
proof (rule server_specs_text)
  have "plain ''8888''" "plain ''16''" "plain ''x''" "plain ''1''"
    by (simp_all add: plain_def is_delim_def)
  then show "\<forall>(srv, port, npages) \<in> set (ex_specs @ [ex_bad]). plain srv \<and> plain port \<and> plain npages"
    using dotted_plain by (simp add: ex_specs_def ex_bad_def)
qed

lemma connect_unreadable:
  assumes "length ip < 100" and "sscanf_dots 4 ip = []"
  shows "connect W ip port ctx tr = Inr (- 1, ctx\<lparr>server_addr := ip, server_port := port\<rparr>, tr)"
  using assms by (simp add: connect_def translate_ip_def Let_def)

lemma ex_bad_round:
  "\<exists>st. init_round conf_h ex_kworld (ex_mparams 3) ex_bad m = Inr (Out, st) \<and> is_queue st = 0 \<and> m_devices (is_mod st) = m_devices m"
proof -
  have "sscanf_dots 4 ''x'' = []"
    by (simp add: sscanf_dots_4 scan_signed_def is_space_def is_digit_def digit_val_def)
  then have r: "\<exists>tr'. rdma_init conf_h ex_kworld npages ''x'' port sz sg tr = Inr (None, sg, tr')" for npages port sz sg tr
    by (simp add: rdma_init_def rdma_create_def connect_unreadable ask_simps Let_def ex_kworld_def)
  have c: "\<exists>m'. connect_device conf_h ex_kworld (ex_mparams 3) ''x'' port npages m = Inr (None, m') \<and> m_devices m' = m_devices m"
    for npages port
  proof -
    let ?p = "w_ptr ex_kworld (m_tr m) Vmalloc_Device"
    obtain tr' where "rdma_init conf_h ex_kworld npages ''x'' port 1024 (m_lib m) (m_tr m @ [P Vmalloc_Device ?p]) =
        Inr (None, m_lib m, tr')"
      using r by blast
    moreover have "?p \<noteq> 0"
      by (simp add: ex_kworld_def)
    ultimately show ?thesis
      by (simp add: connect_device_def ask_ptr_def Let_def)
  qed
  obtain m' where "connect_device conf_h ex_kworld (ex_mparams 3) ''x'' (wrap_int 32 (fst (simple_strtol ''1'')))
      (wrap_int 32 (fst (simple_strtol ''1''))) m = Inr (None, m')" "m_devices m' = m_devices m"
    using c by blast
  then show ?thesis
    by (simp add: init_round_def ex_bad_def Let_def)
qed

lemma ex_loads:
  "\<exists>m md. rmem_init conf_h ex_kworld (ex_mparams 3) (servers_text ex_specs) [] = Inr (0, m) \<and> Some md \<in> set (m_devices m)"
proof -
  let ?M = "ex_mparams 3"
  obtain m where run: "rmem_init conf_h ex_kworld ?M (servers_text ex_specs) [] = Inr (0, m)"
    using kind_rmem_init [OF ex_kind, of conf_h ?M "servers_text ex_specs" "[]"] ex_reachable ex_specs_parsed
    by (auto simp: ex_mparams_def)
  then obtain m0 where "init_loop conf_h ex_kworld ?M ex_specs m0 = Inr (0, m)"
    unfolding rmem_init_def ex_specs_parsed by (auto simp: result_simps)
  then obtain g st where g: "init_round conf_h ex_kworld ?M (hd ex_specs) m0 = Inr (g, st)"
      "(case g of Next \<Rightarrow> init_loop conf_h ex_kworld ?M [] (is_mod st) | Out \<Rightarrow> init_out conf_h ex_kworld ?M st
        | Out_rdma_exit \<Rightarrow> init_out_rdma_exit conf_h ex_kworld ?M st
        | Out_unregister \<Rightarrow> init_out_unregister conf_h ex_kworld ?M st) = Inr (0, m)"
    by (auto simp: ex_specs_def result_simps)
  then have rd: "g = Next" "m_devices m = m_devices (is_mod st)"
    by (cases g; auto dest: out_codes)+
  with g(1) obtain npages md m1 where "publish_device conf_h ex_kworld ?M npages md m1 = Inr (Next, st)"
    by (auto simp: init_round_def result_simps Let_def split: option.splits prod.splits)
  then obtain i md' where "m_devices (is_mod st) = (m_devices m1)[i := Some md']" "i < length (m_devices m1)"
    by (rule publish_device_next) simp
  then show ?thesis
    using run rd(2) by (auto intro: set_update_memI)
qed

section \<open>Properties\<close>



text \<open>
  C36. A load that fails half way leaves disks behind: \<open>rmem_init\<close> then returns -ENOMEM,
  it has unregistered the block devices that are still in the table, and yet it has
  removed no disk at all.
\<close>
theorem rmem_init_abandons:
  assumes "rmem_init C W M servers tr = Inr (r, m)" and "r \<noteq> 0"
  shows "r = - 12 \<and> dels (m_tr m) = dels tr \<and>
    (\<forall>md. Some md \<in> set (take (DEVICE_BOUND C) (m_devices m)) \<longrightarrow>
      V (Unregister_Blkdev (md_gd_major md) (md_disk_name md)) \<in> set (m_tr m))"
  using rmem_init_failed [OF assms] by (auto simp: abandoned_def dest: calm_dels)

theorem rmem_init_abandons_witness:
  "\<exists>m gd q. rmem_init conf_h ex_kworld (ex_mparams 3) (servers_text (ex_specs @ [ex_bad])) [] = Inr (- 12, m) \<and>
     V (Add_Disk gd q) \<in> set (m_tr m) \<and> dels (m_tr m) = []"
proof -
  let ?M = "ex_mparams 3" and ?s = "servers_text (ex_specs @ [ex_bad])"
  obtain sg tr1 where i: "snd (rdma_library_init ex_kworld []) = (sg, tr1)"
    by (cases "snd (rdma_library_init ex_kworld [])")
  define m0 where "m0 = \<lparr>m_devices = replicate 100 None, m_initd = False, m_lib = sg, m_tr = tr1\<rparr>"
  have w: "wait_ready ex_kworld (p_hotplug ?M) (sg, tr1) = Inr (sg, tr1)"
    using wait_ready_at_once [of "(sg, tr1)"] kind_ready [OF ex_kind, of "[]"] i by (simp add: ex_kworld_def)
  have "reachable (hd ex_specs)" "\<And>q. p_queue_id ?M q = 3" "length (m_devices m0) = 100"
    using ex_reachable by (simp_all add: ex_specs_def ex_mparams_def m0_def)
  from kind_round [OF ex_kind, of conf_h m0 ?M, OF _ _ _ _ this(1)] this(2,3)
  obtain st gd q where 1: "init_round conf_h ex_kworld ?M (hd ex_specs) m0 = Inr (Next, st)"
      and add: "V (Add_Disk gd q) \<in> set (m_tr (is_mod st))"
    by auto
  obtain st' where 2: "init_round conf_h ex_kworld ?M ex_bad (is_mod st) = Inr (Out, st')" "is_queue st' = 0"
      "m_devices (is_mod st') = m_devices (is_mod st)"
    using ex_bad_round by blast
  have "mod_ok conf_h (is_mod st)"
    by (rule init_round_ok [OF ex_copyless ex_sized _ 1]) (auto simp: mod_ok_def m0_def)
  then have "\<forall>md. Some md \<in> set (take 100 (m_devices (is_mod st'))) \<longrightarrow> closable (dev_ctx (md_dev md))"
    using 2(3) by (auto simp: mod_ok_def up_def dest: in_set_takeD)
  then obtain tr' where "exit_each ex_kworld (take 100 (m_devices (is_mod st'))) (m_tr (is_mod st')) = Inr tr'"
    using exit_each_returns [OF ex_kind] by (fastforce simp: ex_kworld_def)
  then obtain m where o: "init_out conf_h ex_kworld ?M st' = Inr (- 12, m)"
    using 2(2) by (simp add: init_out_def)
  have "init_loop conf_h ex_kworld ?M (ex_specs @ [ex_bad]) m0 = Inr (- 12, m)"
    using 1 2 o by (simp add: ex_specs_def)
  then have run: "rmem_init conf_h ex_kworld ?M ?s [] = Inr (- 12, m)"
    using i w ex_bad_parsed by (simp add: rmem_init_def m0_def)
  moreover have "V (Add_Disk gd q) \<in> set (m_tr m)"
    using add init_round_calm [OF 2(1)] init_out_abandons [OF o] by (auto simp: calm_def abandoned_def)
  ultimately show ?thesis
    using rmem_init_abandons [OF run] by auto
qed

text \<open>
  A request queue whose number does not fit into the table leads to the label that is
  meant to clean up, and there to a read beyond the end of the table.
\<close>
lemma queue_number_overrun:
  assumes "connect_device C W M srv port npages m = Inr (Some d, m1)" and "\<not> CUSTOM_MAKE_REQ_FN C"
    and "w_ptr W (m_tr m1) (Blk_Init_Queue (MODE C)) \<noteq> 0" and "length (m_devices m1) = DEVICE_BOUND C"
    and "int (DEVICE_BOUND C) \<le> p_queue_id M (w_ptr W (m_tr m1) (Blk_Init_Queue (MODE C)))"
    and "\<And>tr. \<exists>r tr'. rdma_exit W (dev_ctx d) tr = Inr (r, tr')"
    and "port = wrap_int 32 (fst (simple_strtol tp))" and "npages = wrap_int 32 (fst (simple_strtol tn))"
  shows "init_loop C W M ((srv, tp, tn) # specs) m = Inl Out_Of_Bounds"
proof -
  let ?q = "w_ptr W (m_tr m1) (Blk_Init_Queue (MODE C))"
  obtain r tr' where x: "rdma_exit W (dev_ctx d) (m_tr m1 @ [P (Blk_Init_Queue (MODE C)) ?q]) = Inr (r, tr')"
    using assms(6) by blast
  have "arr_get (m_devices m1) (p_queue_id M ?q) = Inl Out_Of_Bounds"
    using assms(4,5) by (simp add: arr_get_def)
  with x show ?thesis
    using assms by (simp add: init_round_def publish_device_def init_out_rdma_exit_def init_out_def ask_simps Let_def)
qed

text \<open>The default of the parameter names no number of pages, so it names no device.\<close>

lemma default_servers: "server_specs (Some ''localhost:8888'') = []"
  by (simp add: server_specs.simps is_delim_def)

text \<open>
  \<open>rmem_getgeo\<close> multiplies the size in bytes by the page size once more. The low 27 bits
  of the product are zero, and no others reach the 16 bits of the number of cylinders:
  every device that \<open>rmem_init\<close> brings up claims to have no cylinder at all.
\<close>

lemma connected_no_cylinders:
  assumes "copyless_conf C" and "\<And>t. sized C (p_device M t)" and "connect_device C W M srv port npages m = Inr (Some d, m')"
  shows "geo_cylinders (snd (rmem_getgeo d)) = 0"
proof -
  let ?w = "word_of_int npages :: u64"
  have "dev_size d * of_nat PAGE_SIZE * (of_nat PAGE_SIZE div of_nat KERNEL_SECTOR_SIZE) = push_bit 27 ?w"
    using connect_device_ready(2) [OF assms] by (simp add: push_bit_eq_mult)
  moreover have "ucast (signed_drop_bit 6 (push_bit 27 ?w AND NOT 0x3f)) = (0 :: 16 word)"
    by (rule bit_word_eqI) (simp add: bit_ucast_iff bit_signed_drop_bit_iff bit_and_iff bit_push_bit_iff)
  ultimately show ?thesis
    by (simp add: rmem_getgeo_def Let_def)
qed

end
