(* ===== verification/Proc_Debug.thy ===== *)
theory Proc_Debug
  imports Module
begin

text \<open>
  The file \<open>/proc/rmem_debug\<close>: \<open>debug_show_latency_dist\<close>, \<open>debug_show_out_req\<close>,
  \<open>debug_open\<close> and \<open>debug_write\<close> of \<open>src/rmem.c\<close> (lines 551 to 632). A function that
  prints into a \<open>seq_file\<close> gives the text it prints. The main lemma says that the list
  of outstanding batch requests is exact.
\<close>

section \<open>The code\<close>

definition nl :: char where "nl = CHR 0x0A"
definition tab :: char where "tab = CHR 0x09"

text \<open>The loop over the devices that both functions have.\<close>

fun show_devices :: "(nat \<Rightarrow> batch_request_pool \<Rightarrow> string result) \<Rightarrow> nat \<Rightarrow> mdev option list \<Rightarrow> string result" where
  "show_devices f i [] = Inr []"
| "show_devices f i (None # ds) = show_devices f (Suc i) ds"
| "show_devices f i (Some md # ds) =
     bindR (case ctx_pool (dev_ctx (md_dev md)) of None \<Rightarrow> Inl Null_Deref | Some p \<Rightarrow> f i p) (\<lambda>t.
     bindR (show_devices f (Suc i) ds) (\<lambda>ts. Inr (t @ ts)))"

fun show_dist :: "int list \<Rightarrow> nat \<Rightarrow> nat \<Rightarrow> string result" where
  "show_dist dist j 0 = Inr []"
| "show_dist dist j (Suc k) =
     bindR (arr_get dist (int j)) (\<lambda>n.
     bindR (show_dist dist (Suc j) k) (\<lambda>ts. Inr (show_int (int j) @ tab # show_int n @ nl # ts)))"

definition debug_show_latency_dist :: "conf \<Rightarrow> mdev option list \<Rightarrow> string result" where
  "debug_show_latency_dist C devices = show_devices (\<lambda>i p.
     bindR (show_dist (latency_dist p) 0 (LATENCY_BUCKET C)) (\<lambda>ts.
     Inr (''-----Found device '' @ show_int (int i) @ '' display latency-----'' @ nl # ts))) 0 (take (DEVICE_BOUND C) devices)"

text \<open>
  The requests in the pool are entered into an array \<open>reqs\<close>, at the place their \<open>id\<close>
  names; a place left empty belongs to a request that is out.
\<close>

fun index_reqs :: "batch_request_pool \<Rightarrow> nat \<Rightarrow> nat \<Rightarrow> ptr list \<Rightarrow> ptr list result" where
  "index_reqs p j 0 reqs = Inr reqs"
| "index_reqs p j (Suc k) reqs =
     bindR (arr_get (pool_data p) (int j)) (\<lambda>d.
     bindR (if d \<noteq> NULL then bindR (deref (pool_heap p) d) (\<lambda>b. arr_set reqs (br_id b) d) else Inr reqs) (\<lambda>reqs'.
     index_reqs p (Suc j) k reqs'))"

fun missing_reqs :: "batch_request_pool \<Rightarrow> ptr list \<Rightarrow> nat \<Rightarrow> nat \<Rightarrow> string result" where
  "missing_reqs p reqs j 0 = Inr []"
| "missing_reqs p reqs j (Suc k) =
     bindR (arr_get reqs (int j)) (\<lambda>r.
     bindR (if r = NULL
            then bindR (arr_get (all_reqs p) (int j)) (\<lambda>a. bindR (deref (pool_heap p) a) (\<lambda>b.
                 Inr (show_int (int j) @ CHR '':'' # show_int (br_outstanding_reqs b) @ [nl])))
            else Inr []) (\<lambda>t.
     bindR (missing_reqs p reqs (Suc j) k) (\<lambda>ts. Inr (t @ ts))))"

text \<open>The loop over \<open>j\<close> looks at \<open>io_req[i]\<close> each time. The format of \<open>%p\<close> is a parameter.\<close>

definition block_reqs :: "(ptr \<Rightarrow> string) \<Rightarrow> batch_request_pool \<Rightarrow> nat \<Rightarrow> string result" where
  "block_reqs show_ptr p i =
     bindR (arr_get (io_req p) (int i)) (\<lambda>r.
     Inr (concat (map (\<lambda>j. if r \<noteq> NULL then show_ptr r @ [nl] else []) [0..<1024])))"

definition show_out_pool :: "(nat \<Rightarrow> ptr) \<Rightarrow> (ptr \<Rightarrow> string) \<Rightarrow> nat \<Rightarrow> batch_request_pool \<Rightarrow> string result" where
  "show_out_pool vm show_ptr i p =
     bindR (spin_lock (pool_lock p)) (\<lambda>_.
     bindR (assertR (pool_size p > 0 \<longrightarrow> vm i \<noteq> NULL) Null_Deref) (\<lambda>_.
     bindR (index_reqs p 0 (nat (pool_size p)) (replicate (nat (pool_size p)) NULL)) (\<lambda>reqs.
     bindR (missing_reqs p reqs 0 (nat (pool_size p))) (\<lambda>ms.
     bindR (block_reqs show_ptr p i) (\<lambda>bs.
     Inr (''-----Found device '' @ show_int (int i) @ ''-----'' @ nl # ''Indexing batch_reqs'' @ nl #
          ''Outstanding batch reqs'' @ nl # ms @ ''Outstanding block reqs'' @ nl # bs))))))"

definition debug_show_out_req :: "conf \<Rightarrow> (nat \<Rightarrow> ptr) \<Rightarrow> (ptr \<Rightarrow> string) \<Rightarrow> mdev option list \<Rightarrow> string result" where
  "debug_show_out_req C vm show_ptr devices = show_devices (show_out_pool vm show_ptr) 0 (take (DEVICE_BOUND C) devices)"

definition debug_show_null :: "string result" where
  "debug_show_null = Inr []"

text \<open>What reading the file gives after \<open>debug_open\<close>, and the number \<open>debug_write\<close> returns.\<close>

definition debug_open :: "conf \<Rightarrow> (nat \<Rightarrow> ptr) \<Rightarrow> (ptr \<Rightarrow> string) \<Rightarrow> mdev option list \<Rightarrow> string result" where
  "debug_open C vm show_ptr devices =
     (if MEASURE_LATENCY C then debug_show_latency_dist C devices
      else if DEBUG_OUT_REQ C then debug_show_out_req C vm show_ptr devices
      else debug_show_null)"

definition debug_write :: "string \<Rightarrow> int" where
  "debug_write buf = 0"

section \<open>Pools whose requests know their places\<close>

text \<open>
  Request number \<open>j\<close> of \<open>all\<close> carries the id \<open>j\<close>, and the slots of the ring hold
  requests of \<open>all\<close> only.
\<close>

definition named_pool :: "batch_request_pool \<Rightarrow> bool" where
  "named_pool p \<longleftrightarrow> pool_size p = int (length (all_reqs p)) \<and> length (pool_data p) = length (all_reqs p) \<and>
     NULL \<notin> set (all_reqs p) \<and> set (pool_data p) \<subseteq> insert NULL (set (all_reqs p)) \<and> length (io_req p) = IO_REQ_SIZE \<and>
     (\<forall>j < length (all_reqs p). \<exists>b. pool_heap p (all_reqs p ! j) = Some b \<and> br_id b = int j)"

lemma named_poolD:
  assumes "named_pool p" and "x \<in> set (pool_data p)" and "x \<noteq> NULL"
  obtains j b where "j < length (all_reqs p)" "x = all_reqs p ! j" "pool_heap p x = Some b" "br_id b = int j"
proof -
  from assms have "x \<in> set (all_reqs p)"
    by (auto simp: named_pool_def)
  then obtain j where "j < length (all_reqs p)" "x = all_reqs p ! j"
    by (auto simp: in_set_conv_nth)
  with assms(1) that show thesis
    by (fastforce simp: named_pool_def)
qed

lemma alloc_batch_requests_named:
  assumes "alloc_batch_requests vm junk i k d hp = Inr (d', hp')" and "inj_on vm {..<4 + (i + k)}"
    and "\<forall>j < i. \<exists>b. hp (vm (4 + j)) = Some b \<and> br_id b = int j" and "j < i + k"
  shows "\<exists>b. hp' (vm (4 + j)) = Some b \<and> br_id b = int j"
  using assms
proof (induction k arbitrary: i d hp)
  case (Suc k)
  let ?hp = "hp(vm (4 + i) \<mapsto> junk\<lparr>br_id := int i\<rparr>)"
  have "\<exists>b. ?hp (vm (4 + j')) = Some b \<and> br_id b = int j'" if "j' < Suc i" for j'
    using Suc.prems(2,3) that by (cases "j' = i") (auto simp: inj_on_eq_iff)
  moreover have "alloc_batch_requests vm junk (Suc i) k (d @ [vm (4 + i)]) ?hp = Inr (d', hp')"
    using Suc.prems(1) by (simp add: result_simps Let_def del: fun_upd_apply split: if_splits)
  ultimately show ?case
    using Suc.IH Suc.prems(2,4) by simp
qed simp

lemma get_batch_request_pool_named:
  assumes "get_batch_request_pool C vm junk (int n) = Inr p" and "inj_on vm {..<4 + n}" and "\<And>k. k < 4 + n \<Longrightarrow> vm k \<noteq> NULL"
  shows "named_pool p"
proof -
  from assms(1) obtain d hp where a: "alloc_batch_requests vm junk 0 n [] Map.empty = Inr (d, hp)"
      and p: "all_reqs p = d" "pool_data p = d" "pool_size p = int n" "pool_heap p = hp" "io_req p = replicate IO_REQ_SIZE NULL"
    by (auto simp: get_batch_request_pool_def result_simps split: if_splits)
  have d: "d = map (\<lambda>j. vm (4 + j)) [0..<n]"
    using a alloc_batch_requests_ok [of n vm 0 junk "[]" Map.empty] assms(3) by auto
  have "\<exists>b. hp (vm (4 + j)) = Some b \<and> br_id b = int j" if "j < n" for j
    using alloc_batch_requests_named [OF a, of j] assms(2) that by simp
  then show ?thesis
    unfolding named_pool_def p d using assms(3) by auto
qed

text \<open>What the ring operations do to the fields that matter here.\<close>

lemma named_pool_step:
  assumes "named_pool p" and "pool_data p' = pool_data p \<or> (\<exists>k x. x \<in> insert NULL (set (all_reqs p)) \<and> pool_data p' = (pool_data p)[k := x])"
    and "pool_heap p' = pool_heap p \<or> (\<exists>r b u. pool_heap p r = Some b \<and> pool_heap p' = (pool_heap p)(r \<mapsto> b\<lparr>br_start_time := u\<rparr>))"
    and "all_reqs p' = all_reqs p" and "pool_size p' = pool_size p" and "io_req p' = io_req p"
  shows "named_pool p'"
proof -
  have "set (pool_data p') \<subseteq> insert NULL (set (all_reqs p))" "length (pool_data p') = length (pool_data p)"
    using assms(1,2) set_update_subset_insert by (fastforce simp: named_pool_def)+
  moreover have "\<exists>b. pool_heap p' a = Some b \<and> br_id b = j" if "pool_heap p a = Some b'" "br_id b' = j" for a b' j
    using assms(3) that by fastforce
  ultimately show ?thesis
    using assms(1,4-6) unfolding named_pool_def by metis
qed

lemma get_batch_request_taken:
  assumes "get_batch_request C now p = Inr (r, p')" and "pool_head p \<noteq> pool_tail p"
  obtains h hp where "p' = p\<lparr>pool_data := (pool_data p)[nat (pool_head p) := NULL], pool_head := h, pool_heap := hp, pool_lock := False\<rparr>"
    "(if MEASURE_LATENCY C then bindR (deref (pool_heap p) r) (\<lambda>b. Inr ((pool_heap p)(r \<mapsto> b\<lparr>br_start_time := now\<rparr>)))
      else Inr (pool_heap p)) = Inr hp"
proof -
  from assms obtain d h hp where "arr_set (pool_data p) (pool_head p) NULL = Inr d"
      "(if MEASURE_LATENCY C then bindR (deref (pool_heap p) r) (\<lambda>b. Inr ((pool_heap p)(r \<mapsto> b\<lparr>br_start_time := now\<rparr>)))
        else Inr (pool_heap p)) = Inr hp"
      "p\<lparr>pool_data := d, pool_head := h, pool_heap := hp, pool_lock := False\<rparr> = p'"
    unfolding get_batch_request_def bindR_eq_Inr spin_unlock_False by (simp only: if_False bindR_eq_Inr) blast
  then show thesis
    by (intro that [where h = h and hp = hp]) (simp_all add: arr_set_eq_Inr)
qed

lemma get_batch_request_named:
  assumes "get_batch_request C now p = Inr (r, p')" and "named_pool p"
  shows "named_pool p'"
proof (cases "pool_head p = pool_tail p")
  case True
  then have "p' = p\<lparr>pool_lock := False\<rparr>"
    using assms(1) by (simp add: get_batch_request_def bindR_eq_Inr)
  then show ?thesis
    using assms(2) by (simp add: named_pool_def)
next
  case False
  with assms(1) obtain h hp where
    p': "p' = p\<lparr>pool_data := (pool_data p)[nat (pool_head p) := NULL], pool_head := h, pool_heap := hp, pool_lock := False\<rparr>"
    and hp: "(if MEASURE_LATENCY C then bindR (deref (pool_heap p) r) (\<lambda>b. Inr ((pool_heap p)(r \<mapsto> b\<lparr>br_start_time := now\<rparr>)))
      else Inr (pool_heap p)) = Inr hp"
    by (rule get_batch_request_taken)
  have "hp = pool_heap p \<or> (\<exists>b. pool_heap p r = Some b \<and> hp = (pool_heap p)(r \<mapsto> b\<lparr>br_start_time := now\<rparr>))"
    using hp by (cases "MEASURE_LATENCY C") (auto simp: bindR_eq_Inr deref_eq_Inr)
  then have "pool_heap p' = pool_heap p \<or> (\<exists>r b u. pool_heap p r = Some b \<and> pool_heap p' = (pool_heap p)(r \<mapsto> b\<lparr>br_start_time := u\<rparr>))"
    using p' by auto
  moreover have "pool_data p' = (pool_data p)[nat (pool_head p) := NULL]"
    using p' by simp
  ultimately show ?thesis
    by (intro named_pool_step [OF assms(2)]) (blast, assumption, simp_all add: p')
qed

lemma return_batch_request_named:
  assumes "return_batch_request C now khz p r = Inr p'" and "named_pool p" and "r \<in> set (all_reqs p)"
  shows "named_pool p'"
proof -
  have "(pool_data p' = pool_data p \<or> (\<exists>k. pool_data p' = (pool_data p)[k := r])) \<and> pool_heap p' = pool_heap p \<and>
      all_reqs p' = all_reqs p \<and> pool_size p' = pool_size p \<and> io_req p' = io_req p"
    using assms(1) by (auto simp: return_batch_request_def bindR_eq_Inr arr_set_eq_Inr Let_def split: if_splits)
  then show ?thesis
    using assms(3) by (intro named_pool_step [OF assms(2), of p']) blast+
qed

text \<open>The table of block requests changes only itself.\<close>

lemma named_pool_table:
  "named_pool p \<Longrightarrow> length io = length (io_req p) \<Longrightarrow> named_pool (p\<lparr>io_req := io, pool_lock := l\<rparr>)"
  by (simp add: named_pool_def)

lemma debug_pool_insert_named:
  assumes "debug_pool_insert p req = Inr p'" and "named_pool p"
  shows "named_pool p'"
proof -
  obtain io where "p' = p\<lparr>io_req := io, pool_lock := False\<rparr>" "length io = length (io_req p)"
    using assms(1) by (auto simp: debug_pool_insert_def result_simps arr_set_eq_Inr split: option.splits)
  then show ?thesis
    using named_pool_table [OF assms(2)] by simp
qed

lemma debug_pool_remove_named:
  assumes "debug_pool_remove p req = Inr p'" and "named_pool p"
  shows "named_pool p'"
proof -
  obtain io where "p' = p\<lparr>io_req := io, pool_lock := False\<rparr>" "length io = length (io_req p)"
    using assms(1) by (auto simp: debug_pool_remove_def result_simps arr_set_eq_Inr split: option.splits)
  then show ?thesis
    using named_pool_table [OF assms(2)] by simp
qed

section \<open>The list of outstanding requests\<close>

lemma index_reqs_ok:
  assumes "named_pool p" and "j + k \<le> length (pool_data p)" and "length reqs = length (all_reqs p)"
  shows "\<exists>reqs'. index_reqs p j k reqs = Inr reqs' \<and> length reqs' = length (all_reqs p) \<and>
    (\<forall>i < length (all_reqs p). reqs' ! i = NULL \<longleftrightarrow> reqs ! i = NULL \<and> all_reqs p ! i \<notin> set (take k (drop j (pool_data p))))"
  using assms(2,3)
proof (induction k arbitrary: j reqs)
  case (Suc k)
  let ?d = "pool_data p ! j"
  have j: "j < length (pool_data p)" "take (Suc k) (drop j (pool_data p)) = ?d # take k (drop (Suc j) (pool_data p))"
    using Suc.prems(1) by (simp_all add: Cons_nth_drop_Suc [symmetric])
  show ?case
  proof (cases "?d = NULL")
    case True
    then have "all_reqs p ! i \<noteq> ?d" if "i < length (all_reqs p)" for i
      using assms(1) that by (auto simp: named_pool_def in_set_conv_nth)
    with True j Suc.IH [of "Suc j" reqs] Suc.prems show ?thesis
      by simp
  next
    case False
    obtain l b where l: "l < length (all_reqs p)" "?d = all_reqs p ! l" "pool_heap p ?d = Some b" "br_id b = int l"
      using named_poolD [OF assms(1) nth_mem [OF j(1)] False] by blast
    have eq: "all_reqs p ! i = ?d \<longleftrightarrow> i = l" if i: "i < length (all_reqs p)" for i
    proof -
      have "\<exists>b. pool_heap p (all_reqs p ! i) = Some b \<and> br_id b = int i"
        using assms(1) i unfolding named_pool_def by blast
      then show ?thesis
        using l by auto
    qed
    have "index_reqs p j (Suc k) reqs = index_reqs p (Suc j) k (reqs[l := ?d])"
      using j(1) False l Suc.prems(2) by simp
    then show ?thesis
      using Suc.IH [of "Suc j" "reqs[l := ?d]"] Suc.prems j(2) eq False l(1) by (auto simp: nth_list_update simp del: index_reqs.simps split: if_splits)
  qed
qed simp

definition out_line :: "batch_request_pool \<Rightarrow> nat \<Rightarrow> string" where
  "out_line p j = show_int (int j) @ CHR '':'' # show_int (br_outstanding_reqs (the (pool_heap p (all_reqs p ! j)))) @ [nl]"

lemma missing_reqs_ok:
  assumes "named_pool p" and "length reqs = length (all_reqs p)" and "j + k \<le> length (all_reqs p)"
  shows "missing_reqs p reqs j k = Inr (concat (map (out_line p) (filter (\<lambda>i. reqs ! i = NULL) [j..<j + k])))"
  using assms(3)
proof (induction k arbitrary: j)
  case (Suc k)
  have "j < length (all_reqs p)"
    using Suc.prems by simp
  then have "\<exists>b. pool_heap p (all_reqs p ! j) = Some b"
    using assms(1) unfolding named_pool_def by blast
  moreover have "[j..<j + Suc k] = j # [Suc j..<Suc j + k]"
    by (simp add: upt_rec)
  ultimately show ?case
    using Suc.IH [of "Suc j"] Suc.prems assms(2) by (auto simp: out_line_def)
qed simp

text \<open>What is to be printed for a device: one line for each request that is not in the pool.\<close>

definition out_text :: "(ptr \<Rightarrow> string) \<Rightarrow> nat \<Rightarrow> batch_request_pool \<Rightarrow> string" where
  "out_text show_ptr i p = ''-----Found device '' @ show_int (int i) @ ''-----'' @ nl # ''Indexing batch_reqs'' @ nl #
     ''Outstanding batch reqs'' @ nl #
     concat (map (out_line p) (filter (\<lambda>j. all_reqs p ! j \<notin> set (pool_data p)) [0..<length (all_reqs p)])) @
     ''Outstanding block reqs'' @ nl # concat (replicate 1024 (if io_req p ! i \<noteq> NULL then show_ptr (io_req p ! i) @ [nl] else []))"

lemma show_out_pool_exact:
  assumes "named_pool p" and "\<not> pool_lock p" and "vm i \<noteq> NULL" and "i < IO_REQ_SIZE"
  shows "show_out_pool vm show_ptr i p = Inr (out_text show_ptr i p)"
proof -
  let ?n = "length (all_reqs p)"
  have n: "nat (pool_size p) = ?n" "length (pool_data p) = ?n" "length (io_req p) = IO_REQ_SIZE"
    using assms(1) by (simp_all add: named_pool_def)
  obtain reqs where r: "index_reqs p 0 ?n (replicate ?n NULL) = Inr reqs" "length reqs = ?n"
      "\<forall>i < ?n. reqs ! i = NULL \<longleftrightarrow> all_reqs p ! i \<notin> set (pool_data p)"
    using index_reqs_ok [OF assms(1), of 0 ?n "replicate ?n NULL"] n(2) by auto
  have f: "filter (\<lambda>i. reqs ! i = NULL) [0..<?n] = filter (\<lambda>j. all_reqs p ! j \<notin> set (pool_data p)) [0..<?n]"
    using r(3) by (intro filter_cong) auto
  have "missing_reqs p reqs 0 ?n = Inr (concat (map (out_line p) (filter (\<lambda>j. all_reqs p ! j \<notin> set (pool_data p)) [0..<?n])))"
    using missing_reqs_ok [OF assms(1) r(2), of 0 ?n] f by simp
  moreover have "map (\<lambda>j. x) [0..<1024] = replicate 1024 x" for x :: string
    by (simp only: map_replicate_const length_upt diff_zero)
  ultimately show ?thesis
    using assms(2-4) n r(1) by (simp add: show_out_pool_def block_reqs_def out_text_def del: upt_Suc)
qed

lemma show_devices_ok:
  assumes "\<And>k md. k < length ds \<Longrightarrow> ds ! k = Some md \<Longrightarrow>
      \<exists>p. ctx_pool (dev_ctx (md_dev md)) = Some p \<and> f (i + k) p = Inr (g (i + k) p)"
  shows "show_devices f i ds = Inr (concat (map2 (\<lambda>k d. case d of None \<Rightarrow> []
      | Some md \<Rightarrow> g k (the (ctx_pool (dev_ctx (md_dev md))))) [i..<i + length ds] ds))"
  using assms
proof (induction ds arbitrary: i)
  case (Cons d ds)
  have "show_devices f (Suc i) ds = Inr (concat (map2 (\<lambda>k d. case d of None \<Rightarrow> []
      | Some md \<Rightarrow> g k (the (ctx_pool (dev_ctx (md_dev md))))) [Suc i..<Suc i + length ds] ds))"
    by (rule Cons.IH) (use Cons.prems [of "Suc _"] in simp)
  moreover have "[i..<i + length (d # ds)] = i # [Suc i..<Suc i + length ds]"
    by (simp add: upt_rec)
  ultimately show ?case
    using Cons.prems [of 0] by (cases d) (auto simp del: upt_Suc)
qed simp

section \<open>The pools of a running driver\<close>

text \<open>
  A pool is created once; afterwards block requests are entered into its table and
  removed from it, batch requests are taken out and given back, and the fields other
  than the id of a batch request are written, in any order.
\<close>

inductive pool_run :: "conf \<Rightarrow> batch_request_pool \<Rightarrow> bool" for C where
  create: "get_batch_request_pool C vm junk (int n) = Inr p \<Longrightarrow> inj_on vm {..<4 + n} \<Longrightarrow> \<forall>k < 4 + n. vm k \<noteq> NULL \<Longrightarrow> pool_run C p"
| take: "pool_run C p \<Longrightarrow> get_batch_request C now p = Inr (r, p') \<Longrightarrow> pool_run C p'"
| give: "pool_run C p \<Longrightarrow> r \<in> set (all_reqs p) \<Longrightarrow> return_batch_request C now khz p r = Inr p' \<Longrightarrow> pool_run C p'"
| enter: "pool_run C p \<Longrightarrow> debug_pool_insert p req = Inr p' \<Longrightarrow> pool_run C p'"
| leave: "pool_run C p \<Longrightarrow> debug_pool_remove p req = Inr p' \<Longrightarrow> pool_run C p'"
| use: "pool_run C p \<Longrightarrow> pool_heap p r = Some b \<Longrightarrow> br_id b' = br_id b \<Longrightarrow> pool_run C (p\<lparr>pool_heap := (pool_heap p)(r \<mapsto> b')\<rparr>)"

lemma pool_run_named: "pool_run C p \<Longrightarrow> named_pool p"
proof (induction rule: pool_run.induct)
  case (use p r b b')
  then show ?case
    by (auto simp: named_pool_def)
qed (blast intro: get_batch_request_pool_named get_batch_request_named return_batch_request_named
    debug_pool_insert_named debug_pool_remove_named)+

section \<open>An example\<close>

text \<open>
  A pool of two requests behind the second device; a block request has been entered and
  the first batch request taken out for it.
\<close>

definition ex_debug_conf :: conf where
  "ex_debug_conf = conf_h\<lparr>DEBUG_OUT_REQ := True, DEVICE_BOUND := 2\<rparr>"

definition ex_vm :: "nat \<Rightarrow> ptr" where
  "ex_vm k = word_of_nat (k + 1)"

definition ex_fresh :: batch_request where
  "ex_fresh = \<lparr>br_id = 0, br_req = 0, br_nsec = 0, br_outstanding_reqs = 5, br_next = 0, br_all_request_sent = False,
     br_comp_reqs = 0, br_start_time = 0, br_first = False\<rparr>"

definition ex_mdev :: "batch_request_pool \<Rightarrow> mdev" where
  "ex_mdev p = \<lparr>md_dev = \<lparr>dev_size = 0, arr_lock = False, major_num = 0, dev_ctx = zero_ctx\<lparr>ctx_pool := Some p\<rparr>, wrs = [],
     sges = [], dev_rdma_req = [], dev_req_arr = [], dev_req_heap = (\<lambda>_. None), dev_head = 0, dev_tail = 0, blk_req = []\<rparr>,
     md_gd = 0, md_gd_major = 0, md_disk_name = [], md_queue = 0\<rparr>"

lemma ex_alloc: "alloc_batch_requests ex_vm ex_fresh 0 2 [] Map.empty = Inr ([5, 6], [5 \<mapsto> ex_fresh, 6 \<mapsto> ex_fresh\<lparr>br_id := 1\<rparr>])"
proof -
  have "alloc_batch_requests ex_vm ex_fresh 0 (Suc (Suc 0)) [] Map.empty = Inr ([5, 6], [5 \<mapsto> ex_fresh, 6 \<mapsto> ex_fresh\<lparr>br_id := 1\<rparr>])"
    by (simp add: ex_vm_def ex_fresh_def Let_def)
  then show ?thesis
    unfolding numeral_2_eq_2 .
qed

lemma ex_vm_unat: "unat (ex_vm k) = k + 1" if "k < 6" for k
  using that unfolding ex_vm_def by (subst unat_of_nat) simp

lemma ex_vm_inj: "inj_on ex_vm {..<4 + 2}"
proof (rule inj_onI)
  fix k l
  assume a: "k \<in> {..<4 + 2}" "l \<in> {..<4 + 2}" and e: "ex_vm k = ex_vm l"
  from a have "k < 6" "l < 6"
    by simp_all
  then have "k + 1 = l + 1"
    using ex_vm_unat e by metis
  then show "k = l"
    by simp
qed

lemma ex_vm_nonnull: "\<forall>k < 4 + 2. ex_vm k \<noteq> NULL"
proof (intro allI impI notI)
  fix k :: nat
  assume "k < 4 + 2" "ex_vm k = NULL"
  then show False
    using ex_vm_unat [of k] by simp
qed

lemma ex_pool_run: "\<exists>p. pool_run ex_debug_conf p \<and> \<not> pool_lock p \<and> all_reqs p = [5, 6] \<and> pool_data p = [0, 6] \<and>
    io_req p = 77 # replicate 1023 0 \<and> map_option br_outstanding_reqs (pool_heap p 5) = Some 5"
proof -
  define p0 where "p0 = \<lparr>io_req = replicate IO_REQ_SIZE NULL, all_reqs = [5, 6], pool_data = [5, 6], pool_size = 2, pool_head = 0,
    pool_tail = 1, pool_lock = False, latency_dist = replicate 100 0, pool_at = 1, io_req_at = 4, all_at = 3, data_at = 2,
    pool_heap = [5 \<mapsto> ex_fresh, 6 \<mapsto> ex_fresh\<lparr>br_id := 1\<rparr>]\<rparr>"
  have "ex_vm 0 = 1" "ex_vm 1 = 2" "ex_vm 2 = 3" "ex_vm 3 = 4" "LATENCY_BUCKET ex_debug_conf = 100"
    by (simp_all add: ex_vm_def ex_debug_conf_def)
  then have "get_batch_request_pool ex_debug_conf ex_vm ex_fresh (int 2) = Inr p0"
    unfolding get_batch_request_pool_def p0_def by (simp add: ex_alloc)
  then have run: "pool_run ex_debug_conf p0"
    by (rule pool_run.create) (rule ex_vm_inj, rule ex_vm_nonnull)
  have "replicate IO_REQ_SIZE NULL = 0 # replicate 1023 0"
    by (simp add: replicate_Suc [symmetric] del: replicate_Suc)
  then have io: "io_req p0 = 0 # replicate 1023 0" "\<not> pool_lock p0"
    by (simp_all add: p0_def)
  define p1 where "p1 = p0\<lparr>io_req := 77 # replicate 1023 0\<rparr>"
  have "debug_pool_insert p0 77 = Inr p1"
    using io by (simp add: debug_pool_insert_def arr_set_def p1_def)
  with run have run1: "pool_run ex_debug_conf p1"
    by (rule pool_run.enter)
  have f: "pool_head p1 = 0" "pool_tail p1 = 1" "pool_size p1 = 2" "\<not> pool_lock p1" "pool_data p1 = [5, 6]" "all_reqs p1 = [5, 6]"
      "io_req p1 = 77 # replicate 1023 0" "pool_heap p1 5 = Some ex_fresh"
    by (simp_all add: p0_def p1_def)
  then have "get_batch_request ex_debug_conf 0 p1 = Inr (5, p1\<lparr>pool_data := [0, 6], pool_head := 1\<rparr>)"
    by (simp add: get_batch_request_def arr_get_def arr_set_def c_mod_def ex_debug_conf_def)
  from pool_run.take [OF run1 this] f show ?thesis
    by (intro exI conjI) (assumption, simp_all add: ex_fresh_def)
qed

section \<open>Properties\<close>

text \<open>
  C27. The list of outstanding batch requests in \<open>/proc/rmem_debug\<close> is exact: whatever
  has been entered into the tables of block requests, taken out of the pools, given back
  and removed since the pools were created, reading the file while nobody holds the locks
  prints for every device one line for each batch request that is not in its pool, in
  the order of their numbers, with the number of transfers it still waits for. Behind
  them it prints 1024 times the block request at the one place of the table that has the
  number of the device, if there is one.
\<close>
theorem debug_out_exact:
  assumes "DEBUG_OUT_REQ C" and "\<not> MEASURE_LATENCY C" and "length devices = DEVICE_BOUND C" and "DEVICE_BOUND C \<le> 1024"
    and "\<And>md. Some md \<in> set devices \<Longrightarrow> \<exists>p. ctx_pool (dev_ctx (md_dev md)) = Some p \<and> pool_run C p \<and> \<not> pool_lock p"
    and "\<And>i. vm i \<noteq> NULL"
  shows "debug_open C vm show_ptr devices = Inr (concat (map2 (\<lambda>i d. case d of None \<Rightarrow> []
      | Some md \<Rightarrow> out_text show_ptr i (the (ctx_pool (dev_ctx (md_dev md))))) [0..<DEVICE_BOUND C] devices))"
proof -
  have "show_devices (show_out_pool vm show_ptr) 0 devices = Inr (concat (map2 (\<lambda>k d. case d of None \<Rightarrow> []
      | Some md \<Rightarrow> out_text show_ptr k (the (ctx_pool (dev_ctx (md_dev md))))) [0..<0 + length devices] devices))"
  proof (rule show_devices_ok)
    fix k md
    assume k: "k < length devices" "devices ! k = Some md"
    then have "Some md \<in> set devices"
      by (metis nth_mem)
    from assms(5) [OF this] obtain p where "ctx_pool (dev_ctx (md_dev md)) = Some p" "pool_run C p" "\<not> pool_lock p"
      by blast
    then show "\<exists>p. ctx_pool (dev_ctx (md_dev md)) = Some p \<and> show_out_pool vm show_ptr (0 + k) p = Inr (out_text show_ptr (0 + k) p)"
      using show_out_pool_exact [of p vm k] pool_run_named assms(3,4,6) k(1) by simp
  qed
  then show ?thesis
    using assms(1-3) by (simp add: debug_open_def debug_show_out_req_def)
qed

theorem debug_out_exact_witness:
  "\<exists>p. pool_run ex_debug_conf p \<and> debug_open ex_debug_conf (\<lambda>i. 9) (\<lambda>a. ''p'') [None, Some (ex_mdev p)] =
     Inr (''-----Found device 1-----'' @ nl # ''Indexing batch_reqs'' @ nl # ''Outstanding batch reqs'' @ nl # ''0:5'' @ nl #
       ''Outstanding block reqs'' @ [nl])"
proof -
  obtain p where p: "pool_run ex_debug_conf p" "\<not> pool_lock p" "all_reqs p = [5, 6]" "pool_data p = [0, 6]"
      "io_req p = 77 # replicate 1023 0" "map_option br_outstanding_reqs (pool_heap p 5) = Some 5"
    using ex_pool_run by blast
  have b: "[0..<DEVICE_BOUND ex_debug_conf] = [0, 1]"
    by (simp add: ex_debug_conf_def upt_rec)
  have "debug_open ex_debug_conf (\<lambda>i. 9) (\<lambda>a. ''p'') [None, Some (ex_mdev p)] =
      Inr (concat (map2 (\<lambda>i d. case d of None \<Rightarrow> []
        | Some md \<Rightarrow> out_text (\<lambda>a. ''p'') i (the (ctx_pool (dev_ctx (md_dev md))))) [0..<DEVICE_BOUND ex_debug_conf] [None, Some (ex_mdev p)]))"
    by (rule debug_out_exact) (use p(1,2) in \<open>simp_all add: ex_debug_conf_def ex_mdev_def\<close>)
  moreover have "out_text (\<lambda>a. ''p'') 1 p = ''-----Found device 1-----'' @ nl # ''Indexing batch_reqs'' @ nl #
      ''Outstanding batch reqs'' @ nl # ''0:5'' @ nl # ''Outstanding block reqs'' @ [nl]"
    using p(6) by (auto simp: out_text_def p(3-5) out_line_def show_int_def show_digits.simps digit_char_def upt_rec char_of_def bit_numeral_rec bit_0)
  ultimately show ?thesis
    using p(1) unfolding b by (auto simp: ex_mdev_def)
qed

end
