(* ===== verification/Log.thy ===== *)
theory Log
  imports Text_Format
begin

text \<open>
  Logging: \<open>print_tty\<close> and \<open>print_dmesg\<close> of \<open>src/log.c\<close> and the macro \<open>LOG_KERN\<close> of
  \<open>src/log.h\<close>. The formatted message is a parameter: the text that \<open>vsnprintf\<close> makes of
  the format and its arguments before it cuts it off. The lemmas say that no message
  overruns a buffer, that the colour is always reset, and that the configuration the
  repository ships logs nothing.
\<close>

section \<open>The code\<close>

text \<open>The buffer gets at most \<open>n - 1\<close> characters and a terminator; the full length is returned.\<close>

definition snprintf :: "nat \<Rightarrow> string \<Rightarrow> string \<times> int" where
  "snprintf n s = (take (n - 1) s, int (length s))"

datatype tty_op = Tty_Write string | Tty_Flush

definition log_origin :: "string option \<Rightarrow> string \<Rightarrow> int \<Rightarrow> string" where
  "log_origin file func line =
     (case file of None \<Rightarrow> [] | Some f \<Rightarrow> f @ '','') @ func @ CHR '':'' # show_int line"

definition colour_on :: string where
  "colour_on = CHR 0x1B # ''[34m''"

definition end_str :: string where
  "end_str = CHR 0x1B # ''[0m'' @ [CHR 0x0D, CHR 0x0A]"

text \<open>\<open>tty_log_lock\<close> is free or held by another section; \<open>tty\<close> says whether there is a terminal.\<close>

definition print_tty :: "bool \<Rightarrow> bool \<Rightarrow> string option \<Rightarrow> string \<Rightarrow> int \<Rightarrow> string \<Rightarrow> (int \<times> tty_op list) result" where
  "print_tty tty_log_lock tty file func line msg =
     (let (buf0, _) = snprintf 256 (colour_on @ log_origin file func line @ [CHR 0x09]);
          (buf, n) = snprintf 256 msg in
      if tty
      then bindR (spin_lock tty_log_lock) (\<lambda>_.
           Inr (n, [Tty_Write (cstr buf0), Tty_Write (cstr buf), Tty_Write (cstr end_str), Tty_Flush]))
      else Inr (- 1, []))"

definition print_dmesg :: "string option \<Rightarrow> string \<Rightarrow> int \<Rightarrow> string \<Rightarrow> int \<times> string" where
  "print_dmesg file func line msg =
     (let (buf0, _) = snprintf 256 (log_origin file func line); (buf, n) = snprintf 256 msg in
      (n, cstr buf0 @ CHR 0x09 # cstr buf @ [CHR 0x0A]))"

record log_conf =
  DEBUG_TTY :: bool
  DEBUG_PRINTK :: bool
  LOG_LEVEL :: int

definition log_h :: log_conf where
  "log_h = \<lparr>DEBUG_TTY = False, DEBUG_PRINTK = False, LOG_LEVEL = 10\<rparr>"

definition LOG_INFO :: int where
  "LOG_INFO = 5"

datatype log_effect = No_Log | To_Tty "tty_op list" | To_Dmesg string

definition LOG_KERN :: "log_conf \<Rightarrow> bool \<Rightarrow> bool \<Rightarrow> int \<Rightarrow> string \<Rightarrow> int \<Rightarrow> string \<Rightarrow> log_effect result" where
  "LOG_KERN L tty_log_lock tty level func line msg =
     (if DEBUG_TTY L
      then if level < LOG_LEVEL L
           then bindR (print_tty tty_log_lock tty None func line msg) (\<lambda>(_, ops). Inr (To_Tty ops))
           else Inr No_Log
      else if DEBUG_PRINTK L
      then if level < LOG_LEVEL L then Inr (To_Dmesg (snd (print_dmesg None func line msg))) else Inr No_Log
      else Inr No_Log)"

section \<open>Bounds\<close>

lemma length_cstr_le: "length (cstr s) \<le> length s"
  by (simp add: cstr_def length_takeWhile_le)

lemma cstr_end_str [simp]: "cstr end_str = end_str"
  by (simp add: cstr_def end_str_def)

text \<open>
  Nothing longer than 255 characters is written, and what was coloured is reset, however
  long the message and the names are; the returned number is the length of the whole
  message.
\<close>

lemma print_tty_bounded:
  assumes "print_tty lock tty file func line msg = Inr (n, ops)"
  shows "(\<forall>s. Tty_Write s \<in> set ops \<longrightarrow> length s \<le> 255) \<and>
    (if tty then n = int (length msg) \<and> drop 2 ops = [Tty_Write end_str, Tty_Flush] else n = - 1 \<and> ops = [])"
proof -
  have le: "length (cstr (take 255 s)) \<le> 255" for s
    using length_cstr_le [of "take 255 s"] by simp
  have "length end_str \<le> 255"
    by (simp add: end_str_def)
  with assms le show ?thesis
    by (auto simp: print_tty_def snprintf_def Let_def bindR_eq_Inr simp del: take_append split: if_splits)
qed

lemma print_dmesg_bounded: "length (snd (print_dmesg file func line msg)) \<le> 512 \<and> fst (print_dmesg file func line msg) = int (length msg)"
proof -
  have "length (cstr (take 255 s)) \<le> 255" for s
    using length_cstr_le [of "take 255 s"] by simp
  from this [of "log_origin file func line"] this [of msg] show ?thesis
    by (simp add: print_dmesg_def snprintf_def Let_def)
qed

lemma log_h_silent: "LOG_KERN log_h lock tty level func line msg = Inr No_Log"
  by (simp add: LOG_KERN_def log_h_def)

end
