(* ===== verification/Spec2Isabelle.thy ===== *)
theory Spec2Isabelle
  imports One_Disk End_To_End Module_Unload Proc_Debug Log
begin

text \<open>
  A verification of \<open>rdma_swap_dev\<close>, a Linux block device whose sectors live in the
  memory of another host. The kernel module (\<open>src/rmem.c\<close> with the library
  \<open>src/rdma_library.c\<close>) turns block requests into RDMA work requests; the server
  (\<open>src/server/server.c\<close>) lends its memory. Client and server meet over TCP, exchange
  the keys and numbers of a connection, bring up a queue pair each, and from then on the
  client reads and writes the server's memory without the server's help.

  \<^bold>\<open>Method.\<close> Every function is a HOL function that can be executed. Errors and undefined
  behaviour are values: a result is \<open>Inr\<close> of what the function returns or \<open>Inl\<close> of a
  fault (a null pointer, an index out of range, \<open>BUG_ON\<close>, a lock that is never released, a
  loop that spins, an exit of the process). Pointers are 64-bit words, objects behind
  them maps from addresses, arrays lists with checked access. The macros of \<open>conf.h\<close> are
  the fields of a record \<open>conf\<close>, so one definition stands for all configurations;
  \<open>conf_h\<close> is the one in the repository. What is not in the repository (the verbs, the
  block layer, the allocator, sockets) is a parameter: the answers of these calls are
  functions of the trace of calls so far, and the trace is part of the result.

  \<^bold>\<open>Theories.\<close>
  \<^item> \<open>Prelude\<close>: results, checked arrays, pointers, locks, words; the collection
    \<open>result_simps\<close>. \<open>Conf\<close>: \<open>src/conf.h\<close>.
  \<^item> \<open>Ring\<close>: the locale of a bounded queue and the circular array of slots that two
    components use. \<open>Batch_Pool\<close>: the pool of batch requests (\<open>rdma_library.c\<close>, 41 to
    170), an interpretation of it; a request is never lost or handed out twice.
    \<open>Request_Array\<close>: the second interpretation, the request arrays of a device
    (\<open>rmem.c\<close>, 75 to 114).
  \<^item> \<open>Rdma_Types\<close>, \<open>Work_Request\<close>: the structures of \<open>rdma_library.h\<close>, \<open>make_wr\<close>,
    \<open>simple_make_wr\<close>, \<open>merge_wr\<close>, \<open>send_wr\<close>, \<open>rdma_op\<close> and \<open>poll_cq\<close> (632 to 682 and 806
    to 908). \<open>poll_cq\<close> consumes a list of answers of the completion queue; it returns when
    as many completions as are outstanding have come and spins while they are missing.
  \<^item> \<open>Fabric\<close>, \<open>Block\<close>: what a work request does to local and remote memory, the block
    layer's requests, and the specification: the transfers of a queue and their batches.
  \<^item> \<open>Request_Sync\<close>, \<open>Sync_Correct\<close>: \<open>rmem_request_sync\<close> (\<open>rmem.c\<close>, 218 to 360) in both
    variants, which refine the transfers of a disk and are equivalent to each other.
  \<^item> \<open>Request_Async\<close>, \<open>Async_Correct\<close>: \<open>rmem_request_async\<close> (118 to 214) and
    \<open>comp_handler_send\<close> (\<open>rdma_library.c\<close>, 561 to 629), along all schedules of calls and
    completions. \<open>Request_One\<close>: \<open>rmem_request_one\<close> (364 to 463), interleaved with the
    handler. \<open>One_Disk\<close>: under every interleaving what it posts refines the disk too, given
    that a mapped address does not depend on the length it is mapped with.
  \<^item> \<open>Text_Format\<close>, \<open>Handshake\<close>, \<open>Address\<close>: the formats of \<open>printf\<close> and \<open>sscanf\<close>, both
    ends of the handshake and of the teardown, addresses in dotted decimal.
  \<^item> \<open>Control\<close>: traces of calls, and the states of a queue pair as a step relation with
    the attributes the verbs ask for in each step; the locale \<open>bring_up\<close> of a script of
    changes that leads to a queue pair ready to send.
  \<^item> \<open>Client_Setup\<close>, \<open>Client_Correct\<close>: the device singleton, \<open>connect\<close>, \<open>modify_qp\<close>,
    \<open>rdma_setup\<close>, \<open>rdma_init\<close>, \<open>rdma_exit\<close>; the client's interpretation of \<open>bring_up\<close>.
  \<^item> \<open>Server\<close>, \<open>Server_Correct\<close>: \<open>server.c\<close> from \<open>main\<close> down; its interpretation of
    \<open>bring_up\<close>, and the balance of resources over any number of sessions.
  \<^item> \<open>Session\<close>: client and server together. \<open>End_To_End\<close>: from a file system request to
    the bytes of the server.
  \<^item> \<open>Module\<close>, \<open>Module_Correct\<close>, \<open>Module_Unload\<close>: \<open>rmem_init\<close> with its labels,
    \<open>rmem_exit\<close>, \<open>rmem_getgeo\<close>. \<open>Proc_Debug\<close>: \<open>/proc/rmem_debug\<close>. \<open>Log\<close>: \<open>src/log.c\<close>.

  \<^bold>\<open>Fuel and bounds.\<close> Loops over data are structural recursions. Loops that wait for
  somebody else (\<open>poll_cq\<close>, \<open>teardown\<close>, \<open>wait_for_tearingdown\<close>, the wait for the library)
  consume a list of answers, and the fault \<open>Spinning\<close> says that they were still waiting
  when the list ended. Following a chain of pointers takes as much fuel as there are
  objects, so running out means a cycle; the invariants show that there is none. The
  endless loop of the server is a recursion over the number of sessions.

  \<^bold>\<open>Assumptions.\<close> \<open>kind_world\<close> and \<open>kind_server\<close> say that no call fails; they appear only
  where a function is shown to succeed. \<open>paired\<close> says that TCP delivers what was sent,
  \<open>tidy\<close> that the uninitialised receive buffers hold nothing that continues a number
  (a lemma in \<open>Handshake\<close> shows what happens otherwise). \<open>serves\<close> and \<open>drain\<close> say that
  the card completes what was posted.

  \<^bold>\<open>Not modelled.\<close> \<open>rdma_transfer\<close>, \<open>rdma_xfer_bio\<close> and \<open>rdma_make_request\<close> stand inside a
  comment, and \<open>CUSTOM_MAKE_REQ_FN\<close> without them is a null pointer in the model; the
  receive work request behind \<open>DO_RECEIVE_WR\<close> is not compiled; \<open>get_time\<close> and the
  handlers that only print have no effect on the state; Makefiles and scripts. Critical
  sections are atomic steps; the interleavings that are modelled are those of the
  completion handler with the request functions.
\<close>

end
